(* ===== verification/Frft_Prelude.thy ===== *)
theory Frft_Prelude
  imports Main "HOL-Library.Word"
begin

text \<open>
  Shared vocabulary of the development: the machine integer types of the code, the error values
  its functions throw, the constants of \<^verbatim>\<open>include/common.hpp\<close>, and the generic facts about words,
  byte lists and counting that several components use.

  Conventions used throughout:
  \<^item> \<^verbatim>\<open>uintN_t\<close> is \<open>N word\<close>; \<^verbatim>\<open>size_t\<close> values are lengths of lists or sums of a few 32-bit values, so
    they are \<open>nat\<close> (they stay far below \<open>2 ^ 64\<close>);
  \<^item> a \<^verbatim>\<open>steady_clock\<close> time point or a duration is an \<open>int\<close> number of nanoseconds;
  \<^item> a pointer to bytes is a \<open>u8 list option\<close>: \<open>None\<close> is the null pointer, \<open>Some bs\<close> points to the
    bytes \<open>bs\<close>;
  \<^item> a thrown exception is the left value of a sum.
\<close>

section \<open>Types of the code\<close>

type_synonym u8 = "8 word"
type_synonym u16 = "16 word"
type_synonym u32 = "32 word"
type_synonym u64 = "64 word"

type_synonym bytes = "u8 list"
type_synonym bytes_ptr = "u8 list option"

text \<open>Nanoseconds since the epoch of the steady clock, and durations in nanoseconds.\<close>

type_synonym time_ns = int

datatype frft_error =
    Invalid_argument string
  | Runtime_error string
  | Logic_error string
  | Out_of_range string

section \<open>Constants of common.hpp\<close>

definition kMagic :: u32 where
  "kMagic = 0x46524654"

definition kVersion :: u8 where
  "kVersion = 1"

definition kHeaderSize :: nat where
  "kHeaderSize = 24"

definition kIpv4UdpOverhead :: nat where
  "kIpv4UdpOverhead = 28"

definition kDefaultWindowBytes :: u64 where
  "kDefaultWindowBytes = 8 * 1024 * 1024"

definition kDefaultAckBitmapBits :: u16 where
  "kDefaultAckBitmapBits = 8192"

definition kDefaultAckIntervalMs :: u16 where
  "kDefaultAckIntervalMs = 10"

definition kFastRetransmitThreshold :: u32 where
  "kFastRetransmitThreshold = 3"

definition kDefaultRtoMs :: int where
  "kDefaultRtoMs = 500"

definition kControlTimeoutMs :: int where
  "kControlTimeoutMs = 1000"

definition kControlAttempts :: nat where
  "kControlAttempts = 10"

text \<open>\<^verbatim>\<open>std::chrono::milliseconds\<close> as nanoseconds.\<close>

definition ms :: "int \<Rightarrow> time_ns" where
  "ms n = n * 1000000"

named_theorems frft_consts \<open>values of the constants of common.hpp\<close>

lemmas frft_const_defs [frft_consts] =
  kMagic_def kVersion_def kHeaderSize_def kIpv4UdpOverhead_def kDefaultWindowBytes_def
  kDefaultAckBitmapBits_def kDefaultAckIntervalMs_def kFastRetransmitThreshold_def
  kDefaultRtoMs_def kControlTimeoutMs_def kControlAttempts_def ms_def

section \<open>Bounds of machine integers\<close>

lemma unat_u16_le: "unat (w :: u16) \<le> 65535"
  using unsigned_less [of w, where ?'a = nat] by simp

lemma unat_u32_less: "unat (w :: u32) < 4294967296"
  using unsigned_less [of w, where ?'a = nat] by simp

lemma unat_of_nat_below: "i \<le> unat (n :: u32) \<Longrightarrow> unat (of_nat i :: u32) = i"
  using unat_u32_less [of n] by (simp add: unat_of_nat)

lemma unat_u64_less: "unat (w :: u64) < 18446744073709551616"
  using unsigned_less [of w, where ?'a = nat] by simp

lemma unat_of_nat_u64 [simp]: "n < 18446744073709551616 \<Longrightarrow> unat (of_nat n :: u64) = n"
  by (simp add: unat_of_nat)

lemma unat_of_nat_u32 [simp]: "n < 4294967296 \<Longrightarrow> unat (of_nat n :: u32) = n"
  by (simp add: unat_of_nat)

text \<open>A counter below some 32-bit bound does not wrap when it is incremented.\<close>

lemma unat_inc: "(b :: u32) < n \<Longrightarrow> unat (b + 1) = Suc (unat b)"
  using unat_u32_less [of n] by (simp add: word_less_nat_alt unat_word_ariths)

lemma unat_dec: "(b :: u32) \<noteq> 0 \<Longrightarrow> unat (b - 1) = unat b - 1"
  by (metis unat_minus_one)

section \<open>Generic list facts\<close>

lemma list_update_Cons_numeral [simp]:
  "(x # xs)[numeral k := y] = x # xs[pred_numeral k := y]"
  by (simp add: numeral_eq_Suc)

lemma take_eq_map_nth: "n \<le> length xs \<Longrightarrow> take n xs = map ((!) xs) [0..<n]"
  by (rule nth_equalityI) auto

section \<open>Sets of chunk numbers\<close>

text \<open>The first chunk number not in the set, and one more than the largest one in it.\<close>

definition first_gap :: "nat set \<Rightarrow> nat" where
  "first_gap R = (LEAST i. i \<notin> R)"

definition upper_end :: "nat set \<Rightarrow> nat" where
  "upper_end R = (if R = {} then 0 else Suc (Max R))"

lemma first_gap_notin: "finite R \<Longrightarrow> first_gap R \<notin> R"
  unfolding first_gap_def by (rule LeastI_ex) (use ex_new_if_finite [OF infinite_UNIV_nat] in blast)

lemma below_first_gap: "i < first_gap R \<Longrightarrow> i \<in> R"
  unfolding first_gap_def using not_less_Least by blast

lemma first_gap_eqI: "g \<notin> R \<Longrightarrow> (\<And>i. i < g \<Longrightarrow> i \<in> R) \<Longrightarrow> first_gap R = g"
  unfolding first_gap_def by (rule Least_equality) (auto intro: leI)

lemma first_gap_le: "R \<subseteq> {..<n} \<Longrightarrow> first_gap R \<le> n"
  unfolding first_gap_def by (rule Least_le) auto

lemma upper_end_le: "finite R \<Longrightarrow> R \<subseteq> {..<n} \<Longrightarrow> upper_end R \<le> n"
  by (auto simp: upper_end_def Suc_le_eq subset_iff)

lemma less_upper_end: "finite R \<Longrightarrow> i \<in> R \<Longrightarrow> i < upper_end R"
  by (auto simp: upper_end_def less_Suc_eq_le)

lemma upper_end_insert: "finite R \<Longrightarrow> upper_end (insert i R) = max (upper_end R) (Suc i)"
  by (auto simp: upper_end_def max.commute)

lemma first_gap_subset_mono: "finite S \<Longrightarrow> R \<subseteq> S \<Longrightarrow> first_gap R \<le> first_gap S"
  unfolding first_gap_def by (rule Least_le) (use first_gap_notin [of S] in \<open>auto simp: first_gap_def\<close>)

section \<open>Memory\<close>

text \<open>
  \<^verbatim>\<open>memcpy(dst + off, bs, n)\<close> into a buffer: the bytes of \<open>bs\<close> replace those at \<open>off\<close>.
\<close>

definition memcpy_at :: "bytes \<Rightarrow> nat \<Rightarrow> bytes \<Rightarrow> bytes" where
  "memcpy_at dst off bs = take off dst @ bs @ drop (off + length bs) dst"

lemma length_memcpy_at [simp]:
  "off + length bs \<le> length dst \<Longrightarrow> length (memcpy_at dst off bs) = length dst"
  by (simp add: memcpy_at_def)

lemma slice_memcpy_at:
  "off + length bs \<le> length dst \<Longrightarrow> take (length bs) (drop off (memcpy_at dst off bs)) = bs"
  by (simp add: memcpy_at_def)

lemma nth_memcpy_at:
  "off + length bs \<le> length dst \<Longrightarrow> i < length dst \<Longrightarrow>
     memcpy_at dst off bs ! i = (if off \<le> i \<and> i < off + length bs then bs ! (i - off) else dst ! i)"
  by (auto simp: memcpy_at_def nth_append)

named_theorems wire_simps \<open>rewriting of encoded and decoded byte lists\<close>

end
