(* ===== verification/Byte_Codec.thy ===== *)
theory Byte_Codec
  imports Frft_Prelude
begin

unbundle bit_operations_syntax

text \<open>
  The byte-level helpers at the top of \<^verbatim>\<open>src/protocol.cpp\<close>: \<^verbatim>\<open>write_u16/u32/u64\<close> store an unsigned
  integer into a buffer at an offset, most significant byte first, and \<^verbatim>\<open>read_u16/u32/u64\<close> read one
  from the start of a byte range.  The locale \<open>wire_field\<close> is the contract the packet code relies on:
  a field has a fixed width, writing it replaces exactly that many bytes, reading gives the written
  value back, and every byte string of that width is the encoding of the value it reads as.
\<close>

section \<open>The helpers of protocol.cpp\<close>

definition write_u16 :: "bytes \<Rightarrow> nat \<Rightarrow> u16 \<Rightarrow> bytes" where
  "write_u16 out offset value =
     (let out1 = out[offset := ucast (drop_bit 8 value)]
      in out1[offset + 1 := ucast value])"

text \<open>\<^verbatim>\<open>for (int i = 3; i >= 0; --i) out[offset + (3 - i)] = (uint8_t)(value >> (i * 8))\<close>\<close>

definition write_u32 :: "bytes \<Rightarrow> nat \<Rightarrow> u32 \<Rightarrow> bytes" where
  "write_u32 out offset value =
     fold (\<lambda>i out. out[offset + (3 - i) := ucast (drop_bit (i * 8) value)]) [3, 2, 1, 0] out"

definition write_u64 :: "bytes \<Rightarrow> nat \<Rightarrow> u64 \<Rightarrow> bytes" where
  "write_u64 out offset value =
     fold (\<lambda>i out. out[offset + (7 - i) := ucast (drop_bit (i * 8) value)])
       [7, 6, 5, 4, 3, 2, 1, 0] out"

definition read_u16 :: "bytes \<Rightarrow> u16" where
  "read_u16 data = push_bit 8 (ucast (data ! 0)) OR ucast (data ! 1)"

text \<open>\<^verbatim>\<open>value = 0; for (int i = 0; i < 4; ++i) value = (value << 8) | data[i]\<close>\<close>

definition read_u32 :: "bytes \<Rightarrow> u32" where
  "read_u32 data = fold (\<lambda>i value. push_bit 8 value OR ucast (data ! i)) [0, 1, 2, 3] 0"

definition read_u64 :: "bytes \<Rightarrow> u64" where
  "read_u64 data =
     fold (\<lambda>i value. push_bit 8 value OR ucast (data ! i)) [0, 1, 2, 3, 4, 5, 6, 7] 0"

section \<open>Big-endian byte strings\<close>

text \<open>
  The reference encoding, at any width: \<open>be_bytes n v\<close> is the \<open>n\<close> low bytes of \<open>v\<close>, most
  significant first, and \<open>be_value bs\<close> is the value a byte string denotes.
\<close>

definition be_bytes :: "nat \<Rightarrow> 'a::len word \<Rightarrow> bytes" where
  "be_bytes n v = rev (map (\<lambda>i. ucast (drop_bit (i * 8) v)) [0..<n])"

definition be_value :: "bytes \<Rightarrow> 'a::len word" where
  "be_value bs = fold (\<lambda>b value. push_bit 8 value OR ucast b) bs 0"

lemma length_be_bytes [simp]: "length (be_bytes n v) = n"
  by (simp add: be_bytes_def)

lemma nth_rev_be_bytes: "i < n \<Longrightarrow> rev (be_bytes n v) ! i = ucast (drop_bit (i * 8) v)"
  by (simp add: be_bytes_def)

lemma bit_be_value:
  "bit (be_value bs :: 'a::len word) k \<longleftrightarrow>
     k < LENGTH('a) \<and> k < 8 * length bs \<and> bit (rev bs ! (k div 8)) (k mod 8)"
proof (induction bs arbitrary: k rule: rev_induct)
  case Nil
  then show ?case by (simp add: be_value_def)
next
  case (snoc b bs)
  have *: "be_value (bs @ [b]) = (push_bit 8 (be_value bs) OR ucast b :: 'a word)"
    by (simp add: be_value_def)
  show ?case
  proof (cases "k < 8")
    case True
    then show ?thesis by (auto simp: * bit_simps)
  next
    case False
    then have "k div 8 = Suc ((k - 8) div 8)" and "k mod 8 = (k - 8) mod 8"
      by (simp_all add: le_div_geq le_mod_geq)
    with False show ?thesis
      by (auto simp: * bit_simps snoc.IH not_less dest: bit_imp_le_length)
  qed
qed

lemma be_value_be_bytes: "LENGTH('a) = 8 * n \<Longrightarrow> be_value (be_bytes n v) = (v :: 'a::len word)"
  by (rule bit_word_eqI)
    (auto simp: bit_be_value nth_rev_be_bytes bit_simps less_mult_imp_div_less mult.commute)

lemma be_bytes_be_value:
  assumes "LENGTH('a) = 8 * n" and "length bs = n"
  shows "be_bytes n (be_value bs :: 'a::len word) = bs"
proof -
  have "rev (be_bytes n (be_value bs :: 'a word)) = rev bs"
  proof (rule nth_equalityI)
    fix i assume "i < length (rev (be_bytes n (be_value bs :: 'a word)))"
    then have "i < n" by simp
    show "rev (be_bytes n (be_value bs :: 'a word)) ! i = rev bs ! i"
      by (rule bit_word_eqI)
        (use \<open>i < n\<close> assms in \<open>auto simp: nth_rev_be_bytes bit_simps bit_be_value\<close>)
  qed (use assms in simp)
  then show ?thesis by simp
qed

section \<open>The helpers in terms of the reference encoding\<close>

lemma length_2E: assumes "length bs = 2" obtains a b where "bs = [a, b]"
  using assms by (auto simp: numeral_eq_Suc length_Suc_conv)

lemma length_4E: assumes "length bs = 4" obtains a b c d where "bs = [a, b, c, d]"
  using assms by (auto simp: numeral_eq_Suc length_Suc_conv)

lemma length_8E:
  assumes "length bs = 8" obtains a b c d e f g h where "bs = [a, b, c, d, e, f, g, h]"
  using assms by (auto simp: numeral_eq_Suc length_Suc_conv)

lemma upt_widths:
  "[0..<2] = [0, 1::nat]" "[0..<4] = [0, 1, 2, 3::nat]"
  "[0..<8] = [0, 1, 2, 3, 4, 5, 6, 7::nat]"
  by (simp_all add: upt_rec)

lemma write_u16_at:
  "length xs = off \<Longrightarrow> length old = 2 \<Longrightarrow>
    write_u16 (xs @ old @ rest) off v = xs @ be_bytes 2 v @ rest"
  by (erule length_2E) (auto simp: write_u16_def be_bytes_def upt_widths list_update_append)

lemma write_u32_at:
  "length xs = off \<Longrightarrow> length old = 4 \<Longrightarrow>
    write_u32 (xs @ old @ rest) off v = xs @ be_bytes 4 v @ rest"
  by (erule length_4E) (auto simp: write_u32_def be_bytes_def upt_widths list_update_append)

lemma write_u64_at:
  "length xs = off \<Longrightarrow> length old = 8 \<Longrightarrow>
    write_u64 (xs @ old @ rest) off v = xs @ be_bytes 8 v @ rest"
  by (erule length_8E) (auto simp: write_u64_def be_bytes_def upt_widths list_update_append)

lemma read_u16_value: "2 \<le> length bs \<Longrightarrow> read_u16 bs = be_value (take 2 bs)"
  by (simp add: read_u16_def be_value_def take_eq_map_nth upt_widths)

lemma read_u32_value: "4 \<le> length bs \<Longrightarrow> read_u32 bs = be_value (take 4 bs)"
  by (simp add: read_u32_def be_value_def take_eq_map_nth upt_widths)

lemma read_u64_value: "8 \<le> length bs \<Longrightarrow> read_u64 bs = be_value (take 8 bs)"
  by (simp add: read_u64_def be_value_def take_eq_map_nth upt_widths)

section \<open>The contract of a wire field\<close>

locale wire_field =
  fixes put :: "bytes \<Rightarrow> nat \<Rightarrow> 'v \<Rightarrow> bytes"
    and get :: "bytes \<Rightarrow> 'v"
    and enc :: "'v \<Rightarrow> bytes"
    and width :: nat
  assumes length_enc: "length (enc v) = width"
    and put_at: "length xs = off \<Longrightarrow> length old = width \<Longrightarrow>
      put (xs @ old @ rest) off v = xs @ enc v @ rest"
    and get_enc: "get (enc v @ rest) = v"
    and enc_get: "width \<le> length bs \<Longrightarrow> enc (get bs) = take width bs"
begin

lemma get_enc_whole: "get (enc v) = v"
  using get_enc [of v "[]"] by simp

lemma put_closed_form:
  assumes "off + width \<le> length out"
  shows "put out off v = take off out @ enc v @ drop (off + width) out"
proof -
  let ?old = "take width (drop off out)" and ?rest = "drop (off + width) out"
  have "out = take off out @ ?old @ ?rest"
    by (metis append_take_drop_id drop_drop add.commute)
  then have "put out off v = put (take off out @ ?old @ ?rest) off v"
    by simp
  also have "\<dots> = take off out @ enc v @ ?rest"
    using assms by (intro put_at) auto
  finally show ?thesis .
qed

lemma put_length: "off + width \<le> length out \<Longrightarrow> length (put out off v) = length out"
  by (simp add: put_closed_form length_enc)

lemma get_put: "off + width \<le> length out \<Longrightarrow> get (drop off (put out off v)) = v"
  by (simp add: put_closed_form get_enc)

lemma put_get: "off + width \<le> length out \<Longrightarrow> put out off (get (drop off out)) = out"
  by (simp add: put_closed_form enc_get)
    (metis append_take_drop_id drop_drop add.commute)

lemma put_frame:
  assumes "off + width \<le> length out" and "i < off \<or> off + width \<le> i" and "i < length out"
  shows "put out off v ! i = out ! i"
  using assms by (auto simp: put_closed_form nth_append length_enc)

lemma enc_inject: "enc v = enc w \<longleftrightarrow> v = w"
  by (metis get_enc)

lemma get_cong_take:
  assumes "width \<le> length a" and "take width a = take width b"
  shows "get a = get b"
proof -
  have "width \<le> length b"
    using assms by (metis length_take min.absorb_iff2 min.cobounded1)
  with assms have "enc (get a) = enc (get b)"
    by (simp add: enc_get)
  then show ?thesis by (simp add: enc_inject)
qed

end

text \<open>The three integer widths of the protocol satisfy the contract.\<close>

interpretation f16: wire_field write_u16 read_u16 "be_bytes 2" 2
  by unfold_locales
    (simp_all add: write_u16_at read_u16_value be_value_be_bytes be_bytes_be_value)

interpretation f32: wire_field write_u32 read_u32 "be_bytes 4" 4
  by unfold_locales
    (simp_all add: write_u32_at read_u32_value be_value_be_bytes be_bytes_be_value)

interpretation f64: wire_field write_u64 read_u64 "be_bytes 8" 8
  by unfold_locales
    (simp_all add: write_u64_at read_u64_value be_value_be_bytes be_bytes_be_value)

lemmas field_writes [wire_simps] =
  f16.put_closed_form f32.put_closed_form f64.put_closed_form upd_conv_take_nth_drop

lemmas field_reads [wire_simps] =
  f16.get_enc f32.get_enc f64.get_enc f16.get_enc_whole f32.get_enc_whole f64.get_enc_whole

lemmas field_reencodes = f16.enc_get f32.enc_get f64.enc_get

end
