(* ===== verification/Packet_Format.thy ===== *)
theory Packet_Format
  imports Byte_Codec
begin

unbundle bit_operations_syntax

text \<open>
  The 24-byte FRFT header and the datagram built from it: \<^verbatim>\<open>PacketType\<close>, \<^verbatim>\<open>PacketFlags\<close>,
  \<^verbatim>\<open>PacketHeader\<close>, \<^verbatim>\<open>Packet\<close> and \<^verbatim>\<open>PacketView\<close> of \<^verbatim>\<open>include/protocol.hpp\<close>, and the functions
  \<^verbatim>\<open>serialize_packet_header\<close>, \<^verbatim>\<open>serialize_packet\<close>, \<^verbatim>\<open>deserialize_packet_view\<close> and
  \<^verbatim>\<open>deserialize_packet\<close> of \<^verbatim>\<open>src/protocol.cpp\<close>.  A function that returns \<^verbatim>\<open>bool\<close> with an out
  parameter and an error text is a sum: \<open>Inl\<close> the text, \<open>Inr\<close> the decoded value.
\<close>

section \<open>Types\<close>

datatype packet_type = START | START_ACK | DATA | ACK | COMPLETE | COMPLETE_ACK | ERROR

fun packet_type_byte :: "packet_type \<Rightarrow> u8" where
  "packet_type_byte START = 1"
| "packet_type_byte START_ACK = 2"
| "packet_type_byte DATA = 3"
| "packet_type_byte ACK = 4"
| "packet_type_byte COMPLETE = 5"
| "packet_type_byte COMPLETE_ACK = 6"
| "packet_type_byte ERROR = 7"

definition FLAG_CRC32C :: u16 where
  "FLAG_CRC32C = 0x0001"

definition FLAG_RETRANSMITTED :: u16 where
  "FLAG_RETRANSMITTED = 0x0002"

definition FLAG_SACK :: u16 where
  "FLAG_SACK = 0x0004"

definition FLAG_MD5 :: u16 where
  "FLAG_MD5 = 0x0008"

lemmas flag_defs [frft_consts] = FLAG_CRC32C_def FLAG_RETRANSMITTED_def FLAG_SACK_def FLAG_MD5_def

record packet_header =
  magic :: u32
  version :: u8
  ptype :: packet_type
  flags :: u16
  session_id :: u32
  number :: u32
  payload_length :: u16
  header_length :: u16
  crc32c :: u32

text \<open>The member initialisers of \<^verbatim>\<open>PacketHeader\<close>.\<close>

definition default_header :: packet_header where
  "default_header =
     \<lparr>magic = kMagic, version = kVersion, ptype = ERROR, flags = 0, session_id = 0, number = 0,
      payload_length = 0, header_length = of_nat kHeaderSize, crc32c = 0\<rparr>"

record packet =
  pkt_header :: packet_header
  pkt_payload :: bytes

record packet_view =
  view_header :: packet_header
  view_payload :: bytes_ptr
  view_payload_size :: nat

section \<open>Operations\<close>

definition valid_packet_type :: "u8 \<Rightarrow> bool" where
  "valid_packet_type value \<longleftrightarrow> packet_type_byte START \<le> value \<and> value \<le> packet_type_byte ERROR"

text \<open>\<^verbatim>\<open>static_cast<PacketType>(value)\<close>, applied by the code to valid values only.\<close>

definition cast_packet_type :: "u8 \<Rightarrow> packet_type" where
  "cast_packet_type value =
     (if value = 1 then START else if value = 2 then START_ACK else if value = 3 then DATA
      else if value = 4 then ACK else if value = 5 then COMPLETE
      else if value = 6 then COMPLETE_ACK else ERROR)"

definition serialize_packet_header :: "packet_header \<Rightarrow> nat \<Rightarrow> frft_error + bytes" where
  "serialize_packet_header header payload_size =
     (if payload_size > 65535 then Inl (Invalid_argument ''packet payload is too large'')
      else
        let out = replicate kHeaderSize 0;
            out = write_u32 out 0 (magic header);
            out = out[4 := version header];
            out = out[5 := packet_type_byte (ptype header)];
            out = write_u16 out 6 (flags header);
            out = write_u32 out 8 (session_id header);
            out = write_u32 out 12 (number header);
            out = write_u16 out 16 (of_nat payload_size);
            out = write_u16 out 18 (of_nat kHeaderSize);
            out = write_u32 out 20 (crc32c header)
        in Inr out)"

text \<open>
  \<^verbatim>\<open>serialize_packet(header, payload, payload_size)\<close>: the pointer and the size are separate
  arguments; \<open>take payload_size\<close> is the range that is copied.
\<close>

definition serialize_packet ::
    "packet_header \<Rightarrow> bytes_ptr \<Rightarrow> nat \<Rightarrow> frft_error + bytes" where
  "serialize_packet header payload payload_size =
     (if payload_size \<noteq> 0 \<and> payload = None
      then Inl (Invalid_argument ''packet payload is null'')
      else
        case serialize_packet_header header payload_size of
          Inl e \<Rightarrow> Inl e
        | Inr serialized_header \<Rightarrow>
            Inr (serialized_header @
              (if payload_size \<noteq> 0 then take payload_size (the payload) else [])))"

text \<open>The header fields, read at their offsets (lines 119 to 132, after the type check).\<close>

definition decode_header :: "bytes \<Rightarrow> packet_header" where
  "decode_header data =
     \<lparr>magic = read_u32 data, version = data ! 4,
      ptype = cast_packet_type (data ! 5), flags = read_u16 (drop 6 data),
      session_id = read_u32 (drop 8 data), number = read_u32 (drop 12 data),
      payload_length = read_u16 (drop 16 data),
      header_length = read_u16 (drop 18 data), crc32c = read_u32 (drop 20 data)\<rparr>"

definition deserialize_packet_view :: "bytes_ptr \<Rightarrow> nat \<Rightarrow> string + packet_view" where
  "deserialize_packet_view ptr sz =
     (case ptr of
        None \<Rightarrow> Inl ''datagram is shorter than the FRFT header''
      | Some data \<Rightarrow>
          if sz < kHeaderSize then Inl ''datagram is shorter than the FRFT header''
          else if \<not> valid_packet_type (data ! 5) then Inl ''unknown packet type''
          else
            let header = decode_header data
            in if magic header \<noteq> kMagic then Inl ''invalid FRFT magic''
               else if version header \<noteq> kVersion then Inl ''unsupported FRFT version''
               else if unat (header_length header) \<noteq> kHeaderSize
                 then Inl ''invalid FRFT header length''
               else if sz \<noteq> unat (header_length header) + unat (payload_length header)
                 then Inl ''datagram length does not match header''
               else if flags header AND FLAG_CRC32C \<noteq> 0
                 then Inl ''CRC32C is not supported in Stage 1''
               else Inr \<lparr>view_header = header,
                         view_payload = Some (take (unat (payload_length header))
                                                (drop kHeaderSize data)),
                         view_payload_size = unat (payload_length header)\<rparr>)"

definition deserialize_packet :: "bytes_ptr \<Rightarrow> nat \<Rightarrow> string + packet" where
  "deserialize_packet ptr sz =
     (case deserialize_packet_view ptr sz of
        Inl e \<Rightarrow> Inl e
      | Inr view \<Rightarrow>
          Inr \<lparr>pkt_header = view_header view,
               pkt_payload = take (view_payload_size view) (the (view_payload view))\<rparr>)"

section \<open>Lemmas\<close>

lemma cast_packet_type_byte [simp]: "cast_packet_type (packet_type_byte t) = t"
  by (cases t) (simp_all add: cast_packet_type_def)

lemma valid_packet_type_byte [simp]: "valid_packet_type (packet_type_byte t)"
  by (cases t) (simp_all add: valid_packet_type_def)

lemma u8_le_7_cases: "(x :: u8) \<le> 7 \<longleftrightarrow> x \<in> {0, 1, 2, 3, 4, 5, 6, 7}"
proof -
  have "unat x \<le> 7 \<longleftrightarrow> unat x \<in> {0, 1, 2, 3, 4, 5, 6, 7}" by auto
  then show ?thesis by (auto simp: word_le_nat_alt word_unat_eq_iff)
qed

lemma packet_type_byte_cast [simp]:
  "valid_packet_type b \<Longrightarrow> packet_type_byte (cast_packet_type b) = b"
  by (auto simp: valid_packet_type_def cast_packet_type_def u8_le_7_cases)

text \<open>The layout of the header: nine big-endian fields, one after the other.\<close>

definition header_bytes :: "packet_header \<Rightarrow> nat \<Rightarrow> bytes" where
  "header_bytes h n =
     be_bytes 4 (magic h) @ [version h, packet_type_byte (ptype h)] @ be_bytes 2 (flags h) @
     be_bytes 4 (session_id h) @ be_bytes 4 (number h) @ be_bytes 2 (of_nat n :: u16) @
     be_bytes 2 (24 :: u16) @ be_bytes 4 (crc32c h)"

lemma length_header_bytes [simp]: "length (header_bytes h n) = 24"
  by (simp add: header_bytes_def)

lemma serialize_packet_header_layout:
  "n \<le> 65535 \<Longrightarrow> serialize_packet_header h n = Inr (header_bytes h n)"
  by (simp add: serialize_packet_header_def header_bytes_def kHeaderSize_def Let_def wire_simps)

lemma packet_type_byte_inject [simp]: "packet_type_byte s = packet_type_byte t \<longleftrightarrow> s = t"
  by (metis cast_packet_type_byte)

text \<open>Reading the fields of a datagram that starts with an encoded header.\<close>

lemma header_bytes_fields:
  "(header_bytes h n @ rest) ! 4 = version h"
  "(header_bytes h n @ rest) ! 5 = packet_type_byte (ptype h)"
  "read_u32 (header_bytes h n @ rest) = magic h"
  "read_u16 (drop 6 (header_bytes h n @ rest)) = flags h"
  "read_u32 (drop 8 (header_bytes h n @ rest)) = session_id h"
  "read_u32 (drop 12 (header_bytes h n @ rest)) = number h"
  "read_u16 (drop 16 (header_bytes h n @ rest)) = of_nat n"
  "read_u16 (drop 18 (header_bytes h n @ rest)) = 24"
  "read_u32 (drop 20 (header_bytes h n @ rest)) = crc32c h"
  "drop 24 (header_bytes h n @ rest) = rest"
  by (simp_all add: header_bytes_def wire_simps nth_append)

lemmas header_bytes_fields_simped [wire_simps] = header_bytes_fields [simplified]

lemma serialize_packet_layout:
  "n \<le> 65535 \<Longrightarrow> n \<le> length bs \<Longrightarrow>
     serialize_packet h (Some bs) n = Inr (header_bytes h n @ take n bs)"
  by (simp add: serialize_packet_def serialize_packet_header_layout)

lemma serialize_packet_empty: "serialize_packet h None 0 = Inr (header_bytes h 0)"
  by (simp add: serialize_packet_def serialize_packet_header_layout)

lemma unat_of_nat_u16 [simp]: "n \<le> 65535 \<Longrightarrow> unat (of_nat n :: u16) = n"
  by (simp add: unat_of_nat)

text \<open>
  The header a receiver sees for one that was sent: the two length fields are filled in by
  the serializer whatever the sender's record says.
\<close>

definition sent_header :: "packet_header \<Rightarrow> nat \<Rightarrow> packet_header" where
  "sent_header h n = h\<lparr>payload_length := of_nat n, header_length := 24\<rparr>"

definition sendable_header :: "packet_header \<Rightarrow> bool" where
  "sendable_header h \<longleftrightarrow>
     magic h = kMagic \<and> version h = kVersion \<and> flags h AND FLAG_CRC32C = 0"

lemma decode_header_bytes:
  "decode_header (header_bytes h n @ rest) = sent_header h n"
  by (simp add: decode_header_def sent_header_def wire_simps)

lemma deserialize_header_bytes:
  assumes "sendable_header h" and "length bs \<le> 65535"
  shows "deserialize_packet_view (Some (header_bytes h (length bs) @ bs)) (24 + length bs) =
    Inr \<lparr>view_header = sent_header h (length bs), view_payload = Some bs,
         view_payload_size = length bs\<rparr>"
  using assms
  by (simp add: deserialize_packet_view_def decode_header_bytes)
    (simp add: sendable_header_def sent_header_def kHeaderSize_def wire_simps)

text \<open>Exactly the datagrams that are accepted, and what is decoded from them.\<close>

lemma deserialize_packet_view_iff:
  "deserialize_packet_view (Some d) n = Inr v \<longleftrightarrow>
     24 \<le> n \<and> valid_packet_type (d ! 5) \<and> sendable_header (decode_header d) \<and>
     header_length (decode_header d) = 24 \<and>
     n = 24 + unat (payload_length (decode_header d)) \<and>
     v = \<lparr>view_header = decode_header d,
          view_payload = Some (take (unat (payload_length (decode_header d))) (drop 24 d)),
          view_payload_size = unat (payload_length (decode_header d))\<rparr>"
proof -
  have "unat (w :: u16) = 24 \<longleftrightarrow> w = 24" for w
    by (simp add: word_unat_eq_iff)
  then show ?thesis
    by (auto simp: deserialize_packet_view_def kHeaderSize_def Let_def sendable_header_def)
qed

lemma take_2_drop: "n + 2 \<le> length d \<Longrightarrow> take 2 (drop n d) = [d ! n, d ! (n + 1)]"
  by (simp add: take_eq_map_nth upt_widths)

lemma take_fields_24:
  "take 24 d = take 4 d @ take 2 (drop 4 d) @ take 2 (drop 6 d) @ take 4 (drop 8 d) @
     take 4 (drop 12 d) @ take 2 (drop 16 d) @ take 2 (drop 18 d) @ take 4 (drop 20 d)"
  using take_add [of 4 20 d] take_add [of 2 18 "drop 4 d"] take_add [of 2 16 "drop 6 d"]
    take_add [of 4 12 "drop 8 d"] take_add [of 4 8 "drop 12 d"] take_add [of 2 6 "drop 16 d"]
    take_add [of 2 4 "drop 18 d"]
  by simp

lemma header_bytes_decode:
  assumes "24 \<le> length d" and "valid_packet_type (d ! 5)"
    and "header_length (decode_header d) = 24"
  shows "header_bytes (decode_header d) (unat (payload_length (decode_header d))) = take 24 d"
proof -
  have "read_u16 (drop 18 d) = 24"
    using assms by (simp add: decode_header_def)
  then have "be_bytes 2 (24 :: u16) = take 2 (drop 18 d)"
    using assms field_reencodes(1) [of "drop 18 d"] by simp
  then show ?thesis
    using assms by (simp add: header_bytes_def take_fields_24 decode_header_def field_reencodes
        take_2_drop)
qed

section \<open>Properties\<close>

text \<open>C20: A datagram built by \<^verbatim>\<open>serialize_packet\<close> from a header with the protocol's magic,
  version and no CRC flag, and a payload that fits a 16-bit length, is 24 bytes longer than the
  payload, and \<^verbatim>\<open>deserialize_packet\<close> gives back every header field and the payload.\<close>

theorem packet_roundtrip:
  assumes "sendable_header h" and "length bs \<le> 65535"
  shows "\<exists>out. serialize_packet h (Some bs) (length bs) = Inr out \<and> length out = 24 + length bs \<and>
    deserialize_packet (Some out) (length out) =
      Inr \<lparr>pkt_header = h\<lparr>payload_length := of_nat (length bs), header_length := 24\<rparr>,
           pkt_payload = bs\<rparr>"
  using assms
  by (simp add: serialize_packet_layout deserialize_packet_def deserialize_header_bytes
      sent_header_def)

theorem packet_roundtrip_witness:
  "\<exists>out. serialize_packet (default_header\<lparr>ptype := DATA, number := 42\<rparr>) (Some [16, 32, 48]) 3
      = Inr out \<and> length out = 27 \<and>
    deserialize_packet (Some out) (length out) =
      Inr \<lparr>pkt_header = default_header\<lparr>ptype := DATA, number := 42, payload_length := 3\<rparr>,
           pkt_payload = [16, 32, 48]\<rparr>"
  using packet_roundtrip [of "default_header\<lparr>ptype := DATA, number := 42\<rparr>" "[16, 32, 48]"]
  by (simp add: sendable_header_def default_header_def kHeaderSize_def numeral_3_eq_3)

text \<open>C21: Decoding is canonical: whatever datagram \<^verbatim>\<open>deserialize_packet_view\<close> accepts is, byte for
  byte, the one \<^verbatim>\<open>serialize_packet\<close> builds from the decoded header and payload, so no accepted
  datagram has trailing, missing or ignored bytes.\<close>

theorem packet_decode_canonical:
  assumes "deserialize_packet_view (Some d) (length d) = Inr v"
  shows "serialize_packet (view_header v) (view_payload v) (view_payload_size v) = Inr d"
proof -
  let ?h = "decode_header d" and ?n = "unat (payload_length (decode_header d))"
  from assms have d: "24 \<le> length d" "valid_packet_type (d ! 5)" "header_length ?h = 24"
      "length d = 24 + ?n"
    and v: "v = \<lparr>view_header = ?h, view_payload = Some (take ?n (drop 24 d)),
      view_payload_size = ?n\<rparr>"
    by (auto simp: deserialize_packet_view_iff)
  have "serialize_packet ?h (Some (take ?n (drop 24 d))) ?n =
      Inr (header_bytes ?h ?n @ take ?n (drop 24 d))"
    using d(4) by (simp add: serialize_packet_layout unat_u16_le)
  with v d show ?thesis
    by (simp add: header_bytes_decode)
qed

theorem packet_decode_canonical_witness:
  "\<exists>v. deserialize_packet_view
          (Some [70, 82, 70, 84, 1, 5, 0, 0, 0, 0, 0, 9, 0, 0, 0, 7, 0, 1, 0, 24, 0, 0, 0, 0, 33]) 25
        = Inr v \<and>
     serialize_packet (view_header v) (view_payload v) (view_payload_size v) =
       Inr [70, 82, 70, 84, 1, 5, 0, 0, 0, 0, 0, 9, 0, 0, 0, 7, 0, 1, 0, 24, 0, 0, 0, 0, 33]"
proof -
  let ?d = "[70, 82, 70, 84, 1, 5, 0, 0, 0, 0, 0, 9, 0, 0, 0, 7, 0, 1, 0, 24, 0, 0, 0, 0, 33] :: bytes"
  obtain v where v: "deserialize_packet_view (Some ?d) (length ?d) = Inr v"
    by (simp add: deserialize_packet_view_def decode_header_def read_u32_def read_u16_def
        cast_packet_type_def valid_packet_type_def frft_consts)
  have "length ?d = 25" by simp
  with v packet_decode_canonical [OF v] show ?thesis by metis
qed

end
