(* ===== verification/File_Io.thy ===== *)
theory File_Io
  imports Frft_Prelude
begin

text \<open>
  \<^verbatim>\<open>MappedInputFile\<close> and \<^verbatim>\<open>MappedOutputFile\<close> of \<^verbatim>\<open>src/file_io.cpp\<close>.  The operating system is a
  parameter: a \<open>file_kernel\<close> says what each system call returns, and an operation yields its result
  together with the list of system calls it made, so that what it acquires and releases can be
  counted.  The contents of a mapping are modelled where the endpoints read and write them.
\<close>

section \<open>System calls\<close>

record file_kernel =
  fk_open :: "string \<Rightarrow> int"
  fk_fstat :: "int \<Rightarrow> int \<times> int"
  fk_ftruncate :: "int \<Rightarrow> u64 \<Rightarrow> int"
  fk_mmap :: "int \<Rightarrow> u64 \<Rightarrow> u64 option"
  fk_msync :: "u64 \<Rightarrow> u64 \<Rightarrow> int"
  fk_strerror :: string

text \<open>A system call in the trace, with its result where the result is a resource.\<close>

datatype file_call =
    Open_call string int
  | Fstat_call int
  | Ftruncate_call int u64
  | Mmap_call int u64 "u64 option"
  | Msync_call u64 u64
  | Munmap_call u64 u64
  | Close_call int

record mapped_file =
  mf_fd :: int
  mf_data :: "u64 option"
  mf_size :: u64

definition system_error :: "file_kernel \<Rightarrow> string \<Rightarrow> frft_error" where
  "system_error k action = Runtime_error (action @ '': '' @ fk_strerror k)"

text \<open>\<^verbatim>\<open>std::numeric_limits<off_t>::max()\<close> for a 64-bit \<^verbatim>\<open>off_t\<close>.\<close>

definition off_t_max :: u64 where
  "off_t_max = 0x7fffffffffffffff"

section \<open>Operations\<close>

definition open_input ::
    "file_kernel \<Rightarrow> string \<Rightarrow> (frft_error + mapped_file) \<times> file_call list" where
  "open_input k path =
     (let fd = fk_open k path
      in if fd < 0 then (Inl (system_error k ''cannot open input file''), [Open_call path fd])
      else
        let (rc, st_size) = fk_fstat k fd
        in if rc \<noteq> 0
        then (Inl (system_error k ''cannot inspect input file''),
              [Open_call path fd, Fstat_call fd, Close_call fd])
        else if st_size < 0
        then (Inl (Runtime_error ''input file has an invalid size''),
              [Open_call path fd, Fstat_call fd, Close_call fd])
        else
          let sz = of_int st_size
          in if sz \<noteq> 0
          then
            case fk_mmap k fd sz of
              None \<Rightarrow> (Inl (system_error k ''cannot mmap input file''),
                [Open_call path fd, Fstat_call fd, Mmap_call fd sz None, Close_call fd])
            | Some address \<Rightarrow> (Inr \<lparr>mf_fd = fd, mf_data = Some address, mf_size = sz\<rparr>,
                [Open_call path fd, Fstat_call fd, Mmap_call fd sz (Some address)])
          else (Inr \<lparr>mf_fd = fd, mf_data = None, mf_size = sz\<rparr>, [Open_call path fd, Fstat_call fd]))"

text \<open>The destructor of the input file.\<close>

definition close_input :: "mapped_file \<Rightarrow> file_call list" where
  "close_input f =
     (case mf_data f of None \<Rightarrow> [] | Some address \<Rightarrow> [Munmap_call address (mf_size f)]) @
     (if mf_fd f \<ge> 0 then [Close_call (mf_fd f)] else [])"

definition open_output ::
    "file_kernel \<Rightarrow> string \<Rightarrow> u64 \<Rightarrow> (frft_error + mapped_file) \<times> file_call list" where
  "open_output k path sz =
     (if sz > off_t_max
      then (Inl (Runtime_error ''output file is too large for this system''), [])
      else
        let fd = fk_open k path
        in if fd < 0 then (Inl (system_error k ''cannot create output file''), [Open_call path fd])
        else if fk_ftruncate k fd sz \<noteq> 0
        then (Inl (system_error k ''cannot resize output file''),
              [Open_call path fd, Ftruncate_call fd sz, Close_call fd])
        else if sz \<noteq> 0
        then
          case fk_mmap k fd sz of
            None \<Rightarrow> (Inl (system_error k ''cannot mmap output file''),
              [Open_call path fd, Ftruncate_call fd sz, Mmap_call fd sz None, Close_call fd])
          | Some address \<Rightarrow> (Inr \<lparr>mf_fd = fd, mf_data = Some address, mf_size = sz\<rparr>,
              [Open_call path fd, Ftruncate_call fd sz, Mmap_call fd sz (Some address)])
        else (Inr \<lparr>mf_fd = fd, mf_data = None, mf_size = sz\<rparr>,
              [Open_call path fd, Ftruncate_call fd sz]))"

text \<open>The destructor of the output file.\<close>

definition close_output :: "mapped_file \<Rightarrow> file_call list" where
  "close_output f =
     (case mf_data f of None \<Rightarrow> [] | Some address \<Rightarrow> [Munmap_call address (mf_size f)]) @
     (if mf_fd f \<ge> 0 then [Close_call (mf_fd f)] else [])"

definition sync_output :: "file_kernel \<Rightarrow> mapped_file \<Rightarrow> (frft_error + unit) \<times> file_call list" where
  "sync_output k f =
     (case mf_data f of
        None \<Rightarrow> (Inr (), [])
      | Some address \<Rightarrow>
          (if fk_msync k address (mf_size f) \<noteq> 0
           then Inl (system_error k ''cannot flush output file'') else Inr (),
           [Msync_call address (mf_size f)]))"

section \<open>Resources\<close>

text \<open>The descriptors open and the mappings in place after a trace.\<close>

fun apply_call :: "file_call \<Rightarrow> int list \<times> (u64 \<times> u64) list \<Rightarrow> int list \<times> (u64 \<times> u64) list" where
  "apply_call (Open_call path fd) (fds, maps) = (if fd < 0 then (fds, maps) else (fd # fds, maps))"
| "apply_call (Mmap_call fd sz (Some address)) (fds, maps) = (fds, (address, sz) # maps)"
| "apply_call (Munmap_call address sz) (fds, maps) = (fds, remove1 (address, sz) maps)"
| "apply_call (Close_call fd) (fds, maps) = (remove1 fd fds, maps)"
| "apply_call _ held = held"

definition held_after :: "file_call list \<Rightarrow> int list \<times> (u64 \<times> u64) list" where
  "held_after calls = fold apply_call calls ([], [])"

lemmas file_op_defs = open_input_def open_output_def close_input_def close_output_def held_after_def Let_def

section \<open>Properties\<close>

text \<open>C28: No file operation leaks.  A constructor of either class that throws leaves no descriptor
  open and no mapping in place; one that succeeds holds exactly the descriptor and, for a non-empty
  file, the mapping recorded in the object, and the destructor releases both.\<close>

theorem mapped_files_release_everything:
  assumes "open_input k path = (r, calls) \<and> destroy = close_input \<or>
    open_output k path sz = (r, calls) \<and> destroy = close_output"
  shows "case r of
      Inl e \<Rightarrow> held_after calls = ([], [])
    | Inr f \<Rightarrow>
        held_after calls =
          ([mf_fd f], case mf_data f of None \<Rightarrow> [] | Some address \<Rightarrow> [(address, mf_size f)]) \<and>
        (mf_data f = None \<longleftrightarrow> mf_size f = 0) \<and>
        held_after (calls @ destroy f) = ([], [])"
  using assms
proof
  assume "open_input k path = (r, calls) \<and> destroy = close_input"
  then show ?thesis
    by (auto simp: file_op_defs split: if_splits prod.splits option.splits)
next
  assume "open_output k path sz = (r, calls) \<and> destroy = close_output"
  then show ?thesis
    by (auto simp: file_op_defs split: if_splits option.splits)
qed

theorem mapped_files_release_everything_witness:
  "held_after (snd (open_output
     \<lparr>fk_open = \<lambda>_. 3, fk_fstat = \<lambda>_. (0, 0), fk_ftruncate = \<lambda>_ _. 0, fk_mmap = \<lambda>_ _. None,
      fk_msync = \<lambda>_ _. 0, fk_strerror = []\<rparr> ''out'' 10)) = ([], [])"
  using mapped_files_release_everything
    [of "\<lparr>fk_open = \<lambda>_. 3, fk_fstat = \<lambda>_. (0, 0), fk_ftruncate = \<lambda>_ _. 0, fk_mmap = \<lambda>_ _. None,
      fk_msync = \<lambda>_ _. 0, fk_strerror = []\<rparr>" "''out''"
      "Inl (Runtime_error ''cannot mmap output file: '')"
      "[Open_call ''out'' 3, Ftruncate_call 3 10, Mmap_call 3 10 None, Close_call 3]" close_output 10]
  by (simp add: open_output_def off_t_max_def system_error_def Let_def)

text \<open>The output file is created for exactly the announced size, or the constructor throws: it
  succeeds if and only if the size fits the file system's offset type and creating, resizing and,
  for a non-empty file, mapping succeed, and then the object has the announced size.\<close>

lemma open_output_succeeds_iff:
  "(\<exists>f calls. open_output k path sz = (Inr f, calls) \<and> mf_size f = sz) =
     (unat sz < 2 ^ 63 \<and> 0 \<le> fk_open k path \<and> fk_ftruncate k (fk_open k path) sz = 0 \<and>
      (sz = 0 \<or> (\<exists>address. fk_mmap k (fk_open k path) sz = Some address)))"
proof -
  have "sz > off_t_max \<longleftrightarrow> \<not> unat sz < 2 ^ 63"
    by (auto simp: word_less_nat_alt off_t_max_def)
  then show ?thesis
    by (auto simp: open_output_def Let_def split: if_splits option.splits)
qed

end
