(* ===== verification/Printed_Output.thy ===== *)
theory Printed_Output
  imports Frft_Prelude Complex_Main
begin

text \<open>
  What the programs print: an entry per line of output, on \<^verbatim>\<open>std::cout\<close> or \<^verbatim>\<open>std::cerr\<close>, as the list of
  the operands of \<^verbatim>\<open><<\<close> without the final newline.  An integer operand is its value.  A \<^verbatim>\<open>double\<close> operand
  is the exact rational value of the expression the code computes, before rounding and formatting.
  The conversions \<^verbatim>\<open>seconds\<close>, \<^verbatim>\<open>milliseconds\<close> and \<^verbatim>\<open>sample_average\<close> of \<^verbatim>\<open>src/client.cpp\<close> and the usage
  lines of both programs are here.
\<close>

section \<open>Lines\<close>

datatype out_stream = Cout | Cerr

datatype shown = Text string | Whole int | Floating rat

type_synonym printed_line = "out_stream \<times> shown list"

text \<open>The usual line: a label and one value.\<close>

definition whole_line :: "string \<Rightarrow> int \<Rightarrow> shown list" where
  "whole_line label n = [Text label, Whole n]"

definition floating_line :: "string \<Rightarrow> rat \<Rightarrow> shown list" where
  "floating_line label x = [Text label, Floating x]"

section \<open>Values computed for printing\<close>

definition seconds :: "time_ns \<Rightarrow> rat" where
  "seconds d = of_int d / 1000000000"

definition milliseconds :: "time_ns \<Rightarrow> rat" where
  "milliseconds d = of_int d / 1000000"

definition sample_average :: "u64 \<Rightarrow> u64 \<Rightarrow> rat" where
  "sample_average summed count = (if count = 0 then 0 else of_nat (unat summed) / of_nat (unat count))"

text \<open>\<^verbatim>\<open>x > 0.0 ? bytes * 8.0 / x / 1'000'000.0 : 0.0\<close>, which both programs write out.\<close>

definition throughput_mbps :: "u64 \<Rightarrow> rat \<Rightarrow> rat" where
  "throughput_mbps size_bytes elapsed_seconds =
     (if elapsed_seconds > 0 then of_nat (unat size_bytes) * 8 / elapsed_seconds / 1000000 else 0)"

section \<open>Errors and usage\<close>

text \<open>\<^verbatim>\<open>error.what()\<close>\<close>

fun error_text :: "frft_error \<Rightarrow> string" where
  "error_text (Invalid_argument s) = s"
| "error_text (Runtime_error s) = s"
| "error_text (Logic_error s) = s"
| "error_text (Out_of_range s) = s"

text \<open>\<^verbatim>\<open>argv[0]\<close>; an empty \<^verbatim>\<open>argv\<close> has the null pointer there, which prints nothing.\<close>

definition program_name :: "string list \<Rightarrow> string" where
  "program_name argv = (case argv of [] \<Rightarrow> [] | p # _ \<Rightarrow> p)"

definition server_usage :: "string \<Rightarrow> shown list list" where
  "server_usage program =
     [[Text ''Usage: '', Text program, Text '' --port <port> --output <path> [--mtu <bytes>]'']]"

definition client_usage :: "string \<Rightarrow> shown list list" where
  "client_usage program =
     [[Text ''Usage: '', Text program,
       Text '' --host <server-ip> --port <port> --file <path> [--mtu <bytes>] [--rate <Mbps>]'']]"

section \<open>The conversions agree\<close>

lemma milliseconds_seconds: "milliseconds d = 1000 * seconds d"
  by (simp add: milliseconds_def seconds_def)

lemma seconds_add: "seconds (a + b) = seconds a + seconds b"
  by (simp add: seconds_def add_divide_distrib)

lemma seconds_mono: "a \<le> b \<Longrightarrow> seconds a \<le> seconds b"
  by (simp add: seconds_def divide_right_mono)

text \<open>An average is the quotient of what was summed, and at most the largest summand if every
  summand is.\<close>

lemma sample_average_bound:
  assumes "unat summed \<le> unat count * m"
  shows "sample_average summed count \<le> of_nat m"
proof (cases "count = 0")
  case False
  then have "0 < unat count" by (simp add: unat_gt_0)
  then have "(of_nat (unat summed) :: rat) \<le> of_nat m * of_nat (unat count)"
    using assms by (simp add: mult.commute del: of_nat_unat flip: of_nat_mult)
  with \<open>0 < unat count\<close> False show ?thesis by (simp add: sample_average_def pos_divide_le_eq del: of_nat_unat)
qed (simp add: sample_average_def)

lemma throughput_nonneg: "0 \<le> throughput_mbps n x"
  by (simp add: throughput_mbps_def del: of_nat_unat)

text \<open>The throughput is the number that gives the size of the file back.\<close>

lemma throughput_exact:
  "0 < x \<Longrightarrow> throughput_mbps n x * 1000000 * x / 8 = of_nat (unat n)"
  by (simp add: throughput_mbps_def)

end
