(* ===== verification/Socket_Io.thy ===== *)
theory Socket_Io
  imports Packet_Format File_Io Printed_Output
begin

text \<open>
  The datagram and clock interface of the two programs, and the helpers \<^verbatim>\<open>server.cpp\<close> and
  \<^verbatim>\<open>client.cpp\<close> both define on top of it: \<^verbatim>\<open>same_endpoint\<close>, \<^verbatim>\<open>make_header\<close>, \<^verbatim>\<open>send_packet\<close>.

  The operating system and the network are a \<open>world\<close>: scripts of what the coming calls of
  \<^verbatim>\<open>recvfrom\<close>, \<^verbatim>\<open>poll\<close>, \<^verbatim>\<open>sendto\<close> and the clock return, and logs of what the program did.  A call
  that finds its script empty has nothing to return: it blocks, the outcome is \<open>Blocked\<close> and the
  program makes no further step.  Theorems quantify over all worlds, so over everything the system
  can do.  A program step is a function from the world to an outcome and the world after it.
\<close>

section \<open>The world\<close>

record endpoint =
  sin_family :: u16
  sin_port :: u16
  sin_addr :: u32

datatype recv_result = Datagram endpoint bytes | Recv_interrupted | Recv_would_block | Recv_failed
datatype send_result = Sent nat | Send_interrupted | Send_failed
datatype poll_result = Poll_ready | Poll_timeout | Poll_interrupted | Poll_failed

record world =
  wd_recvs :: "recv_result list"
  wd_polls :: "poll_result list"
  wd_sends :: "send_result list"
  wd_clock :: "time_ns list"
  wd_strerror :: string
  wd_sent :: "(endpoint \<times> bytes) list"
  wd_polled :: "int list"
  wd_files :: "file_call list"
  wd_flushed :: "bytes list"
  wd_closed :: "int list"
  wd_printed :: "printed_line list"

datatype 'a outcome = Returned 'a | Thrown frft_error | Blocked

type_synonym 'a io = "world \<Rightarrow> 'a outcome \<times> world"

section \<open>Sequencing\<close>

definition io_return :: "'a \<Rightarrow> 'a io" where
  "io_return a w = (Returned a, w)"

definition io_throw :: "frft_error \<Rightarrow> 'a io" where
  "io_throw e w = (Thrown e, w)"

definition io_bind :: "'a io \<Rightarrow> ('a \<Rightarrow> 'b io) \<Rightarrow> 'b io" where
  "io_bind m f w =
     (case m w of
        (Returned a, w') \<Rightarrow> f a w'
      | (Thrown e, w') \<Rightarrow> (Thrown e, w')
      | (Blocked, w') \<Rightarrow> (Blocked, w'))"

text \<open>A call that may throw and does not touch the world.\<close>

definition io_sum :: "frft_error + 'a \<Rightarrow> 'a io" where
  "io_sum r = (case r of Inl e \<Rightarrow> io_throw e | Inr a \<Rightarrow> io_return a)"

text \<open>\<^verbatim>\<open>try { m } catch (...) { handler; throw; }\<close>\<close>

definition io_on_throw :: "'a io \<Rightarrow> unit io \<Rightarrow> 'a io" where
  "io_on_throw m handler w =
     (case m w of
        (Thrown e, w') \<Rightarrow> io_bind handler (\<lambda>_. io_throw e) w'
      | r \<Rightarrow> r)"

section \<open>System calls\<close>

definition clock_now :: "time_ns io" where
  "clock_now w =
     (case wd_clock w of
        [] \<Rightarrow> (Blocked, w)
      | t # ts \<Rightarrow> (Returned t, w\<lparr>wd_clock := ts\<rparr>))"

text \<open>\<^verbatim>\<open>recvfrom\<close> with a buffer of \<open>n\<close> bytes: a longer datagram is cut.\<close>

definition recvfrom :: "nat \<Rightarrow> recv_result io" where
  "recvfrom n w =
     (case wd_recvs w of
        [] \<Rightarrow> (Blocked, w)
      | r # rs \<Rightarrow>
          (Returned (case r of Datagram src bs \<Rightarrow> Datagram src (take n bs) | _ \<Rightarrow> r),
           w\<lparr>wd_recvs := rs\<rparr>))"

definition poll_socket :: "int \<Rightarrow> poll_result io" where
  "poll_socket timeout w =
     (case wd_polls w of
        [] \<Rightarrow> (Blocked, w)
      | r # rs \<Rightarrow> (Returned r, w\<lparr>wd_polls := rs, wd_polled := wd_polled w @ [timeout]\<rparr>))"

text \<open>A datagram is logged when the call does not fail.\<close>

definition sendto :: "endpoint \<Rightarrow> bytes \<Rightarrow> send_result io" where
  "sendto dest datagram w =
     (case wd_sends w of
        [] \<Rightarrow> (Blocked, w)
      | r # rs \<Rightarrow>
          (Returned r,
           case r of
             Sent n \<Rightarrow> w\<lparr>wd_sends := rs, wd_sent := wd_sent w @ [(dest, take n datagram)]\<rparr>
           | _ \<Rightarrow> w\<lparr>wd_sends := rs\<rparr>))"

definition close_socket :: "int \<Rightarrow> unit io" where
  "close_socket fd w = (Returned (), w\<lparr>wd_closed := wd_closed w @ [fd]\<rparr>)"

definition log_files :: "file_call list \<Rightarrow> unit io" where
  "log_files calls w = (Returned (), w\<lparr>wd_files := wd_files w @ calls\<rparr>)"

text \<open>The contents of a file at the moment a flush of it has succeeded.\<close>

definition log_flushed :: "bytes \<Rightarrow> unit io" where
  "log_flushed contents w = (Returned (), w\<lparr>wd_flushed := wd_flushed w @ [contents]\<rparr>)"

definition print_lines :: "out_stream \<Rightarrow> shown list list \<Rightarrow> unit io" where
  "print_lines stream ls w = (Returned (), w\<lparr>wd_printed := wd_printed w @ map (Pair stream) ls\<rparr>)"

definition throw_errno :: "string \<Rightarrow> 'a io" where
  "throw_errno what w = (Thrown (Runtime_error (what @ wd_strerror w)), w)"

lemmas io_defs = io_return_def io_throw_def io_bind_def io_sum_def io_on_throw_def

lemmas syscall_defs = clock_now_def recvfrom_def poll_socket_def sendto_def close_socket_def
  log_files_def log_flushed_def print_lines_def throw_errno_def

section \<open>Helpers of both programs\<close>

text \<open>The size of the receive buffer of both programs.\<close>

definition kReceiveBufferBytes :: nat where
  "kReceiveBufferBytes = 65535"

definition same_endpoint :: "endpoint \<Rightarrow> endpoint \<Rightarrow> bool" where
  "same_endpoint left right \<longleftrightarrow>
     sin_family left = sin_family right \<and> sin_port left = sin_port right \<and>
     sin_addr left = sin_addr right"

lemma same_endpoint_eq: "same_endpoint a b \<longleftrightarrow> a = b"
  by (cases a; cases b) (simp add: same_endpoint_def)

definition make_header :: "packet_type \<Rightarrow> u32 \<Rightarrow> u32 \<Rightarrow> packet_header" where
  "make_header type sid num =
     default_header\<lparr>ptype := type, session_id := sid, number := num\<rparr>"

text \<open>The \<^verbatim>\<open>do ... while\<close> around \<^verbatim>\<open>sendto\<close> and the check of its result.\<close>

function send_loop :: "string \<Rightarrow> endpoint \<Rightarrow> bytes \<Rightarrow> unit io" where
  "send_loop what dest datagram w =
     (case sendto dest datagram w of
        (Returned Send_interrupted, w') \<Rightarrow> send_loop what dest datagram w'
      | (Returned Send_failed, w') \<Rightarrow> throw_errno what w'
      | (Returned (Sent n), w') \<Rightarrow>
          if n \<noteq> length datagram then throw_errno what w' else (Returned (), w')
      | (Thrown e, w') \<Rightarrow> (Thrown e, w')
      | (Blocked, w') \<Rightarrow> (Blocked, w'))"
  by pat_completeness auto
termination
  by (relation "measure (\<lambda>(what, dest, datagram, w). length (wd_sends w))")
    (auto simp: sendto_def split: list.splits send_result.splits)

declare send_loop.simps [simp del]

definition send_packet ::
    "endpoint \<Rightarrow> packet_header \<Rightarrow> bytes_ptr \<Rightarrow> nat \<Rightarrow> unit io" where
  "send_packet dest header payload payload_size =
     io_bind (io_sum (serialize_packet header payload payload_size))
       (send_loop ''sendto failed: '' dest)"

section \<open>What a step may change\<close>

text \<open>
  A relation between the world before and after a step that every step of a program keeps, because
  its system calls do and because it is reflexive and transitive.
\<close>

locale world_frame =
  fixes ok :: "world \<Rightarrow> world \<Rightarrow> bool"
  assumes ok_refl: "ok w w"
    and ok_trans: "ok u v \<Longrightarrow> ok v w \<Longrightarrow> ok u w"
begin

definition keeps :: "'a io \<Rightarrow> bool" where
  "keeps m \<longleftrightarrow> (\<forall>w. ok w (snd (m w)))"

lemma keepsI: "(\<And>w. ok w (snd (m w))) \<Longrightarrow> keeps m"
  by (simp add: keeps_def)

lemma keepsD: "keeps m \<Longrightarrow> m w = (r, w') \<Longrightarrow> ok w w'"
  by (metis keeps_def snd_conv)

lemma keeps_return: "keeps (io_return a)"
  by (simp add: keeps_def io_return_def ok_refl)

lemma keeps_throw: "keeps (io_throw e)"
  by (simp add: keeps_def io_throw_def ok_refl)

lemma keeps_throw_errno: "keeps (throw_errno what)"
  by (simp add: keeps_def throw_errno_def ok_refl)

lemma keeps_sum: "keeps (io_sum r)"
  by (cases r) (simp_all add: io_sum_def keeps_return keeps_throw)

lemma keeps_bind: "keeps m \<Longrightarrow> (\<And>a. keeps (f a)) \<Longrightarrow> keeps (io_bind m f)"
  unfolding keeps_def io_bind_def
  by (auto split: prod.splits outcome.splits) (metis ok_trans snd_conv)+

text \<open>The same when the continuation keeps the relation only for the values the step returns.\<close>

lemma keeps_bind_value:
  assumes m: "keeps m" and f: "\<And>w a w'. m w = (Returned a, w') \<Longrightarrow> keeps (f a)"
  shows "keeps (io_bind m f)"
proof (rule keepsI)
  fix w
  obtain r v where mw: "m w = (r, v)" by fastforce
  note V = keepsD [OF m mw]
  show "ok w (snd (io_bind m f w))"
  proof (cases r)
    case (Returned a)
    with f [of w a v] mw have "ok v (snd (f a v))" by (simp add: keeps_def)
    with V mw Returned show ?thesis by (auto simp: io_bind_def intro: ok_trans)
  qed (use V mw in \<open>simp_all add: io_bind_def\<close>)
qed

lemma keeps_on_throw:
  fixes m :: "'a io"
  assumes "keeps m" and "keeps h"
  shows "keeps (io_on_throw m h)"
proof (rule keepsI)
  fix w
  obtain r w' where m: "m w = (r, w')" by fastforce
  then have *: "ok w w'" by (rule keepsD [OF assms(1)])
  have "ok w' (snd (io_bind h (\<lambda>_. io_throw e :: 'a io) w'))" for e
    using keeps_bind [OF assms(2), of "\<lambda>_. io_throw e :: 'a io"] keeps_throw unfolding keeps_def by blast
  then show "ok w (snd (io_on_throw m h w))"
    using * m by (cases r) (auto simp: io_on_throw_def intro: ok_trans)
qed

lemma keeps_if: "keeps m \<Longrightarrow> keeps m' \<Longrightarrow> keeps (if b then m else m')"
  by simp

lemma keeps_option: "keeps m \<Longrightarrow> (\<And>a. keeps (f a)) \<Longrightarrow> keeps (case x of None \<Rightarrow> m | Some a \<Rightarrow> f a)"
  by (cases x) simp_all

lemma keeps_recv:
  "(\<And>src bs. keeps (f src bs)) \<Longrightarrow> keeps a \<Longrightarrow> keeps b \<Longrightarrow> keeps c \<Longrightarrow>
     keeps (case r of Datagram src bs \<Rightarrow> f src bs | Recv_interrupted \<Rightarrow> a
       | Recv_would_block \<Rightarrow> b | Recv_failed \<Rightarrow> c)"
  by (cases r) simp_all

lemma keeps_poll:
  "keeps a \<Longrightarrow> keeps b \<Longrightarrow> keeps c \<Longrightarrow> keeps d \<Longrightarrow>
     keeps (case r of Poll_ready \<Rightarrow> a | Poll_timeout \<Rightarrow> b | Poll_interrupted \<Rightarrow> c
       | Poll_failed \<Rightarrow> d)"
  by (cases r) simp_all

lemma keeps_send_loop:
  assumes "keeps (sendto dest datagram)"
  shows "keeps (send_loop what dest datagram)"
proof (rule keepsI)
  fix w
  show "ok w (snd (send_loop what dest datagram w))"
    using assms
  proof (induction what dest datagram w rule: send_loop.induct)
    case (1 what dest datagram w)
    obtain r w' where s: "sendto dest datagram w = (r, w')" by fastforce
    then have "ok w w'" using 1(2) keepsD by blast
    with 1 s show ?case
      by (subst send_loop.simps)
        (auto simp: throw_errno_def split: outcome.splits send_result.splits intro: ok_trans)
  qed
qed

lemma keeps_send_packet:
  assumes "\<And>d. serialize_packet header payload n = Inr d \<Longrightarrow> keeps (sendto dest d)"
  shows "keeps (send_packet dest header payload n)"
proof (cases "serialize_packet header payload n")
  case (Inl e)
  then show ?thesis by (simp add: send_packet_def io_sum_def io_throw_def io_bind_def keeps_def ok_refl)
next
  case (Inr d)
  then have "keeps (send_loop ''sendto failed: '' dest d)" by (intro keeps_send_loop assms)
  then show ?thesis using Inr by (simp add: send_packet_def io_sum_def io_return_def io_bind_def keeps_def)
qed

lemmas keeps_intros = keeps_return keeps_throw keeps_throw_errno keeps_sum keeps_bind keeps_on_throw
  keeps_if keeps_option keeps_recv keeps_poll keeps_send_packet

end

text \<open>Sending, reading the clock, printing and logging do not consume what is to be received.\<close>

interpretation recvs: world_frame "\<lambda>w w'. wd_recvs w' = wd_recvs w"
  by unfold_locales simp_all

lemma recvs_keeps:
  "recvs.keeps clock_now" "recvs.keeps (sendto dest d)" "recvs.keeps (close_socket fd)"
  "recvs.keeps (log_files calls)" "recvs.keeps (log_flushed d)" "recvs.keeps (poll_socket t)"
  "recvs.keeps (print_lines stream ls)"
  by (auto intro!: recvs.keepsI simp: syscall_defs split: list.splits send_result.splits)

text \<open>Clock readings are only ever used up.\<close>

interpretation clock_le: world_frame "\<lambda>w w'. length (wd_clock w') \<le> length (wd_clock w)"
  by unfold_locales simp_all

lemma clock_keeps:
  "clock_le.keeps clock_now" "clock_le.keeps (sendto dest d)" "clock_le.keeps (recvfrom n)"
  "clock_le.keeps (poll_socket t)"
  by (auto intro!: clock_le.keepsI simp: syscall_defs split: list.splits send_result.splits)

lemma clock_now_consumes: "clock_now w = (Returned t, w') \<Longrightarrow> length (wd_clock w') < length (wd_clock w)"
  by (auto simp: clock_now_def split: list.splits)

text \<open>The resources of the program, its open files and its socket, are touched only on purpose.\<close>

interpretation resources: world_frame
    "\<lambda>w w'. wd_files w' = wd_files w \<and> wd_closed w' = wd_closed w"
  by unfold_locales simp_all

lemma resources_keeps:
  "resources.keeps clock_now" "resources.keeps (sendto dest d)" "resources.keeps (recvfrom n)"
  "resources.keeps (poll_socket t)" "resources.keeps (print_lines stream ls)"
  by (auto intro!: resources.keepsI simp: syscall_defs split: list.splits send_result.splits)

text \<open>Only \<open>sendto\<close> sends.\<close>

interpretation sent: world_frame "\<lambda>w w'. wd_sent w' = wd_sent w"
  by unfold_locales simp_all

lemma sent_keeps: "sent.keeps clock_now" "sent.keeps (poll_socket t)" "sent.keeps (recvfrom n)"
  "sent.keeps (log_files calls)" "sent.keeps (close_socket fd)" "sent.keeps (print_lines stream ls)"
  by (auto intro!: sent.keepsI simp: syscall_defs split: list.splits)

text \<open>Only \<open>print_lines\<close> prints.\<close>

interpretation printed: world_frame "\<lambda>w w'. wd_printed w' = wd_printed w"
  by unfold_locales simp_all

lemma printed_keeps:
  "printed.keeps clock_now" "printed.keeps (sendto dest d)" "printed.keeps (recvfrom n)"
  "printed.keeps (poll_socket t)" "printed.keeps (close_socket fd)" "printed.keeps (log_files calls)"
  "printed.keeps (log_flushed d)"
  by (auto intro!: printed.keepsI simp: syscall_defs split: list.splits send_result.splits)

text \<open>Cleaning up on every exit, normal or by exception.\<close>

definition io_finally :: "'a io \<Rightarrow> unit io \<Rightarrow> 'a io" where
  "io_finally m cleanup w =
     (case m w of
        (Returned a, w') \<Rightarrow> io_bind cleanup (\<lambda>_. io_return a) w'
      | (Thrown e, w') \<Rightarrow> io_bind cleanup (\<lambda>_. io_throw e) w'
      | (Blocked, w') \<Rightarrow> (Blocked, w'))"

end
