(* ===== verification/Chunking.thy ===== *)
theory Chunking
  imports Frft_Prelude
begin

text \<open>
  How a file is cut into chunks: \<^verbatim>\<open>chunk_size_for_mtu\<close> and \<^verbatim>\<open>chunk_count\<close> of
  \<^verbatim>\<open>src/protocol.cpp\<close>, the offset and length of a chunk as both endpoints compute them, and the
  client's default window.  The properties: the functions throw exactly where the code says, the
  chunks of a file partition it, and which MTUs keep the default window inside the SACK coverage.
\<close>

section \<open>Operations\<close>

definition chunk_size_for_mtu :: "u32 \<Rightarrow> frft_error + u32" where
  "chunk_size_for_mtu mtu =
     (let overhead = kIpv4UdpOverhead + kHeaderSize
      in if unat mtu \<le> overhead \<or> unat mtu > 65535
         then Inl (Invalid_argument ''MTU must be between 53 and 65535 bytes'')
         else Inr (mtu - of_nat overhead))"

definition chunk_count :: "u64 \<Rightarrow> u32 \<Rightarrow> frft_error + u32" where
  "chunk_count file_size chunk_size =
     (if chunk_size = 0 then Inl (Invalid_argument ''chunk size must be non-zero'')
      else
        let count = file_size div ucast chunk_size +
                    (if file_size mod ucast chunk_size \<noteq> 0 then 1 else 0)
        in if count > 4294967295
           then Inl (Invalid_argument ''file needs more than 32-bit chunk IDs'')
           else Inr (ucast count))"

text \<open>\<^verbatim>\<open>static_cast<uint64_t>(sequence) * chunk_size\<close>\<close>

definition chunk_offset :: "u32 \<Rightarrow> u32 \<Rightarrow> u64" where
  "chunk_offset sequence chunk_size = ucast sequence * ucast chunk_size"

text \<open>\<^verbatim>\<open>std::min<uint64_t>(chunk_size, file_size - offset)\<close>\<close>

definition chunk_length :: "u64 \<Rightarrow> u32 \<Rightarrow> u32 \<Rightarrow> nat" where
  "chunk_length file_size chunk_size sequence =
     unat (min (ucast chunk_size) (file_size - chunk_offset sequence chunk_size))"

text \<open>The client's \<^verbatim>\<open>window_chunks\<close>: the default window, in chunks, rounded up.\<close>

definition default_window_chunks :: "u32 \<Rightarrow> u32" where
  "default_window_chunks chunk_size =
     ucast ((kDefaultWindowBytes + ucast chunk_size - 1) div ucast chunk_size)"

section \<open>Arithmetic without wrap-around\<close>

lemma unat_ucast_u32_u64 [simp]: "unat (ucast (w :: u32) :: u64) = unat w"
  using unat_u32_less [of w] by (simp add: unsigned_ucast_eq take_bit_nat_eq_self)

lemma unat_chunk_offset: "unat (chunk_offset s c) = unat s * unat c"
proof -
  have "unat s * unat c < 2 ^ 64"
    using mult_strict_mono [OF unat_u32_less [of s] unat_u32_less [of c]] by simp
  then show ?thesis
    by (simp add: chunk_offset_def unat_mult_lem [THEN iffD1])
qed

lemma unat_min: "unat (min a b) = min (unat a) (unat b)"
  by (simp add: min_def word_le_nat_alt)

lemma chunk_length_nat:
  assumes "unat s * unat c \<le> unat fs"
  shows "chunk_length fs c s = min (unat c) (unat fs - unat s * unat c)"
  using assms
  by (simp add: chunk_length_def unat_min unat_chunk_offset unat_sub word_le_nat_alt)

lemma chunk_size_for_mtu_Inr:
  "chunk_size_for_mtu m = Inr c \<longleftrightarrow> 53 \<le> unat m \<and> unat m \<le> 65535 \<and> unat c = unat m - 52"
proof -
  have "unat (m - 52) = unat m - 52" if "52 < unat m"
    using that by (subst unat_sub) (simp_all add: word_le_nat_alt)
  then show ?thesis
    by (auto simp: chunk_size_for_mtu_def kIpv4UdpOverhead_def kHeaderSize_def Let_def
        word_unat_eq_iff)
qed

text \<open>The number of chunks as a natural number.\<close>

definition nat_chunk_count :: "nat \<Rightarrow> nat \<Rightarrow> nat" where
  "nat_chunk_count fs c = fs div c + (if fs mod c \<noteq> 0 then 1 else 0)"

lemma nat_chunk_count_le: "0 < c \<Longrightarrow> nat_chunk_count fs c \<le> fs"
proof -
  assume "0 < c"
  have "fs div c + 1 \<le> fs" if "fs mod c \<noteq> 0"
  proof (cases "c = 1")
    case False
    with \<open>0 < c\<close> that have "0 < fs" "1 < c" by (auto intro: gr0I)
    then have "fs div c < fs" by (intro div_less_dividend) auto
    then show ?thesis by simp
  qed (use that in simp)
  then show ?thesis by (simp add: nat_chunk_count_def)
qed

lemma nat_chunk_count_bound: "0 < c \<Longrightarrow> fs \<le> nat_chunk_count fs c * c"
proof -
  assume "0 < c"
  then have "fs mod c < c" by simp
  moreover have *: "fs div c * c + fs mod c = fs" by (rule div_mult_mod_eq)
  ultimately have "fs \<le> fs div c * c + c" by linarith
  with * show "fs \<le> nat_chunk_count fs c * c"
    by (cases "fs mod c = 0") (simp_all add: nat_chunk_count_def)
qed

lemma nat_chunk_count_tight: "0 < c \<Longrightarrow> i < nat_chunk_count fs c \<Longrightarrow> i * c < fs"
proof -
  assume "0 < c" "i < nat_chunk_count fs c"
  show "i * c < fs"
  proof (cases "i < fs div c")
    case True
    then have "Suc i * c \<le> fs div c * c" by (intro mult_le_mono1) simp
    also have "\<dots> \<le> fs" by (rule div_times_less_eq_dividend)
    finally show ?thesis using \<open>0 < c\<close> by simp
  next
    case False
    with \<open>i < nat_chunk_count fs c\<close> have i: "i = fs div c" and "0 < fs mod c"
      by (auto simp: nat_chunk_count_def split: if_splits)
    moreover have "fs div c * c + fs mod c = fs" by (rule div_mult_mod_eq)
    ultimately show ?thesis unfolding i by linarith
  qed
qed

lemma unat_chunk_count_word:
  assumes "c \<noteq> 0"
  shows "unat ((fs :: u64) div ucast (c :: u32) + (if fs mod ucast c \<noteq> 0 then 1 else 0)) =
    nat_chunk_count (unat fs) (unat c)"
proof -
  have c: "0 < unat c" using assms by (simp add: unat_gt_0)
  have eq: "fs mod ucast c = 0 \<longleftrightarrow> unat fs mod unat c = 0"
    by (simp add: word_unat_eq_iff unat_mod)
  have "nat_chunk_count (unat fs) (unat c) < 2 ^ 64"
    using nat_chunk_count_le [OF c, of "unat fs"] unat_u64_less [of fs] by simp
  then show ?thesis
    by (auto simp: eq nat_chunk_count_def unat_div unat_add_lem [THEN iffD1])
qed

lemma chunk_count_Inr:
  "chunk_count fs c = Inr n \<longleftrightarrow>
     c \<noteq> 0 \<and> nat_chunk_count (unat fs) (unat c) \<le> 4294967295 \<and>
     unat n = nat_chunk_count (unat fs) (unat c)"
proof (cases "c = 0")
  case False
  let ?k = "fs div ucast c + (if fs mod ucast c \<noteq> 0 then 1 else 0)"
  have *: "unat (ucast ?k :: u32) = unat ?k" if "unat ?k \<le> 4294967295"
    using that by (simp add: unsigned_ucast_eq take_bit_nat_eq_self)
  show ?thesis
    using False * unat_chunk_count_word [OF False, of fs]
    by (auto simp: chunk_count_def Let_def word_less_nat_alt word_unat_eq_iff not_less)
qed (simp add: chunk_count_def)

section \<open>The chunks of a file\<close>

text \<open>The bytes of chunk \<open>sequence\<close>: the range the client sends and the server stores.\<close>

definition chunk_bytes :: "bytes \<Rightarrow> u32 \<Rightarrow> u32 \<Rightarrow> bytes" where
  "chunk_bytes file chunk_size sequence =
     take (chunk_length (of_nat (length file)) chunk_size sequence)
       (drop (unat (chunk_offset sequence chunk_size)) file)"

lemma chunk_in_file:
  assumes "chunk_count fs c = Inr n" and "s < n"
  shows "unat s * unat c < unat fs"
    and "chunk_length fs c s = min (unat c) (unat fs - unat s * unat c)"
    and "0 < chunk_length fs c s"
    and "unat s * unat c + chunk_length fs c s \<le> unat fs"
proof -
  from assms have c: "0 < unat c" and "unat s < nat_chunk_count (unat fs) (unat c)"
    by (auto simp: chunk_count_Inr word_less_nat_alt unat_gt_0)
  then show *: "unat s * unat c < unat fs"
    by (rule nat_chunk_count_tight)
  then show len: "chunk_length fs c s = min (unat c) (unat fs - unat s * unat c)"
    by (intro chunk_length_nat) simp
  with * c show "0 < chunk_length fs c s" by simp
  show "unat s * unat c + chunk_length fs c s \<le> unat fs"
    using len * by simp
qed

lemma concat_slices: "concat (map (\<lambda>i. take c (drop (i * c) xs)) [0..<k]) = take (k * c) xs"
  by (induction k) (simp_all add: take_add add.commute [of c])

lemma chunk_bytes_eq_slice:
  assumes "chunk_count (of_nat (length file)) c = Inr n" and "s < n"
    and "length file < 18446744073709551616"
  shows "chunk_bytes file c s = take (unat c) (drop (unat s * unat c) file)"
  using chunk_in_file(2) [OF assms(1,2)] assms(3)
  by (simp add: chunk_bytes_def unat_chunk_offset min_def)

lemma length_chunk_bytes:
  assumes "chunk_count (of_nat (length file)) c = Inr n" and "s < n"
    and "length file < 18446744073709551616"
  shows "length (chunk_bytes file c s) = chunk_length (of_nat (length file)) c s"
  using chunk_in_file(4) [OF assms(1,2)] assms(3)
  by (simp add: chunk_bytes_def unat_chunk_offset)

section \<open>Properties\<close>

text \<open>\<^verbatim>\<open>chunk_size_for_mtu\<close> returns the MTU less the 52 bytes of IPv4, UDP and FRFT headers for
  every MTU from 53 to 65535, and throws for every other value.\<close>

lemma chunk_size_for_mtu_spec:
  "chunk_size_for_mtu m =
     (if 53 \<le> unat m \<and> unat m \<le> 65535 then Inr (of_nat (unat m - 52))
      else Inl (Invalid_argument ''MTU must be between 53 and 65535 bytes''))"
proof (cases "53 \<le> unat m \<and> unat m \<le> 65535")
  case True
  then have "\<not> (unat m \<le> 52 \<or> 65535 < unat m)" by linarith
  then obtain c where c: "chunk_size_for_mtu m = Inr c"
    by (simp add: chunk_size_for_mtu_def kIpv4UdpOverhead_def kHeaderSize_def)
  then have "unat m - 52 = unat c" by (simp only: chunk_size_for_mtu_Inr)
  then have "of_nat (unat m - 52) = c" by (simp only: of_nat_unat ucast_id)
  then show ?thesis by (simp only: if_P [OF True] c)
next
  case False
  then have "unat m \<le> 52 \<or> 65535 < unat m" by linarith
  then show ?thesis
    by (simp only: if_not_P [OF False])
      (simp add: chunk_size_for_mtu_def kIpv4UdpOverhead_def kHeaderSize_def)
qed

text \<open>C23: Where \<^verbatim>\<open>chunk_count\<close> succeeds, the chunks 0, 1, ... cut with \<^verbatim>\<open>min(chunk_size, file_size -
  offset)\<close> are non-empty, no longer than the chunk size, and joined in order they are the file:
  no byte is lost, sent twice or read past the end.\<close>

theorem chunks_partition_file:
  assumes "chunk_count (of_nat (length file)) c = Inr n" and "length file < 2 ^ 64"
  shows "concat (map (\<lambda>i. chunk_bytes file c (of_nat i)) [0..<unat n]) = file \<and>
    (\<forall>i < unat n. chunk_bytes file c (of_nat i) \<noteq> [] \<and>
      length (chunk_bytes file c (of_nat i)) \<le> unat c)"
proof -
  have len: "length file < 18446744073709551616"
    using assms(2) by simp
  have slice: "chunk_bytes file c (of_nat i) = take (unat c) (drop (i * unat c) file)"
    and pos: "0 < length (chunk_bytes file c (of_nat i))" if "i < unat n" for i
  proof -
    have i: "(of_nat i :: u32) < n" "unat (of_nat i :: u32) = i"
      using that unat_u32_less [of n] by (simp_all add: word_less_nat_alt)
    show "chunk_bytes file c (of_nat i) = take (unat c) (drop (i * unat c) file)"
      using chunk_bytes_eq_slice [OF assms(1) i(1) len] i(2) by simp
    show "0 < length (chunk_bytes file c (of_nat i))"
      using length_chunk_bytes [OF assms(1) i(1) len] chunk_in_file(3) [OF assms(1) i(1)] by simp
  qed
  have "concat (map (\<lambda>i. chunk_bytes file c (of_nat i)) [0..<unat n]) = take (unat n * unat c) file"
    unfolding concat_slices [symmetric] by (intro arg_cong [where f = concat] map_cong) (simp_all add: slice)
  also have "\<dots> = file"
    using assms(1) len nat_chunk_count_bound [of "unat c" "length file"]
    by (simp add: chunk_count_Inr unat_gt_0)
  finally have "concat (map (\<lambda>i. chunk_bytes file c (of_nat i)) [0..<unat n]) = file" .
  moreover have "length (chunk_bytes file c (of_nat i)) \<le> unat c" if "i < unat n" for i
    by (simp add: slice [OF that])
  ultimately show ?thesis using pos by (simp only: length_greater_0_conv) blast
qed

theorem chunks_partition_file_witness:
  "concat (map (\<lambda>i. chunk_bytes [7, 8, 9, 10, 11] 2 (of_nat i)) [0..<3]) = [7, 8, 9, 10, 11]"
proof -
  have n: "chunk_count (of_nat (length [7, 8, 9, 10, 11 :: u8])) 2 = Inr 3"
    by (simp add: chunk_count_def)
  show ?thesis
    using chunks_partition_file [OF n] by simp
qed

text \<open>The default window of 8 MiB fits the 8192 chunks one SACK bitmap covers exactly for MTUs of
  at least 1076 bytes; for the MTUs 53 to 1075, which the option parser accepts, the client's
  window check throws.\<close>

lemma unat_default_window:
  assumes "0 < unat c" and "unat c \<le> 65483"
  shows "unat (default_window_chunks c) = (8388607 + unat c) div unat c"
proof -
  define k where "k = unat c"
  have k: "0 < k" "k \<le> 65483" using assms by (simp_all add: k_def)
  have "unat (kDefaultWindowBytes + ucast c - 1) = 8388607 + k"
    using k by (simp add: kDefaultWindowBytes_def unat_word_ariths unat_sub_if' k_def)
  then have d: "unat ((kDefaultWindowBytes + ucast c - 1) div ucast c) = (8388607 + k) div k"
    by (simp add: unat_div k_def)
  have "(8388607 + k) div k < 8388609"
    using k by (simp add: div_less_iff_less_mult)
  then show ?thesis
    using d by (simp add: default_window_chunks_def unsigned_ucast_eq take_bit_nat_eq_self k_def)
qed

lemma default_window_wide:
  assumes "chunk_size_for_mtu m = Inr c"
  shows "128 < unat (default_window_chunks c)"
proof -
  have c: "0 < unat c" "unat c \<le> 65483" using assms by (auto simp: chunk_size_for_mtu_Inr)
  then have "129 * unat c \<le> 8388607 + unat c" by linarith
  then have "129 \<le> (8388607 + unat c) div unat c" using c(1) by (simp add: less_eq_div_iff_mult_less_eq)
  then show ?thesis using unat_default_window [OF c] by simp
qed

lemma default_window_fits_iff:
  assumes "chunk_size_for_mtu m = Inr c"
  shows "default_window_chunks c \<le> ucast kDefaultAckBitmapBits \<longleftrightarrow> 1076 \<le> unat m"
proof -
  define k where "k = unat c"
  have k: "k = unat m - 52" "53 \<le> unat m" "0 < k" "k \<le> 65483"
    using assms by (auto simp: chunk_size_for_mtu_Inr k_def)
  then have "unat (default_window_chunks c) = (8388607 + k) div k"
    using unat_default_window [of c] by (simp add: k_def)
  moreover have "(8388607 + k) div k < 8193 \<longleftrightarrow> 1024 \<le> k"
    using k(3) by (simp add: div_less_iff_less_mult) linarith
  moreover have "1024 \<le> k \<longleftrightarrow> 1076 \<le> unat m" using k(1,2) by linarith
  moreover have "unat (ucast kDefaultAckBitmapBits :: u32) = 8192"
    by (simp add: kDefaultAckBitmapBits_def)
  ultimately show ?thesis by (simp add: word_le_nat_alt) linarith
qed

end
