(* ===== verification/Options.thy ===== *)
theory Options
  imports Chunking Complex_Main
begin

text \<open>
  The command lines of both programs: \<^verbatim>\<open>next_value\<close> and \<^verbatim>\<open>parse_options\<close> of \<^verbatim>\<open>src/server.cpp\<close> and
  \<^verbatim>\<open>src/client.cpp\<close>.  \<^verbatim>\<open>std::stoul\<close> is modelled for base ten: it skips white space, takes a sign,
  ignores what follows the digits and negates modulo \<^verbatim>\<open>2^64\<close>.  \<^verbatim>\<open>std::stod\<close> is the parameter \<open>stod\<close>:
  the value of the text as a rational, or \<open>None\<close> where the value is infinite or not a number.
  \<^verbatim>\<open>std::exit(0)\<close> after \<^verbatim>\<open>--help\<close> is the result \<open>Exit_zero\<close>.
\<close>

section \<open>stoul\<close>

definition is_space :: "char \<Rightarrow> bool" where
  "is_space c \<longleftrightarrow> (let n = (of_char c :: nat) in n = 32 \<or> 9 \<le> n \<and> n \<le> 13)"

definition is_digit :: "char \<Rightarrow> bool" where
  "is_digit c \<longleftrightarrow> (let n = (of_char c :: nat) in 48 \<le> n \<and> n \<le> 57)"

definition decimal_value :: "string \<Rightarrow> nat" where
  "decimal_value digits = foldl (\<lambda>v c. 10 * v + (of_char c - 48)) 0 digits"

definition stoul :: "string \<Rightarrow> frft_error + u64" where
  "stoul s =
     (let s1 = dropWhile is_space s;
          negative = (s1 \<noteq> [] \<and> hd s1 = CHR ''-'');
          s2 = (if s1 \<noteq> [] \<and> (hd s1 = CHR ''-'' \<or> hd s1 = CHR ''+'') then tl s1 else s1);
          digits = takeWhile is_digit s2
      in if digits = [] then Inl (Invalid_argument ''stoul'')
         else if decimal_value digits > 18446744073709551615 then Inl (Out_of_range ''stoul'')
         else
           let v = of_nat (decimal_value digits)
           in Inr (if negative then - v else v))"

section \<open>The server's options\<close>

datatype 'a parsed = Parsed 'a | Exit_zero

record server_options =
  so_output :: string
  so_port :: u16
  so_mtu :: u32

definition default_server_options :: server_options where
  "default_server_options = \<lparr>so_output = [], so_port = 0, so_mtu = 1500\<rparr>"

text \<open>\<^verbatim>\<open>next_value\<close>: the argument after an option, with the arguments after that.\<close>

fun next_value :: "string \<Rightarrow> string list \<Rightarrow> frft_error + string \<times> string list" where
  "next_value option_name [] = Inl (Invalid_argument (''missing value after '' @ option_name))"
| "next_value option_name (v # rest) = Inr (v, rest)"

lemma next_value_shorter: "next_value a args = Inr (v, rest) \<Longrightarrow> length rest < length args"
  by (cases args) auto

definition parse_port :: "string \<Rightarrow> frft_error + u16" where
  "parse_port text =
     (case stoul text of
        Inl e \<Rightarrow> Inl e
      | Inr v \<Rightarrow>
          if v = 0 \<or> v > 65535 then Inl (Invalid_argument ''port must be between 1 and 65535'')
          else Inr (ucast v))"

text \<open>The \<^verbatim>\<open>for\<close> loop over the arguments.\<close>

function server_arguments ::
    "server_options \<Rightarrow> string list \<Rightarrow> frft_error + server_options parsed" where
  "server_arguments options [] = Inr (Parsed options)"
| "server_arguments options (argument # args) =
     (if argument = ''--port'' then
        (case next_value argument args of
           Inl e \<Rightarrow> Inl e
         | Inr (v, rest) \<Rightarrow>
             (case parse_port v of
                Inl e \<Rightarrow> Inl e
              | Inr port \<Rightarrow> server_arguments (options\<lparr>so_port := port\<rparr>) rest))
      else if argument = ''--output'' then
        (case next_value argument args of
           Inl e \<Rightarrow> Inl e
         | Inr (v, rest) \<Rightarrow> server_arguments (options\<lparr>so_output := v\<rparr>) rest)
      else if argument = ''--mtu'' then
        (case next_value argument args of
           Inl e \<Rightarrow> Inl e
         | Inr (v, rest) \<Rightarrow>
             (case stoul v of
                Inl e \<Rightarrow> Inl e
              | Inr mtu \<Rightarrow> server_arguments (options\<lparr>so_mtu := ucast mtu\<rparr>) rest))
      else if argument = ''--help'' then Inr Exit_zero
      else Inl (Invalid_argument (''unknown argument: '' @ argument)))"
  by pat_completeness auto
termination
  by (relation "measure (\<lambda>(options, args). length args)") (auto dest: next_value_shorter)

definition parse_server_options :: "string list \<Rightarrow> frft_error + server_options parsed" where
  "parse_server_options argv =
     (case server_arguments default_server_options (tl argv) of
        Inl e \<Rightarrow> Inl e
      | Inr Exit_zero \<Rightarrow> Inr Exit_zero
      | Inr (Parsed options) \<Rightarrow>
          if so_output options = [] \<or> so_port options = 0
          then Inl (Invalid_argument ''--port and --output are required'')
          else
            case chunk_size_for_mtu (so_mtu options) of
              Inl e \<Rightarrow> Inl e
            | Inr _ \<Rightarrow> Inr (Parsed options))"

section \<open>The client's options\<close>

record client_options =
  co_host :: string
  co_file :: string
  co_port :: u16
  co_mtu :: u32
  co_rate_mbps :: "rat option"

definition default_client_options :: client_options where
  "default_client_options =
     \<lparr>co_host = [], co_file = [], co_port = 0, co_mtu = 1500, co_rate_mbps = Some 95\<rparr>"

function client_arguments ::
    "(string \<Rightarrow> frft_error + rat option) \<Rightarrow> client_options \<Rightarrow> string list \<Rightarrow>
      frft_error + client_options parsed" where
  "client_arguments stod options [] = Inr (Parsed options)"
| "client_arguments stod options (argument # args) =
     (if argument = ''--host'' then
        (case next_value argument args of
           Inl e \<Rightarrow> Inl e
         | Inr (v, rest) \<Rightarrow> client_arguments stod (options\<lparr>co_host := v\<rparr>) rest)
      else if argument = ''--port'' then
        (case next_value argument args of
           Inl e \<Rightarrow> Inl e
         | Inr (v, rest) \<Rightarrow>
             (case parse_port v of
                Inl e \<Rightarrow> Inl e
              | Inr port \<Rightarrow> client_arguments stod (options\<lparr>co_port := port\<rparr>) rest))
      else if argument = ''--file'' then
        (case next_value argument args of
           Inl e \<Rightarrow> Inl e
         | Inr (v, rest) \<Rightarrow> client_arguments stod (options\<lparr>co_file := v\<rparr>) rest)
      else if argument = ''--mtu'' then
        (case next_value argument args of
           Inl e \<Rightarrow> Inl e
         | Inr (v, rest) \<Rightarrow>
             (case stoul v of
                Inl e \<Rightarrow> Inl e
              | Inr mtu \<Rightarrow> client_arguments stod (options\<lparr>co_mtu := ucast mtu\<rparr>) rest))
      else if argument = ''--rate'' then
        (case next_value argument args of
           Inl e \<Rightarrow> Inl e
         | Inr (v, rest) \<Rightarrow>
             (case stod v of
                Inl e \<Rightarrow> Inl e
              | Inr rate \<Rightarrow> client_arguments stod (options\<lparr>co_rate_mbps := rate\<rparr>) rest))
      else if argument = ''--help'' then Inr Exit_zero
      else Inl (Invalid_argument (''unknown argument: '' @ argument)))"
  by pat_completeness auto
termination
  by (relation "measure (\<lambda>(stod, options, args). length args)") (auto dest: next_value_shorter)

definition parse_client_options ::
    "(string \<Rightarrow> frft_error + rat option) \<Rightarrow> string list \<Rightarrow> frft_error + client_options parsed" where
  "parse_client_options stod argv =
     (case client_arguments stod default_client_options (tl argv) of
        Inl e \<Rightarrow> Inl e
      | Inr Exit_zero \<Rightarrow> Inr Exit_zero
      | Inr (Parsed options) \<Rightarrow>
          if co_host options = [] \<or> co_file options = [] \<or> co_port options = 0
          then Inl (Invalid_argument ''--host, --port, and --file are required'')
          else if (case co_rate_mbps options of None \<Rightarrow> True | Some rate \<Rightarrow> rate \<le> 0)
          then Inl (Invalid_argument ''rate must be greater than zero'')
          else
            case chunk_size_for_mtu (co_mtu options) of
              Inl e \<Rightarrow> Inl e
            | Inr _ \<Rightarrow> Inr (Parsed options))"

section \<open>Printed numbers\<close>

function decimal :: "nat \<Rightarrow> string" where
  "decimal n = (if n < 10 then [char_of (48 + n)] else decimal (n div 10) @ [char_of (48 + n mod 10)])"
  by pat_completeness auto
termination by (relation "measure id") auto

declare decimal.simps [simp del]

lemma digit_char: "(n :: nat) < 10 \<Longrightarrow> is_digit (char_of (48 + n)) \<and> of_char (char_of (48 + n) :: char) = 48 + n"
  by (simp add: is_digit_def Let_def)

lemma decimal_digits: "c \<in> set (decimal n) \<Longrightarrow> is_digit c"
proof (induction n rule: decimal.induct)
  case (1 n)
  have "n mod 10 < 10" by simp
  then show ?case
    using 1 digit_char [of n] digit_char [of "n mod 10"]
    by (simp add: decimal.simps [of n] split: if_splits) blast
qed

lemma decimal_nonempty: "decimal n \<noteq> []"
  by (subst decimal.simps) simp

lemma decimal_value_decimal: "decimal_value (decimal n) = n"
proof (induction n rule: decimal.induct)
  case (1 n)
  have "n mod 10 < 10" by simp
  then show ?case
    using 1 digit_char [of n] digit_char [of "n mod 10"]
    by (simp add: decimal.simps [of n] decimal_value_def)
qed

lemma digit_not_special: "is_digit c \<Longrightarrow> \<not> is_space c \<and> c \<noteq> CHR ''-'' \<and> c \<noteq> CHR ''+''"
  by (auto simp: is_digit_def is_space_def Let_def)

lemma stoul_decimal:
  assumes "n < 18446744073709551616"
  shows "stoul (decimal n) = Inr (of_nat n)"
proof -
  have hd: "is_digit (hd (decimal n))" using decimal_digits [OF hd_in_set [OF decimal_nonempty]] .
  then have dw: "dropWhile is_space (decimal n) = decimal n"
    using digit_not_special decimal_nonempty [of n] by (cases "decimal n") auto
  have tw: "takeWhile is_digit (decimal n) = decimal n"
    using decimal_digits by (simp add: takeWhile_eq_all_conv)
  show ?thesis
    using assms digit_not_special [OF hd] decimal_nonempty [of n]
    by (simp add: stoul_def decimal_value_decimal Let_def dw tw)
qed

lemma ucast_of_nat_u64: "ucast (of_nat n :: u64) = (of_nat n :: u32)" "ucast (of_nat n :: u64) = (of_nat n :: u16)"
  by (simp_all add: word_unat_eq_iff unsigned_of_nat unat_of_nat take_bit_eq_mod mod_mod_cancel)

lemma parse_port_decimal:
  assumes "p \<noteq> 0"
  shows "parse_port (decimal (unat p)) = Inr p"
proof -
  have p: "0 < unat p" "unat p \<le> 65535" using assms unat_u16_le [of p] by (simp_all add: unat_gt_0)
  then have "unat (of_nat (unat p) :: u64) = unat p" by (intro unat_of_nat_u64) simp
  then have "(of_nat (unat p) :: u64) \<noteq> 0" "\<not> (65535 :: u64) < of_nat (unat p)"
    using p unat_0 by (metis less_numeral_extra(3), simp only: word_less_nat_alt) simp
  moreover have "ucast (of_nat (unat p) :: u64) = p"
    by (simp only: ucast_of_nat_u64) (simp only: of_nat_unat ucast_id)
  moreover have "unat p < 18446744073709551616" using p by simp
  ultimately show ?thesis by (simp only: parse_port_def stoul_decimal sum.case) simp
qed

lemma mtu_decimal: "stoul (decimal (unat (m :: u32))) = Inr (of_nat (unat m))"
  "ucast (of_nat (unat m) :: u64) = m"
proof -
  show "stoul (decimal (unat m)) = Inr (of_nat (unat m))"
    using unat_u32_less [of m] by (intro stoul_decimal) linarith
  show "ucast (of_nat (unat m) :: u64) = m"
    by (simp only: ucast_of_nat_u64) (simp only: of_nat_unat ucast_id)
qed

definition render_server_options :: "server_options \<Rightarrow> string list" where
  "render_server_options opts =
     [''--port'', decimal (unat (so_port opts)), ''--output'', so_output opts,
      ''--mtu'', decimal (unat (so_mtu opts))]"

definition render_client_options :: "string \<Rightarrow> client_options \<Rightarrow> string list" where
  "render_client_options rate opts =
     [''--host'', co_host opts, ''--port'', decimal (unat (co_port opts)), ''--file'', co_file opts,
      ''--mtu'', decimal (unat (co_mtu opts)), ''--rate'', rate]"

section \<open>Properties\<close>

text \<open>C39: The command line gives back the options it was printed from.  For every set of options the
  programs accept (non-empty paths and host, a port, an MTU that leaves room for the headers, a
  positive rate), parsing the arguments that spell them out, numbers in decimal, returns exactly
  these options.\<close>

theorem options_roundtrip:
  assumes "so_output so \<noteq> []" and "so_port so \<noteq> 0" and "53 \<le> unat (so_mtu so)" and "unat (so_mtu so) \<le> 65535"
    and "co_host co \<noteq> []" and "co_file co \<noteq> []" and "co_port co \<noteq> 0"
    and "53 \<le> unat (co_mtu co)" and "unat (co_mtu co) \<le> 65535"
    and "co_rate_mbps co = Some rate" and "0 < rate" and "stod rate_text = Inr (Some rate)"
  shows "parse_server_options (prog # render_server_options so) = Inr (Parsed so) \<and>
    parse_client_options stod (prog # render_client_options rate_text co) = Inr (Parsed co)"
proof -
  obtain c c' where c: "chunk_size_for_mtu (so_mtu so) = Inr c" "chunk_size_for_mtu (co_mtu co) = Inr c'"
    using assms(3,4,8,9) by (auto simp: chunk_size_for_mtu_def kIpv4UdpOverhead_def kHeaderSize_def Let_def)
  have "server_arguments default_server_options (render_server_options so) = Inr (Parsed so)"
    by (simp add: render_server_options_def parse_port_decimal [OF assms(2)] mtu_decimal del: of_nat_unat)
  moreover have "client_arguments stod default_client_options (render_client_options rate_text co) = Inr (Parsed co)"
    using assms(10) by (simp add: render_client_options_def parse_port_decimal [OF assms(7)] mtu_decimal assms(12) del: of_nat_unat)
  ultimately show ?thesis
    using assms(1,2,5,6,7,10,11) c by (simp add: parse_server_options_def parse_client_options_def)
qed

theorem options_roundtrip_witness:
  "parse_server_options (''server'' # render_server_options
     \<lparr>so_output = ''out'', so_port = 9000, so_mtu = 1500\<rparr>) =
     Inr (Parsed \<lparr>so_output = ''out'', so_port = 9000, so_mtu = 1500\<rparr>)"
  by (rule conjunct1 [OF options_roundtrip [where
        co = "\<lparr>co_host = ''h'', co_file = ''f'', co_port = 9000, co_mtu = 1500, co_rate_mbps = Some 95\<rparr>" and
        rate = 95 and stod = "\<lambda>_. Inr (Some 95)"]]) simp_all

text \<open>C40: An MTU that does not fit 32 bits is not rejected but reduced modulo \<^verbatim>\<open>2^32\<close>: the argument
  of \<^verbatim>\<open>--mtu\<close> is cast to \<^verbatim>\<open>uint32_t\<close> before it is checked, so it is parsed as if it were its
  remainder.\<close>

theorem mtu_option_wraps:
  assumes "unat m + 4294967296 * k < 18446744073709551616"
  shows "parse_server_options [prog, ''--port'', port, ''--output'', path, ''--mtu'',
      decimal (unat (m :: u32) + 4294967296 * k)] =
    parse_server_options [prog, ''--port'', port, ''--output'', path, ''--mtu'', decimal (unat m)]"
proof -
  have "(4294967296 :: u32) = 0" by simp
  then have "(of_nat (unat m + 4294967296 * k) :: u32) = m"
    by (simp only: of_nat_add of_nat_mult of_nat_numeral) simp
  then have wrap: "ucast (of_nat (unat m + 4294967296 * k) :: u64) = m"
    by (simp only: ucast_of_nat_u64)
  then show ?thesis
    by (cases "parse_port port") (simp_all add: parse_server_options_def stoul_decimal [OF assms] mtu_decimal wrap
        del: of_nat_unat of_nat_add of_nat_mult)
qed

theorem mtu_option_wraps_witness:
  "parse_server_options [''server'', ''--port'', ''9000'', ''--output'', ''out'', ''--mtu'', ''4294968796''] =
   parse_server_options [''server'', ''--port'', ''9000'', ''--output'', ''out'', ''--mtu'', ''1500'']"
proof -
  have d: "decimal 4294968796 = ''4294968796''" "decimal 1500 = ''1500''"
    by (simp_all add: decimal.simps char_of_eq_iff)
  show ?thesis
    using mtu_option_wraps [of 1500 1 "''server''" "''9000''" "''out''"] by (simp add: d)
qed

end
