(* ===== verification/Control_Payloads.thy ===== *)
theory Control_Payloads
  imports Packet_Format
begin

text \<open>
  The payloads of START, START_ACK, ACK and COMPLETE_ACK: the structs of
  \<^verbatim>\<open>include/protocol.hpp\<close> and their \<^verbatim>\<open>serialize_*\<close> / \<^verbatim>\<open>deserialize_*\<close> functions of
  \<^verbatim>\<open>src/protocol.cpp\<close>.  The locale \<open>payload_codec\<close> is the contract the endpoints rely on, and
  \<open>canonical_codec\<close> adds that decoding accepts encodings only; each payload is an interpretation.
\<close>

section \<open>Payload types\<close>

text \<open>
  \<^verbatim>\<open>enum class StatusCode : std::uint16_t\<close>: a value read from the wire is cast to the enumeration
  without a check, so every 16-bit value is a value of the type, five of which have names.
\<close>

type_synonym status_code = u16

definition OK :: status_code where "OK = 0"
definition BUSY :: status_code where "BUSY = 1"
definition INVALID_REQUEST :: status_code where "INVALID_REQUEST = 2"
definition IO_ERROR :: status_code where "IO_ERROR = 3"
definition INCOMPLETE :: status_code where "INCOMPLETE = 4"

lemmas status_defs [frft_consts] = OK_def BUSY_def INVALID_REQUEST_def IO_ERROR_def INCOMPLETE_def

record start_payload =
  sp_file_size :: u64
  sp_chunk_size :: u32
  sp_total_chunks :: u32
  sp_window_chunks :: u32
  sp_ack_bitmap_bits :: u16
  sp_ack_interval_ms :: u16

record start_ack_payload =
  sa_status :: status_code
  sa_accepted_window_chunks :: u32
  sa_accepted_bitmap_bits :: u16
  sa_accepted_ack_interval_ms :: u16

record ack_payload =
  ak_cumulative_ack :: u32
  ak_largest_received_plus_one :: u32
  ak_bitmap_base :: u32
  ak_bitmap_bits :: u16
  ak_bitmap :: bytes

record complete_ack_payload =
  ca_status :: status_code
  ca_received_chunks :: u32
  ca_received_bytes :: u64
  ca_receiver_transfer_time_us :: u64

section \<open>Operations\<close>

definition serialize_start :: "start_payload \<Rightarrow> bytes" where
  "serialize_start p =
     (let out = replicate 24 0;
          out = write_u64 out 0 (sp_file_size p);
          out = write_u32 out 8 (sp_chunk_size p);
          out = write_u32 out 12 (sp_total_chunks p);
          out = write_u32 out 16 (sp_window_chunks p);
          out = write_u16 out 20 (sp_ack_bitmap_bits p)
      in write_u16 out 22 (sp_ack_interval_ms p))"

definition deserialize_start :: "bytes_ptr \<Rightarrow> nat \<Rightarrow> start_payload option" where
  "deserialize_start ptr sz =
     (case ptr of
        None \<Rightarrow> None
      | Some data \<Rightarrow>
          if sz \<noteq> 24 then None
          else Some \<lparr>sp_file_size = read_u64 data, sp_chunk_size = read_u32 (drop 8 data),
                     sp_total_chunks = read_u32 (drop 12 data),
                     sp_window_chunks = read_u32 (drop 16 data),
                     sp_ack_bitmap_bits = read_u16 (drop 20 data),
                     sp_ack_interval_ms = read_u16 (drop 22 data)\<rparr>)"

definition serialize_start_ack :: "start_ack_payload \<Rightarrow> bytes" where
  "serialize_start_ack p =
     (let out = replicate 12 0;
          out = write_u16 out 0 (sa_status p);
          out = write_u32 out 4 (sa_accepted_window_chunks p);
          out = write_u16 out 8 (sa_accepted_bitmap_bits p)
      in write_u16 out 10 (sa_accepted_ack_interval_ms p))"

definition deserialize_start_ack :: "bytes_ptr \<Rightarrow> nat \<Rightarrow> start_ack_payload option" where
  "deserialize_start_ack ptr sz =
     (case ptr of
        None \<Rightarrow> None
      | Some data \<Rightarrow>
          if sz \<noteq> 12 then None
          else Some \<lparr>sa_status = read_u16 data, sa_accepted_window_chunks = read_u32 (drop 4 data),
                     sa_accepted_bitmap_bits = read_u16 (drop 8 data),
                     sa_accepted_ack_interval_ms = read_u16 (drop 10 data)\<rparr>)"

text \<open>\<^verbatim>\<open>(bitmap_bits + 7) / 8\<close>, computed in \<^verbatim>\<open>int\<close> from a 16-bit value.\<close>

definition bitmap_bytes :: "u16 \<Rightarrow> nat" where
  "bitmap_bytes bits = (unat bits + 7) div 8"

definition serialize_ack :: "ack_payload \<Rightarrow> frft_error + bytes" where
  "serialize_ack p =
     (if length (ak_bitmap p) \<noteq> bitmap_bytes (ak_bitmap_bits p)
      then Inl (Invalid_argument ''ACK bitmap length does not match bitmap_bits'')
      else
        let out = replicate (16 + bitmap_bytes (ak_bitmap_bits p)) 0;
            out = write_u32 out 0 (ak_cumulative_ack p);
            out = write_u32 out 4 (ak_largest_received_plus_one p);
            out = write_u32 out 8 (ak_bitmap_base p);
            out = write_u16 out 12 (ak_bitmap_bits p)
        in Inr (take 16 out @ ak_bitmap p @ drop (16 + length (ak_bitmap p)) out))"

definition deserialize_ack :: "bytes_ptr \<Rightarrow> nat \<Rightarrow> ack_payload option" where
  "deserialize_ack ptr sz =
     (case ptr of
        None \<Rightarrow> None
      | Some data \<Rightarrow>
          if sz < 16 then None
          else
            let bitmap_bits = read_u16 (drop 12 data)
            in if sz \<noteq> 16 + bitmap_bytes bitmap_bits then None
               else Some \<lparr>ak_cumulative_ack = read_u32 data,
                          ak_largest_received_plus_one = read_u32 (drop 4 data),
                          ak_bitmap_base = read_u32 (drop 8 data),
                          ak_bitmap_bits = bitmap_bits,
                          ak_bitmap = take (sz - 16) (drop 16 data)\<rparr>)"

definition serialize_complete_ack :: "complete_ack_payload \<Rightarrow> bytes" where
  "serialize_complete_ack p =
     (let out = replicate 24 0;
          out = write_u16 out 0 (ca_status p);
          out = write_u32 out 4 (ca_received_chunks p);
          out = write_u64 out 8 (ca_received_bytes p)
      in write_u64 out 16 (ca_receiver_transfer_time_us p))"

definition deserialize_complete_ack :: "bytes_ptr \<Rightarrow> nat \<Rightarrow> complete_ack_payload option" where
  "deserialize_complete_ack ptr sz =
     (case ptr of
        None \<Rightarrow> None
      | Some data \<Rightarrow>
          if sz \<noteq> 24 then None
          else Some \<lparr>ca_status = read_u16 data, ca_received_chunks = read_u32 (drop 4 data),
                     ca_received_bytes = read_u64 (drop 8 data),
                     ca_receiver_transfer_time_us = read_u64 (drop 16 data)\<rparr>)"

section \<open>The contract of a payload codec\<close>

text \<open>
  \<open>ser\<close> may throw; where it returns, the bytes fit a datagram and decode to the same payload.
\<close>

locale payload_codec =
  fixes ser :: "'p \<Rightarrow> frft_error + bytes"
    and de :: "bytes_ptr \<Rightarrow> nat \<Rightarrow> 'p option"
  assumes ser_fits: "ser p = Inr bs \<Longrightarrow> length bs \<le> 65535"
    and de_ser: "ser p = Inr bs \<Longrightarrow> de (Some bs) (length bs) = Some p"
    and de_null: "de None n = None"
begin

lemma ser_inject: "ser p = Inr bs \<Longrightarrow> ser q = Inr bs \<Longrightarrow> p = q"
  by (metis de_ser option.inject)

text \<open>A payload sent in a datagram arrives as it was: the two decoders undo the two encoders.\<close>

lemma message_roundtrip:
  assumes "sendable_header h" and "ser p = Inr bs"
  shows "\<exists>d v. serialize_packet h (Some bs) (length bs) = Inr d \<and>
    deserialize_packet_view (Some d) (length d) = Inr v \<and>
    view_header v = sent_header h (length bs) \<and>
    de (view_payload v) (view_payload_size v) = Some p"
  using assms
  by (simp add: serialize_packet_layout deserialize_header_bytes ser_fits de_ser)

end

locale canonical_codec = payload_codec +
  assumes ser_de: "de (Some bs) (length bs) = Some p \<Longrightarrow> ser p = Inr bs"
begin

lemma de_iff_ser: "de (Some bs) (length bs) = Some p \<longleftrightarrow> ser p = Inr bs"
  by (blast intro: de_ser ser_de)

lemma de_inject:
  "de (Some a) (length a) = Some p \<Longrightarrow> de (Some b) (length b) = Some p \<Longrightarrow> a = b"
  by (simp add: de_iff_ser)

end

section \<open>The four codecs\<close>

lemma serialize_start_layout:
  "serialize_start p =
     be_bytes 8 (sp_file_size p) @ be_bytes 4 (sp_chunk_size p) @ be_bytes 4 (sp_total_chunks p) @
     be_bytes 4 (sp_window_chunks p) @ be_bytes 2 (sp_ack_bitmap_bits p) @
     be_bytes 2 (sp_ack_interval_ms p)"
  by (simp add: serialize_start_def Let_def wire_simps)

lemma serialize_start_ack_layout:
  "serialize_start_ack p =
     be_bytes 2 (sa_status p) @ [0, 0] @ be_bytes 4 (sa_accepted_window_chunks p) @
     be_bytes 2 (sa_accepted_bitmap_bits p) @ be_bytes 2 (sa_accepted_ack_interval_ms p)"
  by (simp add: serialize_start_ack_def Let_def wire_simps numeral_2_eq_2)

lemma serialize_ack_layout:
  "length (ak_bitmap p) = bitmap_bytes (ak_bitmap_bits p) \<Longrightarrow>
   serialize_ack p =
     Inr (be_bytes 4 (ak_cumulative_ack p) @ be_bytes 4 (ak_largest_received_plus_one p) @
       be_bytes 4 (ak_bitmap_base p) @ be_bytes 2 (ak_bitmap_bits p) @ [0, 0] @ ak_bitmap p)"
  by (simp add: serialize_ack_def Let_def wire_simps numeral_2_eq_2)

lemma serialize_complete_ack_layout:
  "serialize_complete_ack p =
     be_bytes 2 (ca_status p) @ [0, 0] @ be_bytes 4 (ca_received_chunks p) @
     be_bytes 8 (ca_received_bytes p) @ be_bytes 8 (ca_receiver_transfer_time_us p)"
  by (simp add: serialize_complete_ack_def Let_def wire_simps numeral_2_eq_2)

lemma deserialize_start_iff:
  "deserialize_start (Some bs) n = Some p \<longleftrightarrow> n = 24 \<and>
     p = \<lparr>sp_file_size = read_u64 bs, sp_chunk_size = read_u32 (drop 8 bs),
          sp_total_chunks = read_u32 (drop 12 bs), sp_window_chunks = read_u32 (drop 16 bs),
          sp_ack_bitmap_bits = read_u16 (drop 20 bs), sp_ack_interval_ms = read_u16 (drop 22 bs)\<rparr>"
  by (auto simp: deserialize_start_def)

lemma take_fields_start:
  assumes "length d = 24"
  shows "d = take 8 d @ take 4 (drop 8 d) @ take 4 (drop 12 d) @ take 4 (drop 16 d) @
     take 2 (drop 20 d) @ take 2 (drop 22 d)"
  using take_add [of 8 16 d] take_add [of 4 12 "drop 8 d"] take_add [of 4 8 "drop 12 d"]
    take_add [of 4 4 "drop 16 d"] take_add [of 2 2 "drop 20 d"] assms
  by simp

interpretation start_codec: canonical_codec "\<lambda>p. Inr (serialize_start p)" deserialize_start
proof
  fix p q :: start_payload and bs and n
  show "Inr (serialize_start p) = Inr bs \<Longrightarrow> length bs \<le> 65535"
    by (auto simp: serialize_start_layout)
  show "Inr (serialize_start p) = Inr bs \<Longrightarrow> deserialize_start (Some bs) (length bs) = Some p"
    by (auto simp: serialize_start_layout deserialize_start_iff wire_simps)
  show "deserialize_start None n = None"
    by (simp add: deserialize_start_def)
  show "deserialize_start (Some bs) (length bs) = Some p \<Longrightarrow> Inr (serialize_start p) = Inr bs"
    using take_fields_start [of bs]
    by (simp add: deserialize_start_iff serialize_start_layout field_reencodes)
qed

interpretation start_ack_codec:
  payload_codec "\<lambda>p. Inr (serialize_start_ack p)" deserialize_start_ack
proof
  fix p :: start_ack_payload and bs and n
  show "Inr (serialize_start_ack p) = Inr bs \<Longrightarrow> length bs \<le> 65535"
    by (auto simp: serialize_start_ack_layout)
  show "Inr (serialize_start_ack p) = Inr bs \<Longrightarrow>
      deserialize_start_ack (Some bs) (length bs) = Some p"
    by (auto simp: serialize_start_ack_layout deserialize_start_ack_def wire_simps)
  show "deserialize_start_ack None n = None"
    by (simp add: deserialize_start_ack_def)
qed

interpretation complete_ack_codec:
  payload_codec "\<lambda>p. Inr (serialize_complete_ack p)" deserialize_complete_ack
proof
  fix p :: complete_ack_payload and bs and n
  show "Inr (serialize_complete_ack p) = Inr bs \<Longrightarrow> length bs \<le> 65535"
    by (auto simp: serialize_complete_ack_layout)
  show "Inr (serialize_complete_ack p) = Inr bs \<Longrightarrow>
      deserialize_complete_ack (Some bs) (length bs) = Some p"
    by (auto simp: serialize_complete_ack_layout deserialize_complete_ack_def wire_simps)
  show "deserialize_complete_ack None n = None"
    by (simp add: deserialize_complete_ack_def)
qed

lemma bitmap_bytes_le: "bitmap_bytes b \<le> 8192"
  using unat_u16_le [of b] by (simp add: bitmap_bytes_def)

lemma serialize_ack_Inr:
  assumes "serialize_ack p = Inr bs"
  shows "length (ak_bitmap p) = bitmap_bytes (ak_bitmap_bits p)"
    and "bs = be_bytes 4 (ak_cumulative_ack p) @ be_bytes 4 (ak_largest_received_plus_one p) @
       be_bytes 4 (ak_bitmap_base p) @ be_bytes 2 (ak_bitmap_bits p) @ [0, 0] @ ak_bitmap p"
proof -
  show *: "length (ak_bitmap p) = bitmap_bytes (ak_bitmap_bits p)"
    using assms by (auto simp: serialize_ack_def split: if_splits)
  show "bs = be_bytes 4 (ak_cumulative_ack p) @ be_bytes 4 (ak_largest_received_plus_one p) @
       be_bytes 4 (ak_bitmap_base p) @ be_bytes 2 (ak_bitmap_bits p) @ [0, 0] @ ak_bitmap p"
    using assms serialize_ack_layout [OF *] by simp
qed

interpretation ack_codec: payload_codec serialize_ack deserialize_ack
proof
  fix p :: ack_payload and bs and n
  show "length bs \<le> 65535" if ser: "serialize_ack p = Inr bs"
    using serialize_ack_Inr [OF ser] bitmap_bytes_le [of "ak_bitmap_bits p"] by simp
  show "deserialize_ack (Some bs) (length bs) = Some p" if ser: "serialize_ack p = Inr bs"
    using serialize_ack_Inr [OF ser]
    by (simp add: deserialize_ack_def wire_simps Let_def)
  show "deserialize_ack None n = None"
    by (simp add: deserialize_ack_def)
qed

section \<open>Properties\<close>

text \<open>C22: Every START and COMPLETE_ACK payload survives the trip through a datagram unchanged,
  and so does every START_ACK and every ACK that \<^verbatim>\<open>serialize_ack\<close> accepts: both decoders undo
  both encoders.\<close>

theorem control_payload_roundtrip:
  assumes "sendable_header h" and "serialize_ack a = Inr ab"
  shows "(\<exists>d v. serialize_packet h (Some (serialize_start p)) 24 = Inr d \<and>
      deserialize_packet_view (Some d) (length d) = Inr v \<and>
      deserialize_start (view_payload v) (view_payload_size v) = Some p) \<and>
    (\<exists>d v. serialize_packet h (Some (serialize_start_ack q)) 12 = Inr d \<and>
      deserialize_packet_view (Some d) (length d) = Inr v \<and>
      deserialize_start_ack (view_payload v) (view_payload_size v) = Some q) \<and>
    (\<exists>d v. serialize_packet h (Some (serialize_complete_ack r)) 24 = Inr d \<and>
      deserialize_packet_view (Some d) (length d) = Inr v \<and>
      deserialize_complete_ack (view_payload v) (view_payload_size v) = Some r) \<and>
    (\<exists>d v. serialize_packet h (Some ab) (length ab) = Inr d \<and>
      deserialize_packet_view (Some d) (length d) = Inr v \<and>
      deserialize_ack (view_payload v) (view_payload_size v) = Some a)"
  using start_codec.message_roundtrip [OF assms(1), of p "serialize_start p"]
    start_ack_codec.message_roundtrip [OF assms(1), of q "serialize_start_ack q"]
    complete_ack_codec.message_roundtrip [OF assms(1), of r "serialize_complete_ack r"]
    ack_codec.message_roundtrip [OF assms]
  by (auto simp: serialize_start_layout serialize_start_ack_layout serialize_complete_ack_layout)

theorem control_payload_roundtrip_witness:
  "\<exists>ab d v. serialize_ack \<lparr>ak_cumulative_ack = 100, ak_largest_received_plus_one = 104,
        ak_bitmap_base = 100, ak_bitmap_bits = 16, ak_bitmap = [10, 0]\<rparr> = Inr ab \<and>
     serialize_packet default_header (Some ab) (length ab) = Inr d \<and>
     deserialize_packet_view (Some d) (length d) = Inr v \<and>
     deserialize_ack (view_payload v) (view_payload_size v) =
       Some \<lparr>ak_cumulative_ack = 100, ak_largest_received_plus_one = 104,
         ak_bitmap_base = 100, ak_bitmap_bits = 16, ak_bitmap = [10, 0]\<rparr>"
proof -
  let ?a = "\<lparr>ak_cumulative_ack = 100, ak_largest_received_plus_one = 104,
    ak_bitmap_base = 100, ak_bitmap_bits = 16, ak_bitmap = [10, 0]\<rparr>"
  have h: "sendable_header default_header"
    by (simp add: sendable_header_def default_header_def)
  obtain ab where ab: "serialize_ack ?a = Inr ab"
    by (simp add: serialize_ack_layout bitmap_bytes_def)
  have "\<exists>d v. serialize_packet default_header (Some ab) (length ab) = Inr d \<and>
      deserialize_packet_view (Some d) (length d) = Inr v \<and>
      deserialize_ack (view_payload v) (view_payload_size v) = Some ?a"
    by (rule control_payload_roundtrip [OF h ab, THEN conjunct2, THEN conjunct2, THEN conjunct2])
  with ab show ?thesis by (elim exE conjE, intro exI conjI)
qed

text \<open>\<^verbatim>\<open>deserialize_start\<close> accepts exactly the encodings: it returns a payload for a byte string
  if and only if \<^verbatim>\<open>serialize_start\<close> maps that payload to that byte string.\<close>

lemma start_decode_iff_encode:
  "deserialize_start (Some bs) (length bs) = Some p \<longleftrightarrow> serialize_start p = bs"
  using start_codec.de_iff_ser [of bs p] by simp

text \<open>\<^verbatim>\<open>serialize_ack\<close> throws exactly when the bitmap has the wrong number of bytes, and
  \<^verbatim>\<open>deserialize_ack\<close> accepts a byte string exactly when it has the 16 fixed bytes followed by the
  number of bitmap bytes its bit count asks for.\<close>

lemma ack_codec_domain:
  "(\<exists>bs. serialize_ack p = Inr bs) = (length (ak_bitmap p) = (unat (ak_bitmap_bits p) + 7) div 8) \<and>
   (deserialize_ack (Some d) (length d) \<noteq> None) =
     (16 \<le> length d \<and> length d = 16 + (unat (read_u16 (drop 12 d)) + 7) div 8)"
proof
  show "(\<exists>bs. serialize_ack p = Inr bs) =
      (length (ak_bitmap p) = (unat (ak_bitmap_bits p) + 7) div 8)"
    by (simp add: serialize_ack_def bitmap_bytes_def Let_def)
  have "(deserialize_ack (Some d) n \<noteq> None) =
      (16 \<le> n \<and> n = 16 + (unat (read_u16 (drop 12 d)) + 7) div 8)" for n
    by (simp add: deserialize_ack_def bitmap_bytes_def Let_def)
  then show "(deserialize_ack (Some d) (length d) \<noteq> None) =
      (16 \<le> length d \<and> length d = 16 + (unat (read_u16 (drop 12 d)) + 7) div 8)" .
qed

end
