(* ===== verification/Ack_Bitmap.thy ===== *)
theory Ack_Bitmap
  imports Frft_Prelude
begin

unbundle bit_operations_syntax

text \<open>
  The SACK bitmap of an ACK payload: bit \<open>b\<close> is bit \<open>b mod 8\<close> of byte \<open>b div 8\<close>.  The receiver sets
  bits (\<^verbatim>\<open>ReceiverTracker::make_ack_snapshot\<close>), the sender tests them
  (\<^verbatim>\<open>SenderWindow::process_ack\<close>); the locale \<open>bit_store\<close> is the contract between the two.
\<close>

section \<open>Setting and testing a bit\<close>

text \<open>\<^verbatim>\<open>ack.bitmap[bit / 8] |= static_cast<uint8_t>(1U << (bit % 8))\<close>\<close>

definition set_ack_bit :: "bytes \<Rightarrow> nat \<Rightarrow> bytes" where
  "set_ack_bit bitmap b =
     bitmap[b div 8 := bitmap ! (b div 8) OR ucast (push_bit (b mod 8) (1 :: u32))]"

text \<open>\<^verbatim>\<open>(ack.bitmap[bit / 8] & (1U << (bit % 8))) != 0\<close>\<close>

definition test_ack_bit :: "bytes \<Rightarrow> nat \<Rightarrow> bool" where
  "test_ack_bit bitmap b \<longleftrightarrow>
     (ucast (bitmap ! (b div 8)) :: u32) AND push_bit (b mod 8) 1 \<noteq> 0"

lemma test_ack_bit_iff: "test_ack_bit bm b \<longleftrightarrow> bit (bm ! (b div 8)) (b mod 8)"
proof -
  have "b mod 8 < 8" by simp
  then have "b mod 8 < 32" by linarith
  then show ?thesis
    by (simp add: test_ack_bit_def push_bit_of_1 and_exp_eq_0_iff_not_bit bit_simps)
qed

lemma length_set_ack_bit [simp]: "length (set_ack_bit bm b) = length bm"
  by (simp add: set_ack_bit_def)

lemma test_set_ack_bit:
  assumes "b < 8 * length bm"
  shows "test_ack_bit (set_ack_bit bm b) j \<longleftrightarrow> j = b \<or> test_ack_bit bm j"
proof -
  have b: "b div 8 < length bm" using assms by (simp add: less_mult_imp_div_less mult.commute)
  have eq: "j = b \<longleftrightarrow> j div 8 = b div 8 \<and> j mod 8 = b mod 8"
    by (metis div_mult_mod_eq)
  show ?thesis
    using b by (auto simp: test_ack_bit_iff set_ack_bit_def nth_list_update bit_simps eq)
qed

lemma test_zero_bitmap: "j < 8 * n \<Longrightarrow> \<not> test_ack_bit (replicate n 0) j"
  by (simp add: test_ack_bit_iff less_mult_imp_div_less mult.commute)

section \<open>The contract between the writer and the reader of a bitmap\<close>

locale bit_store =
  fixes put :: "'b \<Rightarrow> nat \<Rightarrow> 'b"
    and test :: "'b \<Rightarrow> nat \<Rightarrow> bool"
    and cap :: "'b \<Rightarrow> nat"
  assumes cap_put: "cap (put bm b) = cap bm"
    and test_put: "b < cap bm \<Longrightarrow> test (put bm b) j \<longleftrightarrow> j = b \<or> test bm j"
begin

text \<open>The loop that sets the bits of a range for which a condition holds.\<close>

lemma fill_range:
  assumes "k \<le> cap bm"
  shows "cap (fold (\<lambda>b bm. if P b then put bm b else bm) [0..<k] bm) = cap bm"
    and "test (fold (\<lambda>b bm. if P b then put bm b else bm) [0..<k] bm) j \<longleftrightarrow>
      j < k \<and> P j \<or> test bm j"
  using assms
  by (induction k arbitrary: j) (auto simp: cap_put test_put less_Suc_eq)

end

interpretation ack_bits: bit_store set_ack_bit test_ack_bit "\<lambda>bm. 8 * length bm"
  by unfold_locales (simp_all add: test_set_ack_bit)

end
