(* ===== verification/Sender_Window.thy ===== *)
theory Sender_Window
  imports Control_Payloads Ack_Bitmap
begin

text \<open>
  \<^verbatim>\<open>SenderWindow\<close> of \<^verbatim>\<open>src/reliability.cpp\<close>: the state of every chunk, the send window, ACK
  processing, fast retransmission and the retransmission timeout.  Field names carry the prefix
  \<open>sw_\<close> (the class) or \<open>cs_\<close> (its struct \<^verbatim>\<open>ChunkState\<close>).

  A \<^verbatim>\<open>for\<close> loop over 32-bit sequence numbers is a \<open>fold\<close> over the natural numbers it visits: its
  counter runs between two 32-bit values and never wraps.  The vector \<open>sw_chunks\<close> is read and
  written by index; \<^verbatim>\<open>Sender_Invariant\<close> shows that every index the code uses is in range.
\<close>

section \<open>State\<close>

datatype packet_state = UNSENT | IN_FLIGHT | ACKED

text \<open>A chunk only moves forward in this order.\<close>

fun packet_state_rank :: "packet_state \<Rightarrow> nat" where
  "packet_state_rank UNSENT = 0"
| "packet_state_rank IN_FLIGHT = 1"
| "packet_state_rank ACKED = 2"

instantiation packet_state :: linorder
begin

definition less_eq_packet_state :: "packet_state \<Rightarrow> packet_state \<Rightarrow> bool" where
  "s \<le> t \<longleftrightarrow> packet_state_rank s \<le> packet_state_rank t"

definition less_packet_state :: "packet_state \<Rightarrow> packet_state \<Rightarrow> bool" where
  "s < t \<longleftrightarrow> packet_state_rank s < packet_state_rank t"

instance
proof
  fix x y z :: packet_state
  show "(x < y) = (x \<le> y \<and> \<not> y \<le> x)"
    by (auto simp: less_eq_packet_state_def less_packet_state_def)
  show "x \<le> x" by (simp add: less_eq_packet_state_def)
  show "x \<le> y \<Longrightarrow> y \<le> z \<Longrightarrow> x \<le> z" by (simp add: less_eq_packet_state_def)
  show "x \<le> y \<Longrightarrow> y \<le> x \<Longrightarrow> x = y"
    by (cases x; cases y) (simp_all add: less_eq_packet_state_def)
  show "x \<le> y \<or> y \<le> x" by (auto simp: less_eq_packet_state_def)
qed

end

record send_decision =
  sequence :: u32
  retransmission :: bool
  fast_retransmission :: bool

record chunk_state =
  cs_state :: packet_state
  cs_last_sent_time :: time_ns
  cs_retransmit_pending :: bool
  cs_fast_retransmit_pending :: bool
  cs_fast_retransmitted :: bool
  cs_latest_later_acked :: u32
  cs_retransmit_evidence :: u32

definition fresh_chunk :: chunk_state where
  "fresh_chunk =
     \<lparr>cs_state = UNSENT, cs_last_sent_time = 0, cs_retransmit_pending = False,
      cs_fast_retransmit_pending = False, cs_fast_retransmitted = False,
      cs_latest_later_acked = 0, cs_retransmit_evidence = 0\<rparr>"

record sender_window =
  sw_total_chunks :: u32
  sw_logical_window_chunks :: u32
  sw_sack_coverage_chunks :: u32
  sw_base :: u32
  sw_next_sequence :: u32
  sw_outstanding_chunks :: u32
  sw_chunks :: "chunk_state list"
  sw_retransmission_queue :: "u32 list"
  sw_last_base_advance_time :: time_ns
  sw_base_advancement_events :: u64
  sw_total_base_stall_time :: time_ns
  sw_longest_base_stall_time :: time_ns

section \<open>Operations\<close>

definition kRepeatedFastRetransmitDelay :: time_ns where
  "kRepeatedFastRetransmitDelay = ms (kDefaultRtoMs div 2)"

text \<open>The constructor; \<open>now\<close> is the clock reading of its last member initialiser.\<close>

definition make_sender_window ::
    "u32 \<Rightarrow> u32 \<Rightarrow> u32 \<Rightarrow> time_ns \<Rightarrow> frft_error + sender_window" where
  "make_sender_window total_chunks logical_window_chunks sack_coverage_chunks now =
     (if logical_window_chunks = 0
      then Inl (Invalid_argument ''window must contain at least one chunk'')
      else if sack_coverage_chunks = 0
      then Inl (Invalid_argument ''SACK coverage must contain at least one chunk'')
      else if logical_window_chunks > sack_coverage_chunks
      then Inl (Invalid_argument ''logical window cannot exceed SACK coverage'')
      else Inr
        \<lparr>sw_total_chunks = total_chunks, sw_logical_window_chunks = logical_window_chunks,
         sw_sack_coverage_chunks = sack_coverage_chunks, sw_base = 0, sw_next_sequence = 0,
         sw_outstanding_chunks = 0, sw_chunks = replicate (unat total_chunks) fresh_chunk,
         sw_retransmission_queue = [], sw_last_base_advance_time = now,
         sw_base_advancement_events = 0, sw_total_base_stall_time = 0,
         sw_longest_base_stall_time = 0\<rparr>)"

definition chunk_at :: "sender_window \<Rightarrow> u32 \<Rightarrow> chunk_state" where
  "chunk_at w s = sw_chunks w ! unat s"

definition update_chunk ::
    "u32 \<Rightarrow> (chunk_state \<Rightarrow> chunk_state) \<Rightarrow> sender_window \<Rightarrow> sender_window" where
  "update_chunk s f w = w\<lparr>sw_chunks := (sw_chunks w)[unat s := f (sw_chunks w ! unat s)]\<rparr>"

text \<open>The last conjunct compares 64-bit sums of 32-bit values, which cannot wrap.\<close>

definition can_send_new :: "sender_window \<Rightarrow> bool" where
  "can_send_new w \<longleftrightarrow>
     sw_next_sequence w < sw_total_chunks w \<and>
     sw_outstanding_chunks w < sw_logical_window_chunks w \<and>
     unat (sw_next_sequence w) < unat (sw_base w) + unat (sw_sack_coverage_chunks w)"

text \<open>
  The loop at the start of \<^verbatim>\<open>select_next_packet\<close>: pop the queue until a chunk that is still in
  flight and still pending is found.
\<close>

fun pop_retransmission ::
    "u32 list \<Rightarrow> chunk_state list \<Rightarrow> send_decision option \<times> u32 list \<times> chunk_state list" where
  "pop_retransmission [] chunks = (None, [], chunks)"
| "pop_retransmission (s # queue) chunks =
     (let chunk = chunks ! unat s
      in if cs_state chunk = IN_FLIGHT \<and> cs_retransmit_pending chunk
         then
           (Some \<lparr>sequence = s, retransmission = True,
                  fast_retransmission = cs_fast_retransmit_pending chunk\<rparr>,
            queue,
            chunks[unat s := chunk
              \<lparr>cs_retransmit_pending := False, cs_fast_retransmit_pending := False,
               cs_fast_retransmitted := True,
               cs_retransmit_evidence := cs_latest_later_acked chunk\<rparr>])
         else pop_retransmission queue chunks)"

definition select_next_packet ::
    "sender_window \<Rightarrow> send_decision option \<times> sender_window" where
  "select_next_packet w =
     (let (decision, queue, chunks) =
            pop_retransmission (sw_retransmission_queue w) (sw_chunks w);
          w1 = w\<lparr>sw_retransmission_queue := queue, sw_chunks := chunks\<rparr>
      in case decision of
           Some d \<Rightarrow> (Some d, w1)
         | None \<Rightarrow>
             if can_send_new w1
             then (Some \<lparr>sequence = sw_next_sequence w1, retransmission = False,
                         fast_retransmission = False\<rparr>,
                   w1\<lparr>sw_next_sequence := sw_next_sequence w1 + 1,
                      sw_outstanding_chunks := sw_outstanding_chunks w1 + 1\<rparr>)
             else (None, w1))"

definition mark_sent :: "sender_window \<Rightarrow> u32 \<Rightarrow> time_ns \<Rightarrow> frft_error + sender_window" where
  "mark_sent w s send_time =
     (if s \<ge> sw_next_sequence w \<or> cs_state (chunk_at w s) = ACKED
      then Inl (Logic_error ''cannot mark an unselected or ACKed chunk as sent'')
      else Inr (update_chunk s (\<lambda>c. c\<lparr>cs_state := IN_FLIGHT, cs_last_sent_time := send_time\<rparr>) w))"

definition mark_acked :: "u32 \<Rightarrow> sender_window \<Rightarrow> sender_window" where
  "mark_acked s w =
     (if s \<ge> sw_next_sequence w \<or> s \<ge> sw_total_chunks w then w
      else if cs_state (chunk_at w s) = ACKED then w
      else (update_chunk s
              (\<lambda>c. c\<lparr>cs_state := ACKED, cs_retransmit_pending := False,
                     cs_fast_retransmit_pending := False\<rparr>) w)
             \<lparr>sw_outstanding_chunks := sw_outstanding_chunks w - 1\<rparr>)"

definition queue_retransmission :: "u32 \<Rightarrow> bool \<Rightarrow> sender_window \<Rightarrow> sender_window" where
  "queue_retransmission s fast_retransmit w =
     (let chunk = chunk_at w s
      in if cs_state chunk \<noteq> IN_FLIGHT \<or> cs_retransmit_pending chunk then w
         else (update_chunk s
                 (\<lambda>c. c\<lparr>cs_retransmit_pending := True,
                        cs_fast_retransmit_pending := fast_retransmit,
                        cs_fast_retransmitted := fast_retransmit \<or> cs_fast_retransmitted c\<rparr>) w)
                \<lparr>sw_retransmission_queue := sw_retransmission_queue w @ [s]\<rparr>)"

text \<open>\<^verbatim>\<open>while (base_ < total_chunks_ && chunks_[base_].state == ACKED) ++base_\<close>\<close>

function skip_acked :: "chunk_state list \<Rightarrow> u32 \<Rightarrow> u32 \<Rightarrow> u32" where
  "skip_acked chunks n b =
     (if b < n \<and> cs_state (chunks ! unat b) = ACKED
      then skip_acked chunks n (b + 1) else b)"
  by pat_completeness auto
termination
  by (relation "measure (\<lambda>(chunks, n, b). unat n - unat b)")
    (auto simp: unat_inc word_less_nat_alt)

declare skip_acked.simps [simp del]

definition advance_base :: "time_ns \<Rightarrow> sender_window \<Rightarrow> sender_window" where
  "advance_base now w =
     (let previous_base = sw_base w;
          base = skip_acked (sw_chunks w) (sw_total_chunks w) (sw_base w);
          w1 = w\<lparr>sw_base := base\<rparr>
      in if base \<noteq> previous_base
         then
           let stall_time = now - sw_last_base_advance_time w1
           in w1\<lparr>sw_total_base_stall_time := sw_total_base_stall_time w1 + stall_time,
                 sw_longest_base_stall_time := max (sw_longest_base_stall_time w1) stall_time,
                 sw_last_base_advance_time := now,
                 sw_base_advancement_events := sw_base_advancement_events w1 + 1\<rparr>
         else w1)"

text \<open>The first loop of \<^verbatim>\<open>process_ack\<close>: the chunks below the cumulative ACK.\<close>

definition ack_prefix :: "ack_payload \<Rightarrow> sender_window \<Rightarrow> sender_window" where
  "ack_prefix ack w =
     (let prefix_end = min (ak_cumulative_ack ack) (min (sw_total_chunks w) (sw_next_sequence w))
      in fold (\<lambda>s w. mark_acked (of_nat s) w) [unat (sw_base w)..<unat prefix_end] w)"

text \<open>The second loop: the chunks whose bitmap bit is set.\<close>

definition bits_to_scan :: "ack_payload \<Rightarrow> sender_window \<Rightarrow> nat" where
  "bits_to_scan ack w =
     (let available_bits = min (unat (ak_bitmap_bits ack)) (length (ak_bitmap ack) * 8);
          sequence_limit =
            min (unat (ak_largest_received_plus_one ack))
              (min (unat (sw_total_chunks w)) (unat (sw_next_sequence w)))
      in if unat (ak_bitmap_base ack) < sequence_limit
         then min available_bits (sequence_limit - unat (ak_bitmap_base ack)) else 0)"

definition ack_bitmap :: "ack_payload \<Rightarrow> sender_window \<Rightarrow> sender_window" where
  "ack_bitmap ack w =
     fold (\<lambda>b w.
         if \<not> test_ack_bit (ak_bitmap ack) b then w
         else
           let s = unat (ak_bitmap_base ack) + b
           in if s < unat (sw_total_chunks w) \<and> s < unat (sw_next_sequence w)
              then mark_acked (of_nat s) w else w)
       [0..<bits_to_scan ack w] w"

text \<open>
  The body of the last loop: \<open>later_acked\<close> counts the ACKed chunks with a larger number.
\<close>

definition evidence_step ::
    "time_ns \<Rightarrow> nat \<Rightarrow> sender_window \<times> u32 \<Rightarrow> sender_window \<times> u32" where
  "evidence_step now s = (\<lambda>(w, later_acked).
     let chunk = sw_chunks w ! s
     in case cs_state chunk of
          ACKED \<Rightarrow> (w, later_acked + 1)
        | IN_FLIGHT \<Rightarrow>
            let has_new_later_sack = later_acked > cs_latest_later_acked chunk;
                w1 = update_chunk (of_nat s) (\<lambda>c. c\<lparr>cs_latest_later_acked := later_acked\<rparr>) w;
                has_new_sack_evidence =
                  (later_acked \<ge> cs_retransmit_evidence chunk \<and>
                   later_acked - cs_retransmit_evidence chunk \<ge> kFastRetransmitThreshold);
                retry_delay_elapsed =
                  (\<not> cs_fast_retransmitted chunk \<or>
                   now - cs_last_sent_time chunk \<ge> kRepeatedFastRetransmitDelay)
            in (if has_new_later_sack \<and> has_new_sack_evidence \<and> retry_delay_elapsed
                then queue_retransmission (of_nat s) True w1 else w1, later_acked)
        | UNSENT \<Rightarrow> (w, later_acked))"

definition evidence_loop :: "time_ns \<Rightarrow> sender_window \<Rightarrow> sender_window" where
  "evidence_loop now w =
     fst (fold (evidence_step now) (rev [unat (sw_base w)..<unat (sw_next_sequence w)]) (w, 0))"

definition process_ack :: "sender_window \<Rightarrow> ack_payload \<Rightarrow> time_ns \<Rightarrow> sender_window" where
  "process_ack w ack now =
     evidence_loop now (advance_base now (ack_bitmap ack (ack_prefix ack w)))"

definition check_timeouts :: "sender_window \<Rightarrow> time_ns \<Rightarrow> time_ns \<Rightarrow> sender_window" where
  "check_timeouts w now rto =
     fold (\<lambda>s w.
         let chunk = sw_chunks w ! s
         in if cs_state chunk = IN_FLIGHT \<and> \<not> cs_retransmit_pending chunk \<and>
               now - cs_last_sent_time chunk \<ge> rto
            then queue_retransmission (of_nat s) False w else w)
       [unat (sw_base w)..<unat (sw_next_sequence w)] w"

definition all_acked :: "sender_window \<Rightarrow> bool" where
  "all_acked w \<longleftrightarrow> sw_base w = sw_total_chunks w"

definition window_state :: "sender_window \<Rightarrow> u32 \<Rightarrow> frft_error + packet_state" where
  "window_state w s =
     (if s \<ge> sw_total_chunks w
      then Inl (Out_of_range ''chunk sequence is outside the transfer'')
      else Inr (cs_state (chunk_at w s)))"

definition retransmit_pending :: "sender_window \<Rightarrow> u32 \<Rightarrow> bool" where
  "retransmit_pending w s =
     (if s \<ge> sw_total_chunks w then False else cs_retransmit_pending (chunk_at w s))"

end
