(* ===== verification/Sender_Invariant.thy ===== *)
theory Sender_Invariant
  imports Sender_Window
begin

text \<open>
  The invariant of \<^verbatim>\<open>SenderWindow\<close> and what each of its operations does to the set of
  acknowledged chunks, the retransmission queue and the window.
\<close>

section \<open>Abstract view and invariant\<close>

definition acked_set :: "sender_window \<Rightarrow> nat set" where
  "acked_set w = {i. i < unat (sw_total_chunks w) \<and> cs_state (sw_chunks w ! i) = ACKED}"

text \<open>Selected for sending and not yet acknowledged.\<close>

definition unacked_set :: "sender_window \<Rightarrow> nat set" where
  "unacked_set w = {i. i < unat (sw_next_sequence w) \<and> cs_state (sw_chunks w ! i) \<noteq> ACKED}"

text \<open>How many chunks numbered above \<open>i\<close> and below \<open>n\<close> are acknowledged.\<close>

definition acked_after :: "chunk_state list \<Rightarrow> nat \<Rightarrow> nat \<Rightarrow> nat" where
  "acked_after chunks n i = card {j. i < j \<and> j < n \<and> cs_state (chunks ! j) = ACKED}"

text \<open>Positions, window limits and the outstanding counter.\<close>

definition window_ok :: "sender_window \<Rightarrow> bool" where
  "window_ok w \<longleftrightarrow>
     length (sw_chunks w) = unat (sw_total_chunks w) \<and>
     unat (sw_base w) \<le> unat (sw_next_sequence w) \<and>
     unat (sw_next_sequence w) \<le> unat (sw_total_chunks w) \<and>
     (\<forall>i < unat (sw_base w). cs_state (sw_chunks w ! i) = ACKED) \<and>
     (\<forall>i. unat (sw_next_sequence w) \<le> i \<and> i < unat (sw_total_chunks w) \<longrightarrow>
        sw_chunks w ! i = fresh_chunk) \<and>
     unat (sw_outstanding_chunks w) = card (unacked_set w) \<and>
     unat (sw_outstanding_chunks w) \<le> unat (sw_logical_window_chunks w) \<and>
     unat (sw_next_sequence w) \<le> unat (sw_base w) + unat (sw_sack_coverage_chunks w) \<and>
     0 < unat (sw_logical_window_chunks w) \<and>
     unat (sw_logical_window_chunks w) \<le> unat (sw_sack_coverage_chunks w)"

text \<open>The queue holds every pending chunk once; what else is in it has been acknowledged since.\<close>

definition queue_ok :: "sender_window \<Rightarrow> bool" where
  "queue_ok w \<longleftrightarrow>
     distinct (sw_retransmission_queue w) \<and>
     (\<forall>s \<in> set (sw_retransmission_queue w). unat s < unat (sw_next_sequence w) \<and>
        (cs_state (chunk_at w s) = ACKED \<or>
         cs_state (chunk_at w s) = IN_FLIGHT \<and> cs_retransmit_pending (chunk_at w s))) \<and>
     (\<forall>i < unat (sw_next_sequence w). cs_retransmit_pending (sw_chunks w ! i) \<longrightarrow>
        cs_state (sw_chunks w ! i) = IN_FLIGHT \<and>
        of_nat i \<in> set (sw_retransmission_queue w))"

text \<open>The fast-retransmit counters never run ahead of the acknowledgements they count.\<close>

definition evidence_ok :: "sender_window \<Rightarrow> bool" where
  "evidence_ok w \<longleftrightarrow>
     (\<forall>i < unat (sw_next_sequence w).
        cs_retransmit_evidence (sw_chunks w ! i) \<le> cs_latest_later_acked (sw_chunks w ! i) \<and>
        unat (cs_latest_later_acked (sw_chunks w ! i)) \<le>
          acked_after (sw_chunks w) (unat (sw_next_sequence w)) i)"

definition sw_core :: "sender_window \<Rightarrow> bool" where
  "sw_core w \<longleftrightarrow> window_ok w \<and> queue_ok w \<and> evidence_ok w"

text \<open>Between operations the base is the first unacknowledged chunk.\<close>

definition sw_inv :: "sender_window \<Rightarrow> bool" where
  "sw_inv w \<longleftrightarrow> sw_core w \<and> unat (sw_base w) = first_gap (acked_set w)"

lemma window_okD:
  assumes "window_ok w"
  shows "length (sw_chunks w) = unat (sw_total_chunks w)"
    and "unat (sw_base w) \<le> unat (sw_next_sequence w)"
    and "unat (sw_next_sequence w) \<le> unat (sw_total_chunks w)"
    and "i < unat (sw_base w) \<Longrightarrow> cs_state (sw_chunks w ! i) = ACKED"
    and "unat (sw_next_sequence w) \<le> i \<Longrightarrow> i < unat (sw_total_chunks w) \<Longrightarrow>
      sw_chunks w ! i = fresh_chunk"
    and "unat (sw_outstanding_chunks w) = card (unacked_set w)"
    and "unat (sw_outstanding_chunks w) \<le> unat (sw_logical_window_chunks w)"
    and "unat (sw_next_sequence w) \<le> unat (sw_base w) + unat (sw_sack_coverage_chunks w)"
    and "0 < unat (sw_logical_window_chunks w)"
    and "unat (sw_logical_window_chunks w) \<le> unat (sw_sack_coverage_chunks w)"
  using assms by (auto simp: window_ok_def)

lemma finite_unacked [simp]: "finite (unacked_set w)"
  by (simp add: unacked_set_def)

lemma finite_acked [simp]: "finite (acked_set w)"
  by (simp add: acked_set_def)

lemma acked_set_bound:
  "window_ok w \<Longrightarrow> acked_set w \<subseteq> {..<unat (sw_next_sequence w)}"
  by (force simp: acked_set_def window_ok_def fresh_chunk_def not_less intro: ccontr)

lemma acked_after_mono:
  assumes "\<And>j. j < n \<Longrightarrow> cs_state (cs ! j) = ACKED \<Longrightarrow> cs_state (cs' ! j) = ACKED"
  shows "acked_after cs n i \<le> acked_after cs' n i"
  unfolding acked_after_def by (rule card_mono) (use assms in auto)

lemma acked_after_cong:
  assumes "\<And>j. j < n \<Longrightarrow> cs_state (cs ! j) = cs_state (cs' ! j)"
  shows "acked_after cs n i = acked_after cs' n i"
  unfolding acked_after_def by (rule arg_cong [where f = card]) (use assms in auto)

lemma acked_after_le: "acked_after cs n i \<le> n"
proof -
  have "acked_after cs n i \<le> card {..<n}"
    unfolding acked_after_def by (rule card_mono) auto
  then show ?thesis by simp
qed

section \<open>Construction\<close>

lemma make_sender_window_inv:
  assumes "make_sender_window n l c now = Inr w"
  shows "sw_inv w" and "acked_set w = {}"
proof -
  from assms have w: "w = \<lparr>sw_total_chunks = n, sw_logical_window_chunks = l,
         sw_sack_coverage_chunks = c, sw_base = 0, sw_next_sequence = 0,
         sw_outstanding_chunks = 0, sw_chunks = replicate (unat n) fresh_chunk,
         sw_retransmission_queue = [], sw_last_base_advance_time = now,
         sw_base_advancement_events = 0, sw_total_base_stall_time = 0,
         sw_longest_base_stall_time = 0\<rparr>" and "l \<noteq> 0" "l \<le> c"
    by (auto simp: make_sender_window_def split: if_splits)
  show e: "acked_set w = {}" by (auto simp: w acked_set_def fresh_chunk_def)
  then have "first_gap (acked_set w) = 0" by (simp add: first_gap_eqI)
  then show "sw_inv w"
    using \<open>l \<noteq> 0\<close> \<open>l \<le> c\<close>
    by (simp add: w sw_inv_def sw_core_def window_ok_def queue_ok_def evidence_ok_def
        unacked_set_def word_le_nat_alt unat_gt_0)
qed

section \<open>Acknowledging one chunk\<close>

text \<open>What no acknowledgement changes.\<close>

definition same_frame :: "sender_window \<Rightarrow> sender_window \<Rightarrow> bool" where
  "same_frame w w' \<longleftrightarrow>
     sw_total_chunks w' = sw_total_chunks w \<and>
     sw_logical_window_chunks w' = sw_logical_window_chunks w \<and>
     sw_sack_coverage_chunks w' = sw_sack_coverage_chunks w \<and>
     sw_next_sequence w' = sw_next_sequence w"

lemma same_frame_refl [simp]: "same_frame w w"
  by (simp add: same_frame_def)

lemma same_frame_trans: "same_frame u v \<Longrightarrow> same_frame v w \<Longrightarrow> same_frame u w"
  by (simp add: same_frame_def)

lemma update_chunk_simps [simp]:
  "sw_total_chunks (update_chunk s f w) = sw_total_chunks w"
  "sw_logical_window_chunks (update_chunk s f w) = sw_logical_window_chunks w"
  "sw_sack_coverage_chunks (update_chunk s f w) = sw_sack_coverage_chunks w"
  "sw_base (update_chunk s f w) = sw_base w"
  "sw_next_sequence (update_chunk s f w) = sw_next_sequence w"
  "sw_outstanding_chunks (update_chunk s f w) = sw_outstanding_chunks w"
  "sw_retransmission_queue (update_chunk s f w) = sw_retransmission_queue w"
  "sw_chunks (update_chunk s f w) = (sw_chunks w)[unat s := f (sw_chunks w ! unat s)]"
  by (simp_all add: update_chunk_def)

text \<open>The effect of \<^verbatim>\<open>mark_acked\<close> when it does something.\<close>

lemma mark_acked_cases:
  obtains (skip) "mark_acked s w = w"
      "\<not> (unat s < unat (sw_next_sequence w) \<and> unat s < unat (sw_total_chunks w)) \<or>
       cs_state (sw_chunks w ! unat s) = ACKED"
  | (ack) "unat s < unat (sw_next_sequence w)" "unat s < unat (sw_total_chunks w)"
      "cs_state (sw_chunks w ! unat s) \<noteq> ACKED"
      "mark_acked s w = (update_chunk s
              (\<lambda>c. c\<lparr>cs_state := ACKED, cs_retransmit_pending := False,
                     cs_fast_retransmit_pending := False\<rparr>) w)
             \<lparr>sw_outstanding_chunks := sw_outstanding_chunks w - 1\<rparr>"
  by (auto simp: mark_acked_def chunk_at_def word_le_nat_alt not_le split: if_splits)

lemma mark_acked_frame: "same_frame w (mark_acked s w)" "sw_base (mark_acked s w) = sw_base w"
   "length (sw_chunks (mark_acked s w)) = length (sw_chunks w)"
  by (cases rule: mark_acked_cases [where s = s and w = w]; simp add: same_frame_def)+

lemma acked_set_mark_acked:
  assumes "window_ok w"
  shows "acked_set (mark_acked s w) =
    (if unat s < unat (sw_next_sequence w) then insert (unat s) (acked_set w) else acked_set w)"
  using window_okD(1,3) [OF assms]
  by (cases rule: mark_acked_cases [where s = s and w = w]) (auto simp: acked_set_def nth_list_update)

lemma mark_acked_window_ok:
  assumes ok: "window_ok w"
  shows "window_ok (mark_acked s w)"
proof (cases rule: mark_acked_cases [where s = s and w = w])
  case ack
  let ?w = "mark_acked s w"
  note D = window_okD [OF ok]
  have un: "unacked_set ?w = unacked_set w - {unat s}"
    using ack D(1) by (auto simp: unacked_set_def nth_list_update)
  have "unat s \<in> unacked_set w"
    using ack by (simp add: unacked_set_def)
  then have card: "card (unacked_set ?w) = card (unacked_set w) - 1" and "card (unacked_set w) > 0"
    by (auto simp: un card_gt_0_iff)
  then have "sw_outstanding_chunks w \<noteq> 0" using D(6) by auto
  then have "unat (sw_outstanding_chunks ?w) = card (unacked_set ?w)"
    using D(6) ack(4) by (subst card) (simp add: unat_dec)
  moreover have "unat (sw_outstanding_chunks ?w) \<le> unat (sw_logical_window_chunks ?w)"
    using calculation card D(6,7) ack(4) by simp
  ultimately show ?thesis
    using D ack unfolding window_ok_def
    by (auto simp: nth_list_update)
qed (use ok in simp)

lemma mark_acked_queue_ok:
  assumes ok: "window_ok w" and q: "queue_ok w"
  shows "queue_ok (mark_acked s w)"
proof (cases rule: mark_acked_cases [where s = s and w = w])
  case ack
  then show ?thesis
    using q window_okD(1) [OF ok]
    by (auto simp: queue_ok_def nth_list_update chunk_at_def)
qed (use q in simp)

lemma mark_acked_evidence_ok:
  assumes ok: "window_ok w" and q: "evidence_ok w"
  shows "evidence_ok (mark_acked s w)"
proof (cases rule: mark_acked_cases [where s = s and w = w])
  case ack
  let ?cs = "sw_chunks w" and ?cs' = "sw_chunks (mark_acked s w)" and ?n = "unat (sw_next_sequence w)"
  have "acked_after ?cs ?n i \<le> acked_after ?cs' ?n i" for i
    by (rule acked_after_mono) (use ack window_okD(1) [OF ok] in \<open>auto simp: nth_list_update\<close>)
  then show ?thesis
    using q ack window_okD(1) [OF ok]
    by (auto simp: evidence_ok_def nth_list_update intro: order_trans)
qed (use q in simp)

lemma mark_acked_core: "sw_core w \<Longrightarrow> sw_core (mark_acked s w)"
  by (simp add: sw_core_def mark_acked_window_ok mark_acked_queue_ok mark_acked_evidence_ok)

section \<open>Acknowledging many chunks\<close>

lemma mark_all_acked:
  assumes "sw_core w"
  shows "sw_core (fold mark_acked ss w) \<and> same_frame w (fold mark_acked ss w) \<and>
    sw_base (fold mark_acked ss w) = sw_base w \<and>
    acked_set (fold mark_acked ss w) =
      acked_set w \<union> {unat s | s. s \<in> set ss \<and> unat s < unat (sw_next_sequence w)}"
  using assms
proof (induction ss arbitrary: w)
  case (Cons s ss)
  then have "sw_core (mark_acked s w)" by (simp add: mark_acked_core)
  note IH = Cons.IH [OF this]
  have "window_ok w" using Cons.prems by (simp add: sw_core_def)
  then show ?case
    using IH mark_acked_frame(1,2) [where w = w and s = s]
    by (auto simp: acked_set_mark_acked same_frame_def)
qed simp

lemma fold_if_filter:
  "fold (\<lambda>x s. if P x then f x s else s) xs s = fold f (filter P xs) s"
  by (induction xs arbitrary: s) auto

lemma ack_prefix_eq:
  "ack_prefix ack w = fold mark_acked
     (map of_nat [unat (sw_base w)..<min (unat (ak_cumulative_ack ack))
        (min (unat (sw_total_chunks w)) (unat (sw_next_sequence w)))]) w"
  by (simp add: ack_prefix_def fold_map comp_def Let_def min_def word_le_nat_alt)

lemma unat_range_of_nat:
  assumes "\<forall>i \<in> set xs. i < 4294967296"
  shows "{unat s | s. s \<in> set (map of_nat xs :: u32 list) \<and> unat s < n} = {i. i \<in> set xs \<and> i < n}"
proof (intro equalityI subsetI)
  fix i assume i: "i \<in> {i. i \<in> set xs \<and> i < n}"
  then have "unat (of_nat i :: u32) = i" using assms by simp
  with i show "i \<in> {unat s | s. s \<in> set (map of_nat xs :: u32 list) \<and> unat s < n}"
    by (intro CollectI exI [of _ "of_nat i"]) auto
qed (use assms in auto)

text \<open>The chunk numbers whose bit the bitmap loop finds set.\<close>

definition bitmap_hits :: "ack_payload \<Rightarrow> sender_window \<Rightarrow> nat list" where
  "bitmap_hits ack w =
     map (\<lambda>b. unat (ak_bitmap_base ack) + b)
       (filter (test_ack_bit (ak_bitmap ack)) [0..<bits_to_scan ack w])"

lemma fold_cong_inv:
  assumes "I s" and "\<And>x s. x \<in> set xs \<Longrightarrow> I s \<Longrightarrow> f x s = g x s \<and> I (g x s)"
  shows "fold f xs s = fold g xs s"
  using assms by (induction xs arbitrary: s) auto

lemma bits_to_scan_bound:
  "b < bits_to_scan ack w \<Longrightarrow>
    unat (ak_bitmap_base ack) + b < unat (sw_total_chunks w) \<and>
    unat (ak_bitmap_base ack) + b < unat (sw_next_sequence w)"
  by (auto simp: bits_to_scan_def Let_def split: if_splits)

lemma ack_bitmap_eq:
  "ack_bitmap ack w = fold mark_acked (map of_nat (bitmap_hits ack w)) w"
proof -
  let ?base = "unat (ak_bitmap_base ack)"
  have "ack_bitmap ack w =
     fold (\<lambda>b w. if test_ack_bit (ak_bitmap ack) b then mark_acked (of_nat (?base + b)) w else w)
       [0..<bits_to_scan ack w] w"
    unfolding ack_bitmap_def
    by (rule fold_cong_inv [where I = "same_frame w"])
      (use mark_acked_frame(1) in \<open>auto simp: Let_def same_frame_def dest!: bits_to_scan_bound\<close>)
  then show ?thesis
    by (simp add: fold_if_filter bitmap_hits_def fold_map comp_def)
qed

text \<open>The chunks an ACK payload acknowledges, whatever the sender has sent.\<close>

definition acknowledges :: "ack_payload \<Rightarrow> nat \<Rightarrow> bool" where
  "acknowledges ack i \<longleftrightarrow>
     i < unat (ak_cumulative_ack ack) \<or>
     (unat (ak_bitmap_base ack) \<le> i \<and> i < unat (ak_largest_received_plus_one ack) \<and>
      i - unat (ak_bitmap_base ack) < unat (ak_bitmap_bits ack) \<and>
      i - unat (ak_bitmap_base ack) < 8 * length (ak_bitmap ack) \<and>
      test_ack_bit (ak_bitmap ack) (i - unat (ak_bitmap_base ack)))"

lemma bitmap_hits_set:
  "i \<in> set (bitmap_hits ack w) \<longleftrightarrow>
     i < unat (sw_total_chunks w) \<and> i < unat (sw_next_sequence w) \<and>
     unat (ak_bitmap_base ack) \<le> i \<and> i < unat (ak_largest_received_plus_one ack) \<and>
      i - unat (ak_bitmap_base ack) < unat (ak_bitmap_bits ack) \<and>
      i - unat (ak_bitmap_base ack) < 8 * length (ak_bitmap ack) \<and>
      test_ack_bit (ak_bitmap ack) (i - unat (ak_bitmap_base ack))"
proof -
  have "i \<in> set (bitmap_hits ack w) \<longleftrightarrow> unat (ak_bitmap_base ack) \<le> i \<and>
      i - unat (ak_bitmap_base ack) < bits_to_scan ack w \<and>
      test_ack_bit (ak_bitmap ack) (i - unat (ak_bitmap_base ack))"
    by (force simp: bitmap_hits_def image_iff)
  then show ?thesis by (auto simp: bits_to_scan_def Let_def)
qed

lemma ack_phase:
  fixes ack :: ack_payload and w :: sender_window
  assumes "sw_core w"
  defines "w' \<equiv> ack_bitmap ack (ack_prefix ack w)"
  shows "sw_core w'" and "same_frame w w'" and "sw_base w' = sw_base w"
    and "acked_set w' = acked_set w \<union> {i. i < unat (sw_next_sequence w) \<and> acknowledges ack i}"
proof -
  let ?p = "ack_prefix ack w"
  have ok: "window_ok w" using assms(1) by (simp add: sw_core_def)
  note P = mark_all_acked [OF assms(1), of "map of_nat [unat (sw_base w)..<min (unat (ak_cumulative_ack ack))
        (min (unat (sw_total_chunks w)) (unat (sw_next_sequence w)))]", folded ack_prefix_eq]
  then have core: "sw_core ?p" by simp
  note B = mark_all_acked [OF core, of "map of_nat (bitmap_hits ack ?p)", folded ack_bitmap_eq w'_def]
  show "sw_core w'" "same_frame w w'" "sw_base w' = sw_base w"
    using P B by (auto intro: same_frame_trans)
  have fr: "same_frame w ?p" using P by simp
  note D = window_okD [OF ok]
  have lt: "i < 4294967296" if "i < unat (sw_total_chunks w)" for i
    using that unat_u32_less [of "sw_total_chunks w"] by simp
  have 1: "{unat s | s. s \<in> set (map of_nat [unat (sw_base w)..<min (unat (ak_cumulative_ack ack))
        (min (unat (sw_total_chunks w)) (unat (sw_next_sequence w)))] :: u32 list) \<and>
        unat s < unat (sw_next_sequence w)} =
     {i. unat (sw_base w) \<le> i \<and> i < unat (ak_cumulative_ack ack) \<and> i < unat (sw_next_sequence w)}"
    by (subst unat_range_of_nat) (use lt D(3) in auto)
  have 2: "{unat s | s. s \<in> set (map of_nat (bitmap_hits ack ?p) :: u32 list) \<and>
        unat s < unat (sw_next_sequence ?p)} = set (bitmap_hits ack ?p)"
    by (subst unat_range_of_nat) (use lt fr in \<open>auto simp: bitmap_hits_set same_frame_def\<close>)
  have 3: "i \<in> acked_set w" if "i < unat (sw_base w)" for i
    using D(2-4) that by (auto simp: acked_set_def)
  show "acked_set w' = acked_set w \<union> {i. i < unat (sw_next_sequence w) \<and> acknowledges ack i}"
    using P B 1 2 3 fr D(3)
    by (auto simp: bitmap_hits_set same_frame_def acknowledges_def)
qed

section \<open>Advancing the base\<close>

lemma skip_acked_spec:
  "unat b \<le> unat n \<Longrightarrow>
   unat b \<le> unat (skip_acked cs n b) \<and> unat (skip_acked cs n b) \<le> unat n \<and>
   (\<forall>i. unat b \<le> i \<and> i < unat (skip_acked cs n b) \<longrightarrow> cs_state (cs ! i) = ACKED) \<and>
   (skip_acked cs n b < n \<longrightarrow> cs_state (cs ! unat (skip_acked cs n b)) \<noteq> ACKED)"
proof (induction cs n b rule: skip_acked.induct)
  case (1 cs n b)
  show ?case
  proof (cases "b < n \<and> cs_state (cs ! unat b) = ACKED")
    case True
    then have b1: "unat (b + 1) = Suc (unat b)" and "unat b < unat n"
      by (auto simp: unat_inc word_less_nat_alt)
    note IH = 1(1) [OF True]
    have "skip_acked cs n b = skip_acked cs n (b + 1)"
      using True by (subst skip_acked.simps) simp
    with IH b1 \<open>unat b < unat n\<close> True show ?thesis
      by (auto simp: le_eq_less_or_eq [of "unat b"] Suc_le_eq)
  next
    case False
    then have "skip_acked cs n b = b" by (subst skip_acked.simps) auto
    with False 1(2) show ?thesis by auto
  qed
qed

lemma advance_base_simps [simp]:
  "sw_total_chunks (advance_base now w) = sw_total_chunks w"
  "sw_logical_window_chunks (advance_base now w) = sw_logical_window_chunks w"
  "sw_sack_coverage_chunks (advance_base now w) = sw_sack_coverage_chunks w"
  "sw_base (advance_base now w) = skip_acked (sw_chunks w) (sw_total_chunks w) (sw_base w)"
  "sw_next_sequence (advance_base now w) = sw_next_sequence w"
  "sw_outstanding_chunks (advance_base now w) = sw_outstanding_chunks w"
  "sw_retransmission_queue (advance_base now w) = sw_retransmission_queue w"
  "sw_chunks (advance_base now w) = sw_chunks w"
  by (simp_all add: advance_base_def Let_def)

lemma skip_acked_first_gap:
  assumes ok: "window_ok w"
  shows "unat (skip_acked (sw_chunks w) (sw_total_chunks w) (sw_base w)) = first_gap (acked_set w)"
proof -
  let ?b = "skip_acked (sw_chunks w) (sw_total_chunks w) (sw_base w)"
  note D = window_okD [OF ok]
  have "unat (sw_base w) \<le> unat (sw_total_chunks w)" using D(2,3) by simp
  note S = skip_acked_spec [OF this, of "sw_chunks w"]
  have "first_gap (acked_set w) = unat ?b"
  proof (rule first_gap_eqI)
    show "unat ?b \<notin> acked_set w"
      using S by (auto simp: acked_set_def word_less_nat_alt)
    show "i \<in> acked_set w" if "i < unat ?b" for i
      using S D(4) [of i] that by (cases "i < unat (sw_base w)") (auto simp: acked_set_def)
  qed
  then show ?thesis by simp
qed

lemma advance_base_inv:
  assumes "sw_core w"
  shows "sw_inv (advance_base now w)" and "acked_set (advance_base now w) = acked_set w"
    and "same_frame w (advance_base now w)"
    and "unat (sw_base w) \<le> unat (sw_base (advance_base now w))"
proof -
  let ?w = "advance_base now w"
  have ok: "window_ok w" using assms by (simp add: sw_core_def)
  note D = window_okD [OF ok]
  have le: "unat (sw_base w) \<le> unat (sw_total_chunks w)" using D(2,3) by simp
  note S = skip_acked_spec [OF le, of "sw_chunks w"] and G = skip_acked_first_gap [OF ok]
  have gap_le: "first_gap (acked_set w) \<le> unat (sw_next_sequence w)"
    using first_gap_le [OF acked_set_bound [OF ok]] .
  show A: "acked_set ?w = acked_set w" by (simp add: acked_set_def)
  show "same_frame w ?w" by (simp add: same_frame_def)
  show le': "unat (sw_base w) \<le> unat (sw_base ?w)" using S by simp
  have "cs_state (sw_chunks w ! i) = ACKED" if "i < unat (sw_base ?w)" for i
    using S D(4) [of i] that by (cases "i < unat (sw_base w)") auto
  then have "window_ok ?w"
    using D gap_le G le' S unfolding window_ok_def
    by (simp add: unacked_set_def)
  moreover have "queue_ok ?w" "evidence_ok ?w"
    using assms by (simp_all add: sw_core_def queue_ok_def evidence_ok_def chunk_at_def)
  ultimately show "sw_inv ?w" using G A by (simp add: sw_inv_def sw_core_def)
qed

section \<open>Sweeps: loops that update chunks in place and append to the queue\<close>

text \<open>
  The last loop of \<^verbatim>\<open>process_ack\<close> and the loop of \<^verbatim>\<open>check_timeouts\<close> visit chunks once each, rewrite
  the visited chunk from its old value and may append its number to the queue.  A sweep is that
  shape, with the visited indices in order.
\<close>

definition sweep ::
    "(nat \<Rightarrow> chunk_state \<Rightarrow> chunk_state) \<Rightarrow> (nat \<Rightarrow> chunk_state \<Rightarrow> bool) \<Rightarrow> nat list \<Rightarrow>
      sender_window \<Rightarrow> sender_window" where
  "sweep u e is w =
     w\<lparr>sw_chunks := map (\<lambda>i. if i \<in> set is then u i (sw_chunks w ! i) else sw_chunks w ! i)
                        [0..<length (sw_chunks w)],
       sw_retransmission_queue := sw_retransmission_queue w @
         map of_nat (filter (\<lambda>i. e i (sw_chunks w ! i)) is)\<rparr>"

definition visit ::
    "(nat \<Rightarrow> chunk_state \<Rightarrow> chunk_state) \<Rightarrow> (nat \<Rightarrow> chunk_state \<Rightarrow> bool) \<Rightarrow> nat \<Rightarrow>
      sender_window \<Rightarrow> sender_window" where
  "visit u e i w =
     w\<lparr>sw_chunks := (sw_chunks w)[i := u i (sw_chunks w ! i)],
       sw_retransmission_queue := sw_retransmission_queue w @
         (if e i (sw_chunks w ! i) then [of_nat i] else [])\<rparr>"

lemma sweep_Nil: "sweep u e [] w = w"
proof -
  have "map ((!) (sw_chunks w)) [0..<length (sw_chunks w)] = sw_chunks w"
    by (rule map_nth)
  then show ?thesis by (simp add: sweep_def)
qed

lemma sweep_snoc:
  assumes "i \<notin> set is" and "i < length (sw_chunks w)"
  shows "sweep u e (is @ [i]) w = visit u e i (sweep u e is w)"
proof -
  have "map (\<lambda>j. if j \<in> set (is @ [i]) then u j (sw_chunks w ! j) else sw_chunks w ! j)
        [0..<length (sw_chunks w)] =
      (map (\<lambda>j. if j \<in> set is then u j (sw_chunks w ! j) else sw_chunks w ! j)
        [0..<length (sw_chunks w)])[i := u i (sw_chunks w ! i)]"
    using assms by (intro nth_equalityI) (auto simp: nth_list_update)
  with assms show ?thesis by (simp add: sweep_def visit_def)
qed

lemma fold_visit:
  "distinct is \<Longrightarrow> (\<forall>i \<in> set is. i < length (sw_chunks w)) \<Longrightarrow>
     fold (visit u e) is w = sweep u e is w"
  by (induction "is" rule: rev_induct) (simp_all add: sweep_Nil sweep_snoc)

text \<open>The fast-retransmit sweep.\<close>

definition fires :: "time_ns \<Rightarrow> u32 \<Rightarrow> chunk_state \<Rightarrow> bool" where
  "fires now later c \<longleftrightarrow>
     cs_state c = IN_FLIGHT \<and> \<not> cs_retransmit_pending c \<and>
     later > cs_latest_later_acked c \<and>
     later \<ge> cs_retransmit_evidence c \<and>
     later - cs_retransmit_evidence c \<ge> kFastRetransmitThreshold \<and>
     (\<not> cs_fast_retransmitted c \<or> now - cs_last_sent_time c \<ge> kRepeatedFastRetransmitDelay)"

definition evidence_chunk :: "time_ns \<Rightarrow> u32 \<Rightarrow> chunk_state \<Rightarrow> chunk_state" where
  "evidence_chunk now later c =
     (if cs_state c \<noteq> IN_FLIGHT then c
      else if fires now later c
      then c\<lparr>cs_latest_later_acked := later, cs_retransmit_pending := True,
             cs_fast_retransmit_pending := True, cs_fast_retransmitted := True\<rparr>
      else c\<lparr>cs_latest_later_acked := later\<rparr>)"

lemma visit_simps:
  "sw_next_sequence (visit u e i w) = sw_next_sequence w"
  "length (sw_chunks (visit u e i w)) = length (sw_chunks w)"
  by (simp_all add: visit_def)

lemma evidence_step_visit:
  assumes i: "i < length (sw_chunks w)" "i < 4294967296"
  shows "evidence_step now i (w, later) =
    (visit (\<lambda>_. evidence_chunk now later) (\<lambda>_. fires now later) i w,
     if cs_state (sw_chunks w ! i) = ACKED then later + 1 else later)"
  using i
  by (cases "cs_state (sw_chunks w ! i)")
    (auto simp: evidence_step_def visit_def evidence_chunk_def fires_def update_chunk_def
      queue_retransmission_def chunk_at_def Let_def)

lemma acked_after_step:
  "i < n \<Longrightarrow> card {j. i \<le> j \<and> j < n \<and> cs_state (cs ! j) = ACKED} =
     acked_after cs n i + (if cs_state (cs ! i) = ACKED then 1 else 0)"
proof -
  assume "i < n"
  have eq: "{j. i \<le> j \<and> j < n \<and> cs_state (cs ! j) = ACKED} =
      (if cs_state (cs ! i) = ACKED then insert i else id)
        {j. i < j \<and> j < n \<and> cs_state (cs ! j) = ACKED}"
    using \<open>i < n\<close> by (auto simp: le_less)
  show ?thesis unfolding eq by (simp add: acked_after_def)
qed

lemma evidence_chunk_state [simp]: "cs_state (evidence_chunk now l c) = cs_state c"
  by (simp add: evidence_chunk_def)

lemma evidence_fold:
  assumes n: "n \<le> length (sw_chunks w)" "n < 4294967296" and "m \<le> n"
  defines "later \<equiv> \<lambda>i. of_nat (acked_after (sw_chunks w) n i) :: u32"
  shows "fold (evidence_step now) (rev [m..<n]) (w, 0) =
    (sweep (\<lambda>i. evidence_chunk now (later i)) (\<lambda>i. fires now (later i)) (rev [m..<n]) w,
     of_nat (card {j. m \<le> j \<and> j < n \<and> cs_state (sw_chunks w ! j) = ACKED}))"
  using \<open>m \<le> n\<close>
proof (induction rule: inc_induct)
  case base
  have "{j. n \<le> j \<and> j < n \<and> cs_state (sw_chunks w ! j) = ACKED} = {}" by auto
  then show ?case by (simp only: sweep_Nil card.empty) (simp add: sweep_Nil)
next
  case (step m)
  let ?s = "sweep (\<lambda>i. evidence_chunk now (later i)) (\<lambda>i. fires now (later i))"
  have ls: "{j. Suc m \<le> j \<and> j < n \<and> cs_state (sw_chunks w ! j) = ACKED} =
      {j. m < j \<and> j < n \<and> cs_state (sw_chunks w ! j) = ACKED}" by (simp add: Suc_le_eq)
  have nth: "sw_chunks (?s (rev [Suc m..<n]) w) ! m = sw_chunks w ! m"
    "length (sw_chunks (?s (rev [Suc m..<n]) w)) = length (sw_chunks w)"
    using step n by (simp_all add: sweep_def)
  have "rev [m..<n] = rev [Suc m..<n] @ [m]"
    using step by (simp add: upt_conv_Cons)
  then have "fold (evidence_step now) (rev [m..<n]) (w, 0) =
      evidence_step now m (?s (rev [Suc m..<n]) w, later m)"
    using step by (simp add: ls later_def acked_after_def)
  also have "\<dots> = (visit (\<lambda>i. evidence_chunk now (later i)) (\<lambda>i. fires now (later i)) m
        (?s (rev [Suc m..<n]) w),
      if cs_state (sw_chunks w ! m) = ACKED then later m + 1 else later m)"
    using step n nth by (subst evidence_step_visit) (simp_all add: visit_def)
  also have "visit (\<lambda>i. evidence_chunk now (later i)) (\<lambda>i. fires now (later i)) m
        (?s (rev [Suc m..<n]) w) = ?s (rev [m..<n]) w"
    using step n \<open>rev [m..<n] = rev [Suc m..<n] @ [m]\<close> by (simp add: sweep_snoc)
  finally show ?case
    using step by (simp add: acked_after_step later_def)
qed

lemma sweep_simps [simp]:
  "sw_total_chunks (sweep u e is w) = sw_total_chunks w"
  "sw_logical_window_chunks (sweep u e is w) = sw_logical_window_chunks w"
  "sw_sack_coverage_chunks (sweep u e is w) = sw_sack_coverage_chunks w"
  "sw_base (sweep u e is w) = sw_base w"
  "sw_next_sequence (sweep u e is w) = sw_next_sequence w"
  "sw_outstanding_chunks (sweep u e is w) = sw_outstanding_chunks w"
  "length (sw_chunks (sweep u e is w)) = length (sw_chunks w)"
  "i < length (sw_chunks w) \<Longrightarrow> sw_chunks (sweep u e is w) ! i =
     (if i \<in> set is then u i (sw_chunks w ! i) else sw_chunks w ! i)"
  "sw_retransmission_queue (sweep u e is w) =
     sw_retransmission_queue w @ map of_nat (filter (\<lambda>i. e i (sw_chunks w ! i)) is)"
  by (simp_all add: sweep_def)

definition sweep_ok ::
    "(nat \<Rightarrow> chunk_state \<Rightarrow> chunk_state) \<Rightarrow> (nat \<Rightarrow> chunk_state \<Rightarrow> bool) \<Rightarrow> nat list \<Rightarrow>
      sender_window \<Rightarrow> bool" where
  "sweep_ok u e is w \<longleftrightarrow>
     distinct is \<and>
     (\<forall>i \<in> set is. let c = sw_chunks w ! i in
        i < unat (sw_next_sequence w) \<and>
        cs_state (u i c) = cs_state c \<and>
        (if e i c
         then cs_state c = IN_FLIGHT \<and> \<not> cs_retransmit_pending c \<and> cs_retransmit_pending (u i c)
         else cs_retransmit_pending (u i c) = cs_retransmit_pending c) \<and>
        cs_retransmit_evidence (u i c) \<le> cs_latest_later_acked (u i c) \<and>
        unat (cs_latest_later_acked (u i c)) \<le>
          acked_after (sw_chunks w) (unat (sw_next_sequence w)) i)"

lemma sweep_okD:
  assumes "sweep_ok u e is w" "i \<in> set is"
  shows "i < unat (sw_next_sequence w)"
    and "cs_state (u i (sw_chunks w ! i)) = cs_state (sw_chunks w ! i)"
    and "e i (sw_chunks w ! i) \<Longrightarrow> cs_state (sw_chunks w ! i) = IN_FLIGHT \<and>
      \<not> cs_retransmit_pending (sw_chunks w ! i) \<and> cs_retransmit_pending (u i (sw_chunks w ! i))"
    and "\<not> e i (sw_chunks w ! i) \<Longrightarrow>
      cs_retransmit_pending (u i (sw_chunks w ! i)) = cs_retransmit_pending (sw_chunks w ! i)"
    and "cs_retransmit_evidence (u i (sw_chunks w ! i)) \<le> cs_latest_later_acked (u i (sw_chunks w ! i))"
    and "unat (cs_latest_later_acked (u i (sw_chunks w ! i))) \<le>
          acked_after (sw_chunks w) (unat (sw_next_sequence w)) i"
  using assms by (auto simp: sweep_ok_def Let_def split: if_splits)

lemma sweep_state:
  assumes "sweep_ok u e is w" "i < length (sw_chunks w)"
  shows "cs_state (sw_chunks (sweep u e is w) ! i) = cs_state (sw_chunks w ! i)"
  using assms sweep_okD(2) by auto

lemma sweep_acked:
  assumes "sweep_ok u e is w" "window_ok w"
  shows "acked_set (sweep u e is w) = acked_set w" "unacked_set (sweep u e is w) = unacked_set w"
proof -
  have "cs_state (sw_chunks (sweep u e is w) ! i) = cs_state (sw_chunks w ! i)"
    if "i < unat (sw_total_chunks w)" for i
    using sweep_state [OF assms(1)] window_okD(1) [OF assms(2)] that by simp
  then show "acked_set (sweep u e is w) = acked_set w" "unacked_set (sweep u e is w) = unacked_set w"
    using window_okD(3) [OF assms(2)] by (auto simp: acked_set_def unacked_set_def)
qed

lemma sweep_window_ok:
  assumes S: "sweep_ok u e is w" and ok: "window_ok w"
  shows "window_ok (sweep u e is w)"
proof -
  note D = window_okD [OF ok]
  have "sw_chunks (sweep u e is w) ! i = sw_chunks w ! i"
    if "unat (sw_next_sequence w) \<le> i" "i < unat (sw_total_chunks w)" for i
    using sweep_okD(1) [OF S, of i] that D(1) by auto
  moreover have "cs_state (sw_chunks (sweep u e is w) ! i) = ACKED" if "i < unat (sw_base w)" for i
    using sweep_state [OF S, of i] D(1-3) D(4) [of i] that by simp
  ultimately show ?thesis
    using D sweep_acked(2) [OF S ok] unfolding window_ok_def by simp
qed

lemma of_nat_inj_below:
  "i < unat (n :: u32) \<Longrightarrow> j < unat n \<Longrightarrow> (of_nat i :: u32) = of_nat j \<longleftrightarrow> i = j"
  by (metis less_imp_le unat_of_nat_below)

lemma sweep_queue_ok:
  assumes S: "sweep_ok u e is w" and ok: "window_ok w" and Q: "queue_ok w"
  shows "queue_ok (sweep u e is w)"
proof -
  let ?w = "sweep u e is w" and ?n = "unat (sw_next_sequence w)"
  let ?new = "filter (\<lambda>i. e i (sw_chunks w ! i)) is"
  note D = window_okD [OF ok]
  have new: "i < ?n \<and> cs_state (sw_chunks w ! i) = IN_FLIGHT \<and>
      \<not> cs_retransmit_pending (sw_chunks w ! i) \<and> i \<in> set is \<and> unat (of_nat i :: u32) = i"
    if "i \<in> set ?new" for i
    using that sweep_okD(1,3) [OF S] unat_of_nat_below [of i "sw_next_sequence w"] by force
  have ch: "sw_chunks ?w ! i = (if i \<in> set is then u i (sw_chunks w ! i) else sw_chunks w ! i)"
    if "i < ?n" for i using that D(1,3) by simp
  have st: "cs_state (sw_chunks ?w ! i) = cs_state (sw_chunks w ! i)" if "i < ?n" for i
    using that sweep_state [OF S] D(1,3) by simp
  have pend: "cs_retransmit_pending (sw_chunks ?w ! i) \<longleftrightarrow>
      cs_retransmit_pending (sw_chunks w ! i) \<or> i \<in> set ?new" if "i < ?n" for i
    using sweep_okD(3,4) [OF S, of i] that by (auto simp: ch)
  have "distinct (map of_nat ?new :: u32 list)"
    unfolding distinct_map
  proof
    show "distinct ?new" using S by (simp add: sweep_ok_def)
    show "inj_on (of_nat :: nat \<Rightarrow> u32) (set ?new)"
      using new by (intro inj_onI) (metis of_nat_inj_below)
  qed
  moreover have "set (map of_nat ?new) \<inter> set (sw_retransmission_queue w) = {}"
    using new Q by (force simp: queue_ok_def chunk_at_def)
  moreover have "unat s < ?n \<and> (cs_state (chunk_at ?w s) = ACKED \<or>
      cs_state (chunk_at ?w s) = IN_FLIGHT \<and> cs_retransmit_pending (chunk_at ?w s))"
    if "s \<in> set (sw_retransmission_queue ?w)" for s
    using that
  proof (simp only: sweep_simps set_append set_map Un_iff image_iff, elim disjE bexE)
    assume "s \<in> set (sw_retransmission_queue w)"
    then show ?thesis using Q st [of "unat s"] pend [of "unat s"]
      by (auto simp: queue_ok_def chunk_at_def)
  next
    fix i assume "i \<in> set ?new" "s = of_nat i"
    then show ?thesis using new [of i] st [of i] pend [of i] by (simp add: chunk_at_def)
  qed
  moreover have "cs_state (sw_chunks ?w ! i) = IN_FLIGHT \<and>
      of_nat i \<in> set (sw_retransmission_queue ?w)"
    if "i < ?n" "cs_retransmit_pending (sw_chunks ?w ! i)" for i
    using that pend [of i] st [of i] Q new [of i] by (auto simp: queue_ok_def)
  ultimately show ?thesis using Q by (auto simp: queue_ok_def)
qed

lemma sweep_evidence_ok:
  assumes S: "sweep_ok u e is w" and ok: "window_ok w" and E: "evidence_ok w"
  shows "evidence_ok (sweep u e is w)"
proof -
  let ?w = "sweep u e is w" and ?n = "unat (sw_next_sequence w)"
  note D = window_okD [OF ok]
  have "acked_after (sw_chunks ?w) ?n i = acked_after (sw_chunks w) ?n i" for i
    by (rule acked_after_cong) (use sweep_state [OF S] D(1,3) in simp)
  then show ?thesis
    using E sweep_okD(5,6) [OF S] D(1,3) by (auto simp: evidence_ok_def)
qed

lemma sweep_core:
  assumes "sweep_ok u e is w" and "sw_core w"
  shows "sw_core (sweep u e is w)"
  using assms by (simp add: sw_core_def sweep_window_ok sweep_queue_ok sweep_evidence_ok)

lemma sweep_inv:
  assumes "sweep_ok u e is w" and "sw_inv w"
  shows "sw_inv (sweep u e is w)"
  using assms(2) sweep_core [OF assms(1)] sweep_acked(1) [OF assms(1)]
  by (auto simp: sw_inv_def sw_core_def)
section \<open>process_ack and check_timeouts\<close>

text \<open>The evidence sweep over a window, with the number of later acknowledgements of each chunk.\<close>

definition later_acks :: "sender_window \<Rightarrow> nat \<Rightarrow> u32" where
  "later_acks w i = of_nat (acked_after (sw_chunks w) (unat (sw_next_sequence w)) i)"

lemma unat_later_acks:
  "unat (later_acks w i) = acked_after (sw_chunks w) (unat (sw_next_sequence w)) i"
  unfolding later_acks_def by (rule unat_of_nat_below [OF acked_after_le])

definition evidence_sweep :: "time_ns \<Rightarrow> sender_window \<Rightarrow> sender_window" where
  "evidence_sweep now w =
     sweep (\<lambda>i. evidence_chunk now (later_acks w i)) (\<lambda>i. fires now (later_acks w i))
       (rev [unat (sw_base w)..<unat (sw_next_sequence w)]) w"

lemma evidence_loop_sweep:
  assumes "window_ok w"
  shows "evidence_loop now w = evidence_sweep now w"
  using evidence_fold [of "unat (sw_next_sequence w)" w "unat (sw_base w)" now]
    window_okD(1-3) [OF assms] unat_u32_less [of "sw_next_sequence w"]
  by (simp add: evidence_loop_def evidence_sweep_def later_acks_def)

lemma evidence_sweep_ok:
  assumes core: "sw_core w"
  shows "sweep_ok (\<lambda>i. evidence_chunk now (later_acks w i)) (\<lambda>i. fires now (later_acks w i))
       (rev [unat (sw_base w)..<unat (sw_next_sequence w)]) w"
proof -
  have *: "cs_retransmit_evidence (sw_chunks w ! i) \<le> cs_latest_later_acked (sw_chunks w ! i)"
    "cs_latest_later_acked (sw_chunks w ! i) \<le> later_acks w i"
    "unat (cs_latest_later_acked (sw_chunks w ! i)) \<le>
      acked_after (sw_chunks w) (unat (sw_next_sequence w)) i"
    if "i < unat (sw_next_sequence w)" for i
    using core that
    by (auto simp: sw_core_def evidence_ok_def word_le_nat_alt unat_later_acks)
  moreover have "cs_retransmit_evidence (sw_chunks w ! i) \<le> later_acks w i"
    if "i < unat (sw_next_sequence w)" for i
    using *(1,2) [OF that] by (rule order_trans)
  ultimately show ?thesis
    by (auto simp: sweep_ok_def Let_def evidence_chunk_def fires_def unat_later_acks)
qed

lemma process_ack_inv:
  fixes w :: sender_window and a :: ack_payload and now :: time_ns
  assumes "sw_inv w"
  defines "w' \<equiv> process_ack w a now"
  shows "sw_inv w'" and "same_frame w w'" and "unat (sw_base w) \<le> unat (sw_base w')"
    and "acked_set w' = acked_set w \<union> {i. i < unat (sw_next_sequence w) \<and> acknowledges a i}"
proof -
  have core: "sw_core w" using assms(1) by (simp add: sw_inv_def)
  let ?p = "ack_bitmap a (ack_prefix a w)" and ?q = "advance_base now (ack_bitmap a (ack_prefix a w))"
  note A = ack_phase [OF core, of a]
  note B = advance_base_inv [OF A(1), of now]
  have qcore: "sw_core ?q" and qok: "window_ok ?q"
    using B(1) by (simp_all add: sw_inv_def sw_core_def)
  have w': "w' = evidence_sweep now ?q"
    by (simp add: w'_def process_ack_def evidence_loop_sweep [OF qok])
  note S = evidence_sweep_ok [OF qcore, of now]
  show "sw_inv w'" unfolding w' evidence_sweep_def by (rule sweep_inv [OF S B(1)])
  have "acked_set w' = acked_set ?q"
    unfolding w' evidence_sweep_def by (rule sweep_acked [OF S qok])
  then show "acked_set w' = acked_set w \<union> {i. i < unat (sw_next_sequence w) \<and> acknowledges a i}"
    using A(4) B(2) by simp
  show "same_frame w w'"
    using A(2) B(3) by (simp add: w' evidence_sweep_def same_frame_def)
  show "unat (sw_base w) \<le> unat (sw_base w')"
    using A(3) B(4) by (simp add: w' evidence_sweep_def)
qed

text \<open>The timeout sweep.\<close>

definition expired :: "time_ns \<Rightarrow> time_ns \<Rightarrow> chunk_state \<Rightarrow> bool" where
  "expired now rto c \<longleftrightarrow>
     cs_state c = IN_FLIGHT \<and> \<not> cs_retransmit_pending c \<and> now - cs_last_sent_time c \<ge> rto"

definition timeout_chunk :: "time_ns \<Rightarrow> time_ns \<Rightarrow> chunk_state \<Rightarrow> chunk_state" where
  "timeout_chunk now rto c =
     (if expired now rto c
      then c\<lparr>cs_retransmit_pending := True, cs_fast_retransmit_pending := False\<rparr> else c)"

lemma check_timeouts_sweep:
  assumes "window_ok w"
  shows "check_timeouts w now rto =
    sweep (\<lambda>_. timeout_chunk now rto) (\<lambda>_. expired now rto)
      [unat (sw_base w)..<unat (sw_next_sequence w)] w"
proof -
  note D = window_okD [OF assms]
  let ?body = "\<lambda>s (w :: sender_window). let chunk = sw_chunks w ! s
         in if cs_state chunk = IN_FLIGHT \<and> \<not> cs_retransmit_pending chunk \<and>
               now - cs_last_sent_time chunk \<ge> rto
            then queue_retransmission (of_nat s) False w else w"
  have "check_timeouts w now rto =
      fold (visit (\<lambda>_. timeout_chunk now rto) (\<lambda>_. expired now rto))
        [unat (sw_base w)..<unat (sw_next_sequence w)] w"
    unfolding check_timeouts_def
  proof (rule fold_cong_inv [where I = "\<lambda>v. length (sw_chunks v) = length (sw_chunks w)"])
    fix s and v :: sender_window assume s: "s \<in> set [unat (sw_base w)..<unat (sw_next_sequence w)]"
      and v: "length (sw_chunks v) = length (sw_chunks w)"
    then have "unat (of_nat s :: u32) = s"
      using unat_of_nat_below [of s "sw_next_sequence w"] by simp
    then show "?body s v = visit (\<lambda>_. timeout_chunk now rto) (\<lambda>_. expired now rto) s v \<and>
        length (sw_chunks (visit (\<lambda>_. timeout_chunk now rto) (\<lambda>_. expired now rto) s v)) =
          length (sw_chunks w)"
      using s v D(1,3)
      by (auto simp: visit_def timeout_chunk_def expired_def queue_retransmission_def chunk_at_def
          Let_def update_chunk_def)
  qed simp
  then show ?thesis using D(1,3) by (subst (asm) fold_visit) auto
qed

lemma timeout_sweep_ok:
  assumes "sw_core w"
  shows "sweep_ok (\<lambda>_. timeout_chunk now rto) (\<lambda>_. expired now rto)
      [unat (sw_base w)..<unat (sw_next_sequence w)] w"
  using assms
  by (auto simp: sweep_ok_def Let_def timeout_chunk_def expired_def sw_core_def evidence_ok_def)

lemma check_timeouts_inv:
  assumes "sw_inv w"
  shows "sw_inv (check_timeouts w now rto)" and "same_frame w (check_timeouts w now rto)"
    and "acked_set (check_timeouts w now rto) = acked_set w"
    and "sw_base (check_timeouts w now rto) = sw_base w"
proof -
  have core: "sw_core w" and ok: "window_ok w" using assms by (simp_all add: sw_inv_def sw_core_def)
  note S = timeout_sweep_ok [OF core, of now rto]
  note eq = check_timeouts_sweep [OF ok, of now rto]
  show "sw_inv (check_timeouts w now rto)" unfolding eq by (rule sweep_inv [OF S assms])
  show "acked_set (check_timeouts w now rto) = acked_set w"
    unfolding eq by (rule sweep_acked [OF S ok])
  show "same_frame w (check_timeouts w now rto)" "sw_base (check_timeouts w now rto) = sw_base w"
    by (simp_all add: eq same_frame_def)
qed

end
