(* ===== verification/Sender_Selection.thy ===== *)
theory Sender_Selection
  imports Sender_Invariant
begin

text \<open>
  Choosing the next packet and recording that it was sent: what \<^verbatim>\<open>select_next_packet\<close> and
  \<^verbatim>\<open>mark_sent\<close> do to the invariant of \<^verbatim>\<open>Sender_Invariant\<close>.
\<close>

section \<open>The retransmission queue\<close>

definition wants_retransmission :: "chunk_state \<Rightarrow> bool" where
  "wants_retransmission c \<longleftrightarrow> cs_state c = IN_FLIGHT \<and> cs_retransmit_pending c"

text \<open>What choosing a chunk for retransmission writes into it.\<close>

definition chosen_chunk :: "chunk_state \<Rightarrow> chunk_state" where
  "chosen_chunk c =
     c\<lparr>cs_retransmit_pending := False, cs_fast_retransmit_pending := False,
       cs_fast_retransmitted := True, cs_retransmit_evidence := cs_latest_later_acked c\<rparr>"

lemma chosen_chunk_simps [simp]:
  "cs_state (chosen_chunk c) = cs_state c"
  "cs_retransmit_pending (chosen_chunk c) = False"
  "cs_latest_later_acked (chosen_chunk c) = cs_latest_later_acked c"
  "cs_retransmit_evidence (chosen_chunk c) = cs_latest_later_acked c"
  "cs_last_sent_time (chosen_chunk c) = cs_last_sent_time c"
  by (simp_all add: chosen_chunk_def)

lemma pop_retransmission_None:
  "pop_retransmission q cs = (None, q', cs') \<Longrightarrow>
     q' = [] \<and> cs' = cs \<and> (\<forall>s \<in> set q. \<not> wants_retransmission (cs ! unat s))"
  by (induction q arbitrary: q' cs')
    (auto simp: Let_def wants_retransmission_def split: if_splits)

lemma pop_retransmission_Some:
  "pop_retransmission q cs = (Some d, q', cs') \<Longrightarrow>
     \<exists>pre. q = pre @ sequence d # q' \<and>
       (\<forall>s \<in> set pre. \<not> wants_retransmission (cs ! unat s)) \<and>
       wants_retransmission (cs ! unat (sequence d)) \<and>
       d = \<lparr>sequence = sequence d, retransmission = True,
            fast_retransmission = cs_fast_retransmit_pending (cs ! unat (sequence d))\<rparr> \<and>
       cs' = cs[unat (sequence d) := chosen_chunk (cs ! unat (sequence d))]"
proof (induction q arbitrary: q' cs')
  case (Cons s q)
  show ?case
  proof (cases "wants_retransmission (cs ! unat s)")
    case True
    with Cons.prems show ?thesis
      by (intro exI [of _ "[]"]) (auto simp: Let_def wants_retransmission_def chosen_chunk_def)
  next
    case False
    with Cons.prems have "pop_retransmission q cs = (Some d, q', cs')"
      by (auto simp: Let_def wants_retransmission_def)
    from Cons.IH [OF this] obtain pre where "q = pre @ sequence d # q'"
      "\<forall>s \<in> set pre. \<not> wants_retransmission (cs ! unat s)"
      "wants_retransmission (cs ! unat (sequence d))"
      "d = \<lparr>sequence = sequence d, retransmission = True,
            fast_retransmission = cs_fast_retransmit_pending (cs ! unat (sequence d))\<rparr>"
      "cs' = cs[unat (sequence d) := chosen_chunk (cs ! unat (sequence d))]" by blast
    with False show ?thesis by (intro exI [of _ "s # pre"]) auto
  qed
qed simp

text \<open>The three outcomes of \<^verbatim>\<open>select_next_packet\<close>.\<close>

lemma select_cases:
  assumes "select_next_packet w = (d, w')"
  obtains
    (resend) pre s rest where
      "sw_retransmission_queue w = pre @ s # rest"
      "\<forall>r \<in> set pre. \<not> wants_retransmission (chunk_at w r)"
      "wants_retransmission (chunk_at w s)"
      "d = Some \<lparr>sequence = s, retransmission = True,
                 fast_retransmission = cs_fast_retransmit_pending (chunk_at w s)\<rparr>"
      "w' = (update_chunk s chosen_chunk w)\<lparr>sw_retransmission_queue := rest\<rparr>"
  | (fresh) "\<forall>r \<in> set (sw_retransmission_queue w). \<not> wants_retransmission (chunk_at w r)"
      "can_send_new w"
      "d = Some \<lparr>sequence = sw_next_sequence w, retransmission = False,
                 fast_retransmission = False\<rparr>"
      "w' = w\<lparr>sw_retransmission_queue := [], sw_next_sequence := sw_next_sequence w + 1,
              sw_outstanding_chunks := sw_outstanding_chunks w + 1\<rparr>"
  | (idle) "\<forall>r \<in> set (sw_retransmission_queue w). \<not> wants_retransmission (chunk_at w r)"
      "\<not> can_send_new w" "d = None" "w' = w\<lparr>sw_retransmission_queue := []\<rparr>"
proof -
  obtain d1 q cs where pop: "pop_retransmission (sw_retransmission_queue w) (sw_chunks w) = (d1, q, cs)"
    by (metis prod_cases3)
  show ?thesis
  proof (cases d1)
    case None
    from pop_retransmission_None [OF pop [unfolded None]]
    have none: "q = []" "cs = sw_chunks w"
      "\<forall>r \<in> set (sw_retransmission_queue w). \<not> wants_retransmission (chunk_at w r)"
      by (auto simp: chunk_at_def)
    then have c: "can_send_new (w\<lparr>sw_retransmission_queue := q, sw_chunks := cs\<rparr>) = can_send_new w"
      by (simp add: can_send_new_def)
    show ?thesis
    proof (cases "can_send_new w")
      case True
      show ?thesis
        by (rule fresh) (use assms pop None none c True in \<open>auto simp: select_next_packet_def Let_def\<close>)
    next
      case False
      show ?thesis
        by (rule idle) (use assms pop None none c False in \<open>auto simp: select_next_packet_def Let_def\<close>)
    qed
  next
    case (Some e)
    from pop_retransmission_Some [OF pop [unfolded Some]] obtain pre where
      e: "sw_retransmission_queue w = pre @ sequence e # q"
      "\<forall>s \<in> set pre. \<not> wants_retransmission (sw_chunks w ! unat s)"
      "wants_retransmission (sw_chunks w ! unat (sequence e))"
      "e = \<lparr>sequence = sequence e, retransmission = True,
            fast_retransmission = cs_fast_retransmit_pending (sw_chunks w ! unat (sequence e))\<rparr>"
      "cs = (sw_chunks w)[unat (sequence e) := chosen_chunk (sw_chunks w ! unat (sequence e))]"
      by blast
    show ?thesis
      by (rule resend [of pre "sequence e" q])
        (use assms pop Some e in \<open>auto simp: select_next_packet_def Let_def chunk_at_def update_chunk_def\<close>)
  qed
qed

section \<open>The invariant\<close>

lemma sw_invD:
  assumes "sw_inv w"
  shows "sw_core w" "window_ok w" "queue_ok w" "evidence_ok w"
    "unat (sw_base w) = first_gap (acked_set w)"
  using assms by (simp_all add: sw_inv_def sw_core_def)

lemma acked_after_Suc_mono: "acked_after cs n i \<le> acked_after cs (Suc n) i"
  unfolding acked_after_def by (rule card_mono) auto

lemma queue_okD:
  assumes "queue_ok w"
  shows "distinct (sw_retransmission_queue w)"
    and "s \<in> set (sw_retransmission_queue w) \<Longrightarrow> unat s < unat (sw_next_sequence w)"
    and "s \<in> set (sw_retransmission_queue w) \<Longrightarrow>
      cs_state (chunk_at w s) = ACKED \<or> wants_retransmission (chunk_at w s)"
    and "i < unat (sw_next_sequence w) \<Longrightarrow> cs_retransmit_pending (sw_chunks w ! i) \<Longrightarrow>
      cs_state (sw_chunks w ! i) = IN_FLIGHT \<and> of_nat i \<in> set (sw_retransmission_queue w)"
  using assms by (auto simp: queue_ok_def wants_retransmission_def)

text \<open>Updating one chunk without acknowledging it or changing an acknowledgement.\<close>

lemma update_chunk_sets:
  assumes ok: "window_ok w" and s: "unat s < unat (sw_next_sequence w)"
    and st: "cs_state (f (chunk_at w s)) = ACKED \<longleftrightarrow> cs_state (chunk_at w s) = ACKED"
  shows "acked_set (update_chunk s f w) = acked_set w"
    and "unacked_set (update_chunk s f w) = unacked_set w"
    and "acked_after (sw_chunks (update_chunk s f w)) n i = acked_after (sw_chunks w) n i"
    and "window_ok (update_chunk s f w)"
proof -
  note D = window_okD [OF ok]
  have *: "cs_state ((sw_chunks w)[unat s := f (sw_chunks w ! unat s)] ! i) = ACKED \<longleftrightarrow>
      cs_state (sw_chunks w ! i) = ACKED" for i
    using st s D(1,3) by (cases "i = unat s") (simp_all add: chunk_at_def)
  show "acked_set (update_chunk s f w) = acked_set w" by (simp add: acked_set_def *)
  show un: "unacked_set (update_chunk s f w) = unacked_set w" by (simp add: unacked_set_def *)
  show "acked_after (sw_chunks (update_chunk s f w)) n i = acked_after (sw_chunks w) n i"
    by (simp add: acked_after_def *)
  show "window_ok (update_chunk s f w)"
    using ok s un unfolding window_ok_def by (simp add: *)
qed

lemma mark_sent_inv:
  assumes inv: "sw_inv w" and sent: "mark_sent w s t = Inr w'"
  shows "sw_inv w'" and "acked_set w' = acked_set w" and "same_frame w w'"
    and "sw_base w' = sw_base w" and "sw_retransmission_queue w' = sw_retransmission_queue w"
    and "sw_outstanding_chunks w' = sw_outstanding_chunks w"
proof -
  let ?f = "\<lambda>c :: chunk_state. c\<lparr>cs_state := IN_FLIGHT, cs_last_sent_time := t\<rparr>"
  note I = sw_invD [OF inv]
  note D = window_okD [OF I(2)]
  from sent have s: "unat s < unat (sw_next_sequence w)" "cs_state (chunk_at w s) \<noteq> ACKED"
    and w': "w' = update_chunk s ?f w"
    by (auto simp: mark_sent_def word_le_nat_alt split: if_splits)
  have st: "cs_state (?f (chunk_at w s)) = ACKED \<longleftrightarrow> cs_state (chunk_at w s) = ACKED"
    using s by simp
  note U = update_chunk_sets [where f = ?f, OF I(2) s(1) st, folded w']
  show "acked_set w' = acked_set w" by (rule U)
  have "queue_ok w'"
    using I(3) s D(1,3) by (auto simp: queue_ok_def w' chunk_at_def nth_list_update)
  moreover have "evidence_ok w'"
    using I(4) s D(1,3) unfolding evidence_ok_def U(3)
    by (auto simp: w' nth_list_update)
  ultimately show "sw_inv w'" using U I(5) by (simp add: sw_inv_def sw_core_def) (simp add: w')
  show "same_frame w w'" "sw_base w' = sw_base w"
    "sw_retransmission_queue w' = sw_retransmission_queue w"
    "sw_outstanding_chunks w' = sw_outstanding_chunks w"
    by (simp_all add: w' same_frame_def)
qed

lemma resend_inv:
  assumes inv: "sw_inv w" and q: "sw_retransmission_queue w = pre @ s # rest"
    and pre: "\<forall>r \<in> set pre. \<not> wants_retransmission (chunk_at w r)"
    and s: "wants_retransmission (chunk_at w s)"
  shows "sw_inv ((update_chunk s chosen_chunk w)\<lparr>sw_retransmission_queue := rest\<rparr>)"
proof -
  let ?u = "update_chunk s chosen_chunk w"
  let ?w = "?u\<lparr>sw_retransmission_queue := rest\<rparr>"
  note I = sw_invD [OF inv]
  note D = window_okD [OF I(2)]
  note Q = queue_okD [OF I(3)]
  have sn: "unat s < unat (sw_next_sequence w)" using Q(2) [of s] q by simp
  note U = update_chunk_sets [where f = chosen_chunk, OF I(2) sn]
  have ch: "sw_chunks ?w ! i = (if i = unat s then chosen_chunk (sw_chunks w ! i) else sw_chunks w ! i)"
    if "i < unat (sw_next_sequence w)" for i
    using that D(1,3) by (simp add: nth_list_update)
  have acked: "cs_state (chunk_at w r) = ACKED" if "r \<in> set pre" for r
    using Q(3) [of r] pre q that by auto
  have "distinct rest" and srest: "s \<notin> set rest" using Q(1) q by auto
  moreover have "unat r < unat (sw_next_sequence w) \<and> (cs_state (chunk_at ?w r) = ACKED \<or>
       cs_state (chunk_at ?w r) = IN_FLIGHT \<and> cs_retransmit_pending (chunk_at ?w r))"
    if "r \<in> set rest" for r
  proof -
    have "r \<noteq> s" using that srest by auto
    then have "chunk_at ?w r = chunk_at w r"
      by (simp add: chunk_at_def word_unat_eq_iff)
    then show ?thesis
      using Q(2,3) [of r] that q by (simp add: wants_retransmission_def)
  qed
  moreover have "cs_state (sw_chunks ?w ! i) = IN_FLIGHT \<and> of_nat i \<in> set rest"
    if i: "i < unat (sw_next_sequence w)" and p: "cs_retransmit_pending (sw_chunks ?w ! i)" for i
  proof -
    have "i \<noteq> unat s" and p': "cs_retransmit_pending (sw_chunks w ! i)"
      using p ch [OF i] by (auto split: if_splits)
    moreover have "unat (of_nat i :: u32) = i"
      using i unat_of_nat_below [of i "sw_next_sequence w"] by simp
    ultimately have "of_nat i \<noteq> s" and "of_nat i \<notin> set pre"
      using Q(4) [OF i p'] acked [of "of_nat i"] by (auto simp: chunk_at_def)
    then show ?thesis using Q(4) [OF i p'] q ch [OF i] \<open>i \<noteq> unat s\<close> by simp
  qed
  ultimately have "queue_ok ?w" unfolding queue_ok_def by simp
  moreover have "evidence_ok ?w"
    using I(4) U(3) D(1,3) sn unfolding evidence_ok_def
    by (auto simp: nth_list_update)
  moreover have "window_ok ?w"
    using U(4) by (simp add: window_ok_def unacked_set_def)
  moreover have "acked_set ?w = acked_set w"
    using U(1) by (simp add: acked_set_def)
  ultimately show ?thesis using I(5) by (simp add: sw_inv_def sw_core_def)
qed

lemma drop_queue_inv:
  assumes inv: "sw_inv w"
    and none: "\<forall>r \<in> set (sw_retransmission_queue w). \<not> wants_retransmission (chunk_at w r)"
  shows "sw_inv (w\<lparr>sw_retransmission_queue := []\<rparr>)"
proof -
  note I = sw_invD [OF inv]
  note Q = queue_okD [OF I(3)]
  have "\<not> cs_retransmit_pending (sw_chunks w ! i)" if "i < unat (sw_next_sequence w)" for i
    using Q(4) [OF that] bspec [OF none, of "of_nat i"]
      unat_of_nat_below [of i "sw_next_sequence w"] that
    by (auto simp: wants_retransmission_def chunk_at_def)
  then show ?thesis
    using I by (simp add: sw_inv_def sw_core_def window_ok_def queue_ok_def evidence_ok_def
        acked_set_def unacked_set_def)
qed

lemma send_new_inv:
  assumes inv: "sw_inv w" and can: "can_send_new w"
  shows "sw_inv (w\<lparr>sw_next_sequence := sw_next_sequence w + 1,
              sw_outstanding_chunks := sw_outstanding_chunks w + 1\<rparr>)" (is "sw_inv ?w")
    and "unat (sw_next_sequence w + 1) = Suc (unat (sw_next_sequence w))"
proof -
  let ?n = "sw_next_sequence w" and ?k = "sw_outstanding_chunks w"
  note I = sw_invD [OF inv]
  note D = window_okD [OF I(2)]
  from can have n: "?n < sw_total_chunks w" "?k < sw_logical_window_chunks w"
    "unat ?n < unat (sw_base w) + unat (sw_sack_coverage_chunks w)"
    by (simp_all add: can_send_new_def)
  have n1: "unat (?n + 1) = Suc (unat ?n)" and k1: "unat (?k + 1) = Suc (unat ?k)"
    using unat_inc n by blast+
  show "unat (?n + 1) = Suc (unat ?n)" by (rule n1)
  have ltn: "unat ?n < unat (sw_total_chunks w)" "unat ?k < unat (sw_logical_window_chunks w)"
    using n by (simp_all add: word_less_nat_alt)
  have fresh: "sw_chunks w ! unat ?n = fresh_chunk" using D(5) [of "unat ?n"] ltn by simp
  have un: "unacked_set ?w = insert (unat ?n) (unacked_set w)"
    using fresh by (auto simp: unacked_set_def n1 less_Suc_eq fresh_chunk_def)
  have "unat ?n \<notin> unacked_set w" by (simp add: unacked_set_def)
  then have "card (unacked_set ?w) = Suc (card (unacked_set w))" by (simp add: un)
  then have "window_ok ?w"
    using D ltn n(3) unfolding window_ok_def by (simp add: n1 k1)
  moreover have "queue_ok ?w"
    using I(3) fresh unfolding queue_ok_def
    by (auto simp: n1 less_Suc_eq fresh_chunk_def chunk_at_def)
  moreover have "evidence_ok ?w"
    using I(4) fresh acked_after_Suc_mono [of "sw_chunks w" "unat ?n"] unfolding evidence_ok_def
    by (auto simp: n1 less_Suc_eq fresh_chunk_def intro: order_trans)
  ultimately show "sw_inv ?w" using I(5) by (simp add: sw_inv_def sw_core_def acked_set_def)
qed

text \<open>Everything a caller learns from a call of \<^verbatim>\<open>select_next_packet\<close>.\<close>

lemma select_inv:
  assumes inv: "sw_inv w" and sel: "select_next_packet w = (d, w')"
  shows "sw_inv w'" and "acked_set w' = acked_set w" and "sw_base w' = sw_base w"
    and "sw_total_chunks w' = sw_total_chunks w"
    and "sw_logical_window_chunks w' = sw_logical_window_chunks w"
    and "sw_sack_coverage_chunks w' = sw_sack_coverage_chunks w"
    and "unat (sw_next_sequence w) \<le> unat (sw_next_sequence w')"
proof -
  have 1: "sw_inv w'"
    using sel
  proof (cases rule: select_cases)
    case (resend pre s rest)
    then show ?thesis using resend_inv [OF inv] by simp
  next
    case fresh
    have "can_send_new (w\<lparr>sw_retransmission_queue := []\<rparr>)"
      using fresh(2) by (simp add: can_send_new_def)
    from send_new_inv(1) [OF drop_queue_inv [OF inv fresh(1)] this] show ?thesis
      using fresh(4) by simp
  next
    case idle
    then show ?thesis using drop_queue_inv [OF inv] by simp
  qed
  show "sw_inv w'" by (rule 1)
  show "acked_set w' = acked_set w"
    using sel
  proof (cases rule: select_cases)
    case (resend pre s rest)
    have "unat s < unat (sw_next_sequence w)"
      using queue_okD(2) [OF sw_invD(3) [OF inv], of s] resend by simp
    from update_chunk_sets(1) [OF sw_invD(2) [OF inv] this, of chosen_chunk] show ?thesis
      using resend by (simp add: acked_set_def)
  qed (simp_all add: acked_set_def)
  show "sw_base w' = sw_base w" "sw_total_chunks w' = sw_total_chunks w"
    "sw_logical_window_chunks w' = sw_logical_window_chunks w"
    "sw_sack_coverage_chunks w' = sw_sack_coverage_chunks w"
    using sel by (cases rule: select_cases; simp)+
  show "unat (sw_next_sequence w) \<le> unat (sw_next_sequence w')"
    using sel send_new_inv(2) [OF inv] by (cases rule: select_cases) simp_all
qed

end
