(* ===== verification/Sender_Contract.thy ===== *)
theory Sender_Contract
  imports Sender_Selection
begin

text \<open>
  The behaviour of \<^verbatim>\<open>SenderWindow\<close> as its client sees it: the windows that can be reached by calls
  of its public operations, the contract those operations satisfy (locale \<open>send_window\<close>), and the
  properties of each operation.
\<close>

section \<open>Calls and reachable windows\<close>

datatype sender_call =
    Select
  | Mark_sent u32 time_ns
  | Process_ack ack_payload time_ns
  | Check_timeouts time_ns time_ns

text \<open>One call; a call that throws leaves the window as it is.\<close>

fun perform :: "sender_call \<Rightarrow> sender_window \<Rightarrow> sender_window" where
  "perform Select w = snd (select_next_packet w)"
| "perform (Mark_sent s t) w = (case mark_sent w s t of Inl _ \<Rightarrow> w | Inr w' \<Rightarrow> w')"
| "perform (Process_ack ack now) w = process_ack w ack now"
| "perform (Check_timeouts now rto) w = check_timeouts w now rto"

inductive sender_reachable :: "u32 \<Rightarrow> u32 \<Rightarrow> u32 \<Rightarrow> time_ns \<Rightarrow> sender_window \<Rightarrow> bool"
  for n l c :: u32 and t0 :: time_ns
where
  created: "make_sender_window n l c t0 = Inr w \<Longrightarrow> sender_reachable n l c t0 w"
| called: "sender_reachable n l c t0 w \<Longrightarrow> sender_reachable n l c t0 (perform call w)"

lemma perform_cases:
  obtains (Select) d where "select_next_packet w = (d, perform call w)"
  | (Mark_sent) s t where "mark_sent w s t = Inr (perform call w)"
  | (Process_ack) a now where "perform call w = process_ack w a now"
  | (Check_timeouts) now rto where "perform call w = check_timeouts w now rto"
  | (Thrown) s t e where "mark_sent w s t = Inl e" "perform call w = w"
proof (cases call)
  case Select
  then show ?thesis using that(1) [of "fst (select_next_packet w)"] by simp
next
  case (Mark_sent s t)
  then show ?thesis using that(2) [of s t] that(5) [of s t] by (cases "mark_sent w s t") simp_all
next
  case (Process_ack a now)
  then show ?thesis using that(3) by simp
next
  case (Check_timeouts now rto)
  then show ?thesis using that(4) by simp
qed

lemma perform_inv:
  assumes inv: "sw_inv w"
  shows "sw_inv (perform call w)"
    and "sw_total_chunks (perform call w) = sw_total_chunks w"
    and "sw_logical_window_chunks (perform call w) = sw_logical_window_chunks w"
    and "sw_sack_coverage_chunks (perform call w) = sw_sack_coverage_chunks w"
    and "acked_set w \<subseteq> acked_set (perform call w)"
    and "unat (sw_next_sequence w) \<le> unat (sw_next_sequence (perform call w))"
proof -
  have "sw_inv (perform call w) \<and> sw_total_chunks (perform call w) = sw_total_chunks w \<and>
    sw_logical_window_chunks (perform call w) = sw_logical_window_chunks w \<and>
    sw_sack_coverage_chunks (perform call w) = sw_sack_coverage_chunks w \<and>
    acked_set w \<subseteq> acked_set (perform call w) \<and>
    unat (sw_next_sequence w) \<le> unat (sw_next_sequence (perform call w))"
  proof (cases rule: perform_cases [where call = call and w = w])
    case (Select d)
    note select_inv [OF inv Select]
    then show ?thesis by simp
  next
    case (Mark_sent s t)
    note mark_sent_inv [OF inv Mark_sent]
    then show ?thesis by (simp add: same_frame_def)
  next
    case (Process_ack a now)
    note process_ack_inv [OF inv, of a now]
    then show ?thesis unfolding Process_ack by (simp add: same_frame_def)
  next
    case (Check_timeouts now rto)
    note check_timeouts_inv [OF inv, of now rto]
    then show ?thesis unfolding Check_timeouts by (simp add: same_frame_def)
  qed (use inv in simp)
  then show "sw_inv (perform call w)"
    "sw_total_chunks (perform call w) = sw_total_chunks w"
    "sw_logical_window_chunks (perform call w) = sw_logical_window_chunks w"
    "sw_sack_coverage_chunks (perform call w) = sw_sack_coverage_chunks w"
    "acked_set w \<subseteq> acked_set (perform call w)"
    "unat (sw_next_sequence w) \<le> unat (sw_next_sequence (perform call w))" by blast+
qed

lemma reachable_inv:
  "sender_reachable n l c t0 w \<Longrightarrow>
     sw_inv w \<and> sw_total_chunks w = n \<and> sw_logical_window_chunks w = l \<and>
     sw_sack_coverage_chunks w = c"
proof (induction rule: sender_reachable.induct)
  case (created w)
  then show ?case
    using make_sender_window_inv(1) [OF created]
    by (auto simp: make_sender_window_def split: if_splits)
next
  case (called w call)
  then show ?case using perform_inv [of w call] by simp
qed

lemma all_acked_iff:
  assumes "sw_inv w"
  shows "all_acked w \<longleftrightarrow> acked_set w = {..<unat (sw_total_chunks w)}"
proof
  note I = sw_invD [OF assms]
  have sub: "acked_set w \<subseteq> {..<unat (sw_total_chunks w)}" by (auto simp: acked_set_def)
  show "acked_set w = {..<unat (sw_total_chunks w)}" if "all_acked w"
    using that sub I(5) below_first_gap [of _ "acked_set w"] by (auto simp: all_acked_def)
  show "all_acked w" if "acked_set w = {..<unat (sw_total_chunks w)}"
    using that I(5) first_gap_eqI [of "unat (sw_total_chunks w)" "acked_set w"]
    by (simp add: all_acked_def word_unat_eq_iff)
qed

section \<open>The contract of a send window\<close>

text \<open>
  What the transfer relies on, in terms of the set of acknowledged chunk numbers: which chunks are
  acknowledged after each operation, which packet may be chosen, and when the window is finished.
\<close>

locale send_window =
  fixes inv :: "'w \<Rightarrow> bool"
    and acked :: "'w \<Rightarrow> nat set"
    and sent :: "'w \<Rightarrow> nat"
    and total :: "'w \<Rightarrow> nat"
    and select :: "'w \<Rightarrow> send_decision option \<times> 'w"
    and mark :: "'w \<Rightarrow> u32 \<Rightarrow> time_ns \<Rightarrow> frft_error + 'w"
    and ack :: "'w \<Rightarrow> ack_payload \<Rightarrow> time_ns \<Rightarrow> 'w"
    and timeouts :: "'w \<Rightarrow> time_ns \<Rightarrow> time_ns \<Rightarrow> 'w"
    and finished :: "'w \<Rightarrow> bool"
  assumes acked_bound: "inv w \<Longrightarrow> acked w \<subseteq> {..<sent w}"
    and sent_bound: "inv w \<Longrightarrow> sent w \<le> total w"
    and finished_iff: "inv w \<Longrightarrow> finished w \<longleftrightarrow> acked w = {..<total w}"
    and inv_select: "inv w \<Longrightarrow> select w = (choice, w') \<Longrightarrow>
      inv w' \<and> acked w' = acked w \<and> total w' = total w \<and> sent w \<le> sent w'"
    and select_sequence: "inv w \<Longrightarrow> select w = (Some d, w') \<Longrightarrow>
      unat (sequence d) < sent w' \<and> unat (sequence d) \<notin> acked w' \<and>
      (\<exists>w''. mark w' (sequence d) t = Inr w'')"
    and inv_mark: "inv w \<Longrightarrow> mark w s t = Inr w' \<Longrightarrow>
      inv w' \<and> acked w' = acked w \<and> total w' = total w \<and> sent w' = sent w"
    and inv_ack: "inv w \<Longrightarrow> inv (ack w a t) \<and> total (ack w a t) = total w \<and>
      sent (ack w a t) = sent w \<and>
      acked (ack w a t) = acked w \<union> {i. i < sent w \<and> acknowledges a i}"
    and inv_timeouts: "inv w \<Longrightarrow> inv (timeouts w t r) \<and> total (timeouts w t r) = total w \<and>
      sent (timeouts w t r) = sent w \<and> acked (timeouts w t r) = acked w"
begin

text \<open>Acknowledgements are only believed about chunks that were sent; sound ones stay sound.\<close>

lemma ack_sound:
  assumes "inv w" and "acked w \<subseteq> R" and "\<And>i. acknowledges a i \<Longrightarrow> i < sent w \<Longrightarrow> i \<in> R"
  shows "acked (ack w a t) \<subseteq> R"
  using assms inv_ack [OF assms(1), of a t] by auto

lemma acks_run:
  assumes "inv w"
  shows "inv (fold (\<lambda>(a, t) w. ack w a t) as w) \<and>
    total (fold (\<lambda>(a, t) w. ack w a t) as w) = total w \<and>
    sent (fold (\<lambda>(a, t) w. ack w a t) as w) = sent w \<and>
    acked (fold (\<lambda>(a, t) w. ack w a t) as w) =
      acked w \<union> {i. i < sent w \<and> (\<exists>a \<in> fst ` set as. acknowledges a i)}"
  using assms by (induction as arbitrary: w) (force simp: inv_ack)+

lemma acks_order_irrelevant:
  assumes "inv w" and "fst ` set as = fst ` set bs"
  shows "acked (fold (\<lambda>(a, t) w. ack w a t) as w) = acked (fold (\<lambda>(a, t) w. ack w a t) bs w)"
  using assms by (simp only: acks_run)

lemma finished_all:
  "inv w \<Longrightarrow> finished w \<Longrightarrow> acked w \<subseteq> R \<Longrightarrow> {..<total w} \<subseteq> R \<and> sent w = total w"
  using finished_iff acked_bound sent_bound by (metis le_antisym lessThan_subset_iff)

end

lemma select_sequence_facts:
  assumes inv: "sw_inv w" and sel: "select_next_packet w = (Some d, w')"
  shows "unat (sequence d) < unat (sw_next_sequence w')"
    and "cs_state (chunk_at w' (sequence d)) \<noteq> ACKED"
    and "retransmission d \<Longrightarrow> wants_retransmission (chunk_at w (sequence d)) \<and>
      chunk_at w' (sequence d) = chosen_chunk (chunk_at w (sequence d)) \<and>
      sequence d \<in> set (sw_retransmission_queue w) \<and>
      sequence d \<notin> set (sw_retransmission_queue w')"
    and "\<not> retransmission d \<Longrightarrow> sequence d = sw_next_sequence w \<and>
      chunk_at w' (sequence d) = fresh_chunk"
proof -
  note I = sw_invD [OF inv]
  note D = window_okD [OF I(2)]
  have "unat (sequence d) < unat (sw_next_sequence w') \<and>
    cs_state (chunk_at w' (sequence d)) \<noteq> ACKED \<and>
    (retransmission d \<longrightarrow> wants_retransmission (chunk_at w (sequence d)) \<and>
      chunk_at w' (sequence d) = chosen_chunk (chunk_at w (sequence d)) \<and>
      sequence d \<in> set (sw_retransmission_queue w) \<and>
      sequence d \<notin> set (sw_retransmission_queue w')) \<and>
    (\<not> retransmission d \<longrightarrow> sequence d = sw_next_sequence w \<and>
      chunk_at w' (sequence d) = fresh_chunk)"
    using sel
  proof (cases rule: select_cases)
    case (resend pre s rest)
    then have s: "unat s < unat (sw_next_sequence w)"
      using queue_okD(2) [OF I(3), of s] by simp
    with D(1,3) have "unat s < length (sw_chunks w)" by simp
    then show ?thesis
      using resend s queue_okD(1) [OF I(3)] by (auto simp: chunk_at_def wants_retransmission_def)
  next
    case fresh
    then have "unat (sw_next_sequence w) < unat (sw_total_chunks w)"
      by (simp add: can_send_new_def word_less_nat_alt)
    then show ?thesis
      using fresh send_new_inv(2) [OF inv fresh(2)] D(5) [of "unat (sw_next_sequence w)"]
      by (simp add: chunk_at_def fresh_chunk_def)
  qed simp
  then show "unat (sequence d) < unat (sw_next_sequence w')"
    "cs_state (chunk_at w' (sequence d)) \<noteq> ACKED"
    "retransmission d \<Longrightarrow> wants_retransmission (chunk_at w (sequence d)) \<and>
      chunk_at w' (sequence d) = chosen_chunk (chunk_at w (sequence d)) \<and>
      sequence d \<in> set (sw_retransmission_queue w) \<and>
      sequence d \<notin> set (sw_retransmission_queue w')"
    "\<not> retransmission d \<Longrightarrow> sequence d = sw_next_sequence w \<and>
      chunk_at w' (sequence d) = fresh_chunk" by blast+
qed

interpretation sw: send_window sw_inv acked_set "\<lambda>w. unat (sw_next_sequence w)"
  "\<lambda>w. unat (sw_total_chunks w)" select_next_packet mark_sent process_ack check_timeouts all_acked
proof
  fix w w' :: sender_window and d :: send_decision and choice :: "send_decision option"
    and s :: u32 and a :: ack_payload and t r :: time_ns
  assume inv: "sw_inv w"
  show "acked_set w \<subseteq> {..<unat (sw_next_sequence w)}"
    by (rule acked_set_bound [OF sw_invD(2) [OF inv]])
  show "unat (sw_next_sequence w) \<le> unat (sw_total_chunks w)"
    by (rule window_okD(3) [OF sw_invD(2) [OF inv]])
  show "all_acked w \<longleftrightarrow> acked_set w = {..<unat (sw_total_chunks w)}"
    by (rule all_acked_iff [OF inv])
  show "sw_inv w' \<and> acked_set w' = acked_set w \<and> unat (sw_total_chunks w') = unat (sw_total_chunks w) \<and>
      unat (sw_next_sequence w) \<le> unat (sw_next_sequence w')"
    if "select_next_packet w = (choice, w')"
    using select_inv [OF inv that] by simp
  show "unat (sequence d) < unat (sw_next_sequence w') \<and> unat (sequence d) \<notin> acked_set w' \<and>
      (\<exists>w''. mark_sent w' (sequence d) t = Inr w'')"
    if "select_next_packet w = (Some d, w')"
    using select_sequence_facts(1,2) [OF inv that]
    by (auto simp: acked_set_def chunk_at_def mark_sent_def word_le_nat_alt)
  show "sw_inv w' \<and> acked_set w' = acked_set w \<and> unat (sw_total_chunks w') = unat (sw_total_chunks w) \<and>
      unat (sw_next_sequence w') = unat (sw_next_sequence w)"
    if "mark_sent w s t = Inr w'"
    using mark_sent_inv [OF inv that] by (simp add: same_frame_def)
  show "sw_inv (process_ack w a t) \<and>
      unat (sw_total_chunks (process_ack w a t)) = unat (sw_total_chunks w) \<and>
      unat (sw_next_sequence (process_ack w a t)) = unat (sw_next_sequence w) \<and>
      acked_set (process_ack w a t) =
        acked_set w \<union> {i. i < unat (sw_next_sequence w) \<and> acknowledges a i}"
    using process_ack_inv [OF inv, of a t] by (simp add: same_frame_def)
  show "sw_inv (check_timeouts w t r) \<and>
      unat (sw_total_chunks (check_timeouts w t r)) = unat (sw_total_chunks w) \<and>
      unat (sw_next_sequence (check_timeouts w t r)) = unat (sw_next_sequence w) \<and>
      acked_set (check_timeouts w t r) = acked_set w"
    using check_timeouts_inv [OF inv, of t r] by (simp add: same_frame_def)
qed

end
