(* ===== verification/Sender_Properties.thy ===== *)
theory Sender_Properties
  imports Sender_Contract
begin

text \<open>
  The properties of \<^verbatim>\<open>SenderWindow\<close>: window and memory bounds, ACK processing, fast retransmission,
  timeouts, the choice of the next packet, progress, and the stall statistics.
\<close>

section \<open>What an ACK does to each chunk\<close>

text \<open>Acknowledging leaves a chunk as it is or makes it \<open>ACKED\<close>, and touches no statistics.\<close>

definition spares :: "sender_window \<Rightarrow> sender_window \<Rightarrow> bool" where
  "spares w w' \<longleftrightarrow>
     length (sw_chunks w') = length (sw_chunks w) \<and>
     (\<forall>i < length (sw_chunks w). sw_chunks w' ! i = sw_chunks w ! i \<or>
        cs_state (sw_chunks w' ! i) = ACKED) \<and>
     sw_retransmission_queue w' = sw_retransmission_queue w \<and>
     sw_last_base_advance_time w' = sw_last_base_advance_time w \<and>
     sw_base_advancement_events w' = sw_base_advancement_events w \<and>
     sw_total_base_stall_time w' = sw_total_base_stall_time w \<and>
     sw_longest_base_stall_time w' = sw_longest_base_stall_time w"

lemma spares_refl: "spares w w"
  by (simp add: spares_def)

lemma spares_trans: "spares u v \<Longrightarrow> spares v w \<Longrightarrow> spares u w"
  by (fastforce simp: spares_def)

lemma update_chunk_stall [simp]:
  "sw_last_base_advance_time (update_chunk s f w) = sw_last_base_advance_time w"
  "sw_base_advancement_events (update_chunk s f w) = sw_base_advancement_events w"
  "sw_total_base_stall_time (update_chunk s f w) = sw_total_base_stall_time w"
  "sw_longest_base_stall_time (update_chunk s f w) = sw_longest_base_stall_time w"
  by (simp_all add: update_chunk_def)

lemma spares_mark_acked: "spares w (mark_acked s w)"
proof (cases rule: mark_acked_cases [where s = s and w = w])
  case ack
  have *: "(sw_chunks w)[unat s := c] ! i = (if i = unat s then c else sw_chunks w ! i)"
    if "i < length (sw_chunks w)" for i c
    using that by (cases "i = unat s") simp_all
  show ?thesis by (auto simp: ack(4) spares_def *)
qed (simp add: spares_refl)

lemma spares_fold: "spares w (fold mark_acked ss w)"
  by (induction ss arbitrary: w)
    (auto intro: spares_refl spares_trans [OF spares_mark_acked])

lemma spares_ack_phase: "spares w (ack_bitmap ack (ack_prefix ack w))"
  unfolding ack_bitmap_eq ack_prefix_eq by (intro spares_trans [OF spares_fold spares_fold])

lemma sweep_stall [simp]:
  "sw_last_base_advance_time (sweep u e is w) = sw_last_base_advance_time w"
  "sw_base_advancement_events (sweep u e is w) = sw_base_advancement_events w"
  "sw_total_base_stall_time (sweep u e is w) = sw_total_base_stall_time w"
  "sw_longest_base_stall_time (sweep u e is w) = sw_longest_base_stall_time w"
  by (simp_all add: sweep_def)

lemma process_ack_phases:
  fixes w :: sender_window and a :: ack_payload and now :: time_ns
  assumes inv: "sw_inv w"
  defines "p \<equiv> ack_bitmap a (ack_prefix a w)"
  shows "process_ack w a now = evidence_sweep now (advance_base now p)"
    and "sw_inv (advance_base now p)"
    and "acked_set (advance_base now p) = acked_set (process_ack w a now)"
proof -
  note A = ack_phase [OF sw_invD(1) [OF inv], of a, folded p_def]
  note B = advance_base_inv [OF A(1), of now]
  show 1: "process_ack w a now = evidence_sweep now (advance_base now p)"
    by (simp add: process_ack_def p_def [symmetric] evidence_loop_sweep [OF sw_invD(2) [OF B(1)]])
  show "sw_inv (advance_base now p)" by (rule B(1))
  show "acked_set (advance_base now p) = acked_set (process_ack w a now)"
    unfolding 1 evidence_sweep_def
    by (rule sweep_acked(1) [symmetric, OF evidence_sweep_ok [OF sw_invD(1) [OF B(1)]] sw_invD(2) [OF B(1)]])
qed

lemma acked_after_set:
  assumes "window_ok w"
  shows "acked_after (sw_chunks w) (unat (sw_next_sequence w)) i = card {j \<in> acked_set w. i < j}"
  unfolding acked_after_def
  by (rule arg_cong [where f = card])
    (use acked_set_bound [OF assms] window_okD(3) [OF assms] in \<open>auto simp: acked_set_def\<close>)

lemma process_ack_chunk:
  fixes w :: sender_window and a :: ack_payload and now :: time_ns
  assumes inv: "sw_inv w" and i: "i < unat (sw_next_sequence w)"
  defines "w' \<equiv> process_ack w a now"
  assumes un: "i \<notin> acked_set w'"
  shows "unat (later_acks w' i) = card {j \<in> acked_set w'. i < j}"
    and "sw_chunks w' ! i = evidence_chunk now (later_acks w' i) (sw_chunks w ! i)"
    and "of_nat i \<in> set (sw_retransmission_queue w') \<longleftrightarrow>
      of_nat i \<in> set (sw_retransmission_queue w) \<or> fires now (later_acks w' i) (sw_chunks w ! i)"
proof -
  define p where "p = ack_bitmap a (ack_prefix a w)"
  define q where "q = advance_base now p"
  note P = process_ack_phases [where a = a and now = now, OF inv, folded p_def w'_def, folded q_def]
  have sp: "spares w p" and sf: "same_frame w p"
    unfolding p_def by (rule spares_ack_phase, rule ack_phase(2) [OF sw_invD(1) [OF inv]])
  note Iq = sw_invD [OF P(2)]
  note D = window_okD [OF sw_invD(2) [OF inv]]
  have inv': "sw_inv w'" unfolding w'_def by (rule process_ack_inv(1) [OF inv])
  have fr: "sw_next_sequence q = sw_next_sequence w" "sw_total_chunks q = sw_total_chunks w"
    "sw_next_sequence w' = sw_next_sequence w"
    using sf by (simp_all add: q_def P(1) evidence_sweep_def same_frame_def)
  note S = evidence_sweep_ok [OF Iq(1), of now]
  have later: "later_acks w' i = later_acks q i" for i
    using acked_after_set [OF sw_invD(2) [OF inv']] acked_after_set [OF Iq(2)] P(3) fr
    by (simp add: later_acks_def)
  show "unat (later_acks w' i) = card {j \<in> acked_set w'. i < j}"
    using acked_after_set [OF sw_invD(2) [OF inv'], of i] by (simp add: unat_later_acks)
  have len: "length (sw_chunks q) = unat (sw_total_chunks w)"
    using window_okD(1) [OF Iq(2)] fr by simp
  have ch: "sw_chunks q ! i = sw_chunks w ! i"
  proof -
    have it: "i < unat (sw_total_chunks w)" using i D(3) by simp
    have "i \<notin> acked_set q" using un P(3) by simp
    then have "cs_state (sw_chunks q ! i) \<noteq> ACKED"
      using it fr(2) by (simp add: acked_set_def)
    then show ?thesis using sp it D(1) by (auto simp: q_def spares_def)
  qed
  have base: "unat (sw_base q) \<le> i"
    using un P(3) Iq(5) below_first_gap [of i "acked_set q"] by (auto simp: not_less [symmetric])
  have ii: "i \<in> set (rev [unat (sw_base q)..<unat (sw_next_sequence q)])"
    using base i fr by simp
  show "sw_chunks w' ! i = evidence_chunk now (later_acks w' i) (sw_chunks w ! i)"
  proof -
    have "i < length (sw_chunks q)" using len i D(3) by simp
    from sweep_simps(8) [OF this, of "\<lambda>i. evidence_chunk now (later_acks q i)"
        "\<lambda>i. fires now (later_acks q i)" "rev [unat (sw_base q)..<unat (sw_next_sequence q)]"]
    show ?thesis unfolding later using ii by (simp only: P(1) evidence_sweep_def ch if_True)
  qed
  have queue: "sw_retransmission_queue q = sw_retransmission_queue w"
    using sp by (simp add: q_def spares_def)
  have *: "of_nat i \<in> (of_nat :: nat \<Rightarrow> u32) `
      set (filter (\<lambda>i. fires now (later_acks q i) (sw_chunks q ! i))
        (rev [unat (sw_base q)..<unat (sw_next_sequence q)])) \<longleftrightarrow>
      fires now (later_acks q i) (sw_chunks q ! i)"
    using ii fr i by (auto simp: of_nat_inj_below [of _ "sw_next_sequence w"])
  show "of_nat i \<in> set (sw_retransmission_queue w') \<longleftrightarrow>
      of_nat i \<in> set (sw_retransmission_queue w) \<or> fires now (later_acks w' i) (sw_chunks w ! i)"
    unfolding later by (simp only: P(1) evidence_sweep_def sweep_simps(9) set_append set_map Un_iff * queue ch)
qed

section \<open>States, pending flags and statistics\<close>

lemma evidence_chunk_simps:
  "cs_retransmit_pending (evidence_chunk now l c) \<longleftrightarrow> cs_retransmit_pending c \<or> fires now l c"
  "cs_state c = IN_FLIGHT \<Longrightarrow> cs_latest_later_acked (evidence_chunk now l c) = l"
  by (auto simp: evidence_chunk_def fires_def)

lemma fires_iff:
  "fires now k c \<longleftrightarrow> cs_state c = IN_FLIGHT \<and> \<not> cs_retransmit_pending c \<and>
     unat (cs_latest_later_acked c) < unat k \<and> unat (cs_retransmit_evidence c) + 3 \<le> unat k \<and>
     (\<not> cs_fast_retransmitted c \<or> ms 250 \<le> now - cs_last_sent_time c)"
proof -
  have "cs_retransmit_evidence c \<le> k \<and> kFastRetransmitThreshold \<le> k - cs_retransmit_evidence c \<longleftrightarrow>
      unat (cs_retransmit_evidence c) + 3 \<le> unat k"
    by (auto simp: word_le_nat_alt unat_sub kFastRetransmitThreshold_def)
  moreover have "kRepeatedFastRetransmitDelay = ms 250"
    by (simp add: kRepeatedFastRetransmitDelay_def kDefaultRtoMs_def)
  ultimately show ?thesis by (auto simp: fires_def word_less_nat_alt)
qed

lemma retransmit_pending_of_nat:
  assumes "window_ok w" and "i < unat (sw_next_sequence w)"
  shows "retransmit_pending w (of_nat i) = cs_retransmit_pending (sw_chunks w ! i)"
proof -
  have "unat (of_nat i :: u32) = i" using assms(2) unat_of_nat_below [of i "sw_next_sequence w"] by simp
  then show ?thesis
    using assms(2) window_okD(3) [OF assms(1)]
    by (simp add: retransmit_pending_def chunk_at_def word_le_nat_alt)
qed

lemma process_ack_state:
  assumes inv: "sw_inv w" and i: "i < unat (sw_total_chunks w)"
  shows "cs_state (sw_chunks (process_ack w a now) ! i) =
    (if i \<in> acked_set (process_ack w a now) then ACKED else cs_state (sw_chunks w ! i))"
proof -
  let ?w = "process_ack w a now"
  note P = process_ack_inv [OF inv, of a now]
  note I' = sw_invD [OF P(1)]
  have fr: "sw_total_chunks ?w = sw_total_chunks w" "sw_next_sequence ?w = sw_next_sequence w"
    using P(2) by (simp_all add: same_frame_def)
  show ?thesis
  proof (cases "i \<in> acked_set ?w")
    case True
    then show ?thesis by (simp add: acked_set_def)
  next
    case False
    show ?thesis
    proof (cases "i < unat (sw_next_sequence w)")
      case True
      with False show ?thesis using process_ack_chunk(2) [OF inv True] by simp
    next
      case False
      then have "sw_chunks ?w ! i = fresh_chunk" "sw_chunks w ! i = fresh_chunk"
        using window_okD(5) [OF I'(2), of i] window_okD(5) [OF sw_invD(2) [OF inv], of i] i fr by simp_all
      with \<open>i \<notin> acked_set ?w\<close> show ?thesis by simp
    qed
  qed
qed

lemma check_timeouts_chunk:
  assumes inv: "sw_inv w" and i: "i < unat (sw_total_chunks w)"
  shows "sw_chunks (check_timeouts w now rto) ! i =
      (if unat (sw_base w) \<le> i \<and> i < unat (sw_next_sequence w)
       then timeout_chunk now rto (sw_chunks w ! i) else sw_chunks w ! i)"
  using i window_okD(1) [OF sw_invD(2) [OF inv]]
  by (simp add: check_timeouts_sweep [OF sw_invD(2) [OF inv]])

lemma mark_sent_chunk:
  "mark_sent w s t = Inr w' \<Longrightarrow>
     sw_chunks w' = (sw_chunks w)[unat s := (chunk_at w s)\<lparr>cs_state := IN_FLIGHT, cs_last_sent_time := t\<rparr>] \<and>
     cs_state (chunk_at w s) \<noteq> ACKED"
  by (auto simp: mark_sent_def chunk_at_def split: if_splits)

lemma below_acked: "cs_state c \<noteq> ACKED \<Longrightarrow> cs_state c \<le> IN_FLIGHT"
  by (cases "cs_state c") (simp_all add: less_eq_packet_state_def)

lemma perform_state_mono:
  assumes inv: "sw_inv w" and i: "i < unat (sw_total_chunks w)"
  shows "cs_state (sw_chunks w ! i) \<le> cs_state (sw_chunks (perform call w) ! i)"
proof (cases rule: perform_cases [where call = call and w = w])
  case (Select d)
  note len = window_okD(1) [OF sw_invD(2) [OF inv]]
  from Select show ?thesis
  proof (cases rule: select_cases)
    case (resend pre s rest)
    then have "cs_state (sw_chunks (perform call w) ! i) = cs_state (sw_chunks w ! i)"
      using i len by (cases "i = unat s") simp_all
    then show ?thesis by simp
  qed simp_all
next
  case (Mark_sent s t)
  then show ?thesis
    using mark_sent_chunk [OF Mark_sent] below_acked i window_okD(1) [OF sw_invD(2) [OF inv]]
    by (cases "i = unat s") (auto simp: chunk_at_def)
next
  case (Process_ack a now)
  then show ?thesis
    using process_ack_state [OF inv i, of a now]
    by (cases "cs_state (sw_chunks w ! i)") (auto simp: less_eq_packet_state_def)
next
  case (Check_timeouts now rto)
  then show ?thesis using check_timeouts_chunk [OF inv i, of now rto] by (simp add: timeout_chunk_def)
qed simp

section \<open>ACKs that bring nothing new\<close>

lemma mark_acked_again:
  "unat s \<in> acked_set w \<Longrightarrow> mark_acked s w = w"
  by (cases rule: mark_acked_cases [where s = s and w = w]) (auto simp: acked_set_def)

lemma fold_mark_acked_again:
  "(\<And>s. s \<in> set ss \<Longrightarrow> unat s \<in> acked_set w) \<Longrightarrow> fold mark_acked ss w = w"
  by (induction ss) (simp_all add: mark_acked_again)

lemma ack_phase_again:
  assumes "\<And>i. i < unat (sw_next_sequence w) \<Longrightarrow> acknowledges b i \<Longrightarrow> i \<in> acked_set w"
  shows "ack_bitmap b (ack_prefix b w) = w"
proof -
  have u: "unat (of_nat i :: u32) = i" if "i < unat (sw_next_sequence w)" for i
    using that unat_of_nat_below [of i "sw_next_sequence w"] by simp
  have "ack_prefix b w = w"
    unfolding ack_prefix_eq
    by (rule fold_mark_acked_again) (use assms u in \<open>auto simp: acknowledges_def\<close>)
  moreover have "ack_bitmap b w = w"
    unfolding ack_bitmap_eq
    by (rule fold_mark_acked_again)
      (use assms u in \<open>auto simp: bitmap_hits_set acknowledges_def\<close>)
  ultimately show ?thesis by simp
qed

lemma advance_base_again:
  assumes "sw_inv w"
  shows "advance_base now w = w"
proof -
  note I = sw_invD [OF assms]
  have "skip_acked (sw_chunks w) (sw_total_chunks w) (sw_base w) = sw_base w"
    using skip_acked_first_gap [OF I(2)] I(5) by (simp add: word_unat_eq_iff)
  then show ?thesis by (simp add: advance_base_def)
qed

lemma sweep_id:
  assumes "\<And>i. i \<in> set is \<Longrightarrow> i < length (sw_chunks w) \<Longrightarrow> u i (sw_chunks w ! i) = sw_chunks w ! i"
    and "\<And>i. i \<in> set is \<Longrightarrow> \<not> e i (sw_chunks w ! i)"
  shows "sweep u e is w = w"
proof -
  have "map (\<lambda>i. if i \<in> set is then u i (sw_chunks w ! i) else sw_chunks w ! i)
      [0..<length (sw_chunks w)] = sw_chunks w"
    by (rule nth_equalityI) (use assms(1) in auto)
  moreover have "filter (\<lambda>i. e i (sw_chunks w ! i)) is = []"
    using assms(2) by (simp add: filter_empty_conv)
  ultimately show ?thesis by (simp add: sweep_def)
qed

lemma evidence_chunk_again:
  "evidence_chunk t' l (evidence_chunk t l c) = evidence_chunk t l c"
  "\<not> fires t' l (evidence_chunk t l c)"
  by (auto simp: evidence_chunk_def fires_def)

lemma evidence_chunk_acked: "cs_state c = ACKED \<Longrightarrow> evidence_chunk t l c = c \<and> \<not> fires t l c"
  by (simp add: evidence_chunk_def fires_def)

lemma process_ack_stale:
  fixes w :: sender_window and a b :: ack_payload and t t' :: time_ns
  assumes inv: "sw_inv w"
  defines "w' \<equiv> process_ack w a t"
  assumes stale: "\<And>i. i < unat (sw_next_sequence w') \<Longrightarrow> acknowledges b i \<Longrightarrow> i \<in> acked_set w'"
  shows "process_ack w' b t' = w'"
proof -
  have inv': "sw_inv w'" unfolding w'_def by (rule process_ack_inv(1) [OF inv])
  have n: "sw_next_sequence w' = sw_next_sequence w"
    using process_ack_inv(2) [OF inv, of a t] by (simp add: w'_def same_frame_def)
  have *: "evidence_chunk t' (later_acks w' i) (sw_chunks w' ! i) = sw_chunks w' ! i \<and>
      \<not> fires t' (later_acks w' i) (sw_chunks w' ! i)"
    if "i < unat (sw_next_sequence w')" for i
  proof (cases "i \<in> acked_set w'")
    case True
    then show ?thesis by (intro evidence_chunk_acked) (simp add: acked_set_def)
  next
    case False
    have "sw_chunks w' ! i = evidence_chunk t (later_acks w' i) (sw_chunks w ! i)"
      using process_ack_chunk(2) [of w i a t] inv that n False unfolding w'_def by simp
    then show ?thesis by (simp only: evidence_chunk_again simp_thms)
  qed
  have "evidence_sweep t' w' = w'"
    unfolding evidence_sweep_def by (rule sweep_id) (use * in auto)
  then show ?thesis
    by (simp add: process_ack_def ack_phase_again [of w' b] stale advance_base_again [OF inv']
        evidence_loop_sweep [OF sw_invD(2) [OF inv']])
qed

section \<open>Statistics and progress\<close>

definition stall_ok :: "time_ns \<Rightarrow> sender_window \<Rightarrow> bool" where
  "stall_ok t0 w \<longleftrightarrow>
     sw_last_base_advance_time w = t0 + sw_total_base_stall_time w \<and>
     unat (sw_base_advancement_events w) \<le> unat (sw_base w) \<and>
     (sw_base_advancement_events w = 0 \<longleftrightarrow> sw_base w = 0)"

lemma advance_base_stall:
  assumes "stall_ok t0 w" and le: "unat (sw_base w) \<le> unat (sw_base (advance_base now w))"
  shows "stall_ok t0 (advance_base now w)"
proof (cases "sw_base (advance_base now w) = sw_base w")
  case True
  then have "advance_base now w = w" unfolding advance_base_simps by (simp add: advance_base_def)
  then show ?thesis using assms(1) by simp
next
  case False
  let ?b = "sw_base (advance_base now w)" and ?e = "sw_base_advancement_events w"
  from False le have lt: "unat (sw_base w) < unat ?b" by (simp add: word_unat_eq_iff)
  have e: "unat (?e + 1) = Suc (unat ?e)"
    using assms(1) unat_u32_less [of "sw_base w"]
    by (subst unat_word_ariths) (simp add: stall_ok_def)
  then have "?e + 1 \<noteq> 0" by (metis Zero_not_Suc unat_0)
  with lt e assms(1) False show ?thesis
    by (auto simp: stall_ok_def advance_base_def Let_def)
qed

lemma perform_stall:
  assumes inv: "sw_inv w" and st: "stall_ok t0 w"
  shows "stall_ok t0 (perform call w)"
proof (cases rule: perform_cases [where call = call and w = w])
  case (Select d)
  from Select show ?thesis by (cases rule: select_cases) (use st in \<open>simp_all add: stall_ok_def\<close>)
next
  case (Mark_sent s t)
  then have "perform call w =
      update_chunk s (\<lambda>c. c\<lparr>cs_state := IN_FLIGHT, cs_last_sent_time := t\<rparr>) w"
    by (simp add: mark_sent_def split: if_splits)
  then show ?thesis using st by (simp add: stall_ok_def)
next
  case (Process_ack a now)
  let ?p = "ack_bitmap a (ack_prefix a w)"
  note A = ack_phase [OF sw_invD(1) [OF inv], of a]
  have "stall_ok t0 ?p"
    using st spares_ack_phase [of w a] A(3) by (simp add: spares_def stall_ok_def)
  from advance_base_stall [OF this advance_base_inv(4) [OF A(1)], of now]
  show ?thesis
    unfolding Process_ack process_ack_phases(1) [OF inv]
    by (simp add: stall_ok_def evidence_sweep_def)
next
  case (Check_timeouts now rto)
  then show ?thesis
    using st by (simp add: check_timeouts_sweep [OF sw_invD(2) [OF inv]] stall_ok_def)
qed (use st in simp)

lemma reachable_stall: "sender_reachable n l c t0 w \<Longrightarrow> stall_ok t0 w"
proof (induction rule: sender_reachable.induct)
  case (created w)
  then show ?case by (auto simp: make_sender_window_def stall_ok_def split: if_splits)
next
  case (called w call)
  then show ?case using perform_stall reachable_inv by blast
qed

lemma select_progress:
  assumes inv: "sw_inv w" and todo: "\<not> all_acked w"
    and flying: "\<And>i. i < unat (sw_next_sequence w) \<Longrightarrow> cs_state (sw_chunks w ! i) \<noteq> UNSENT"
    and pend: "\<And>i. i < unat (sw_next_sequence w) \<Longrightarrow> cs_state (sw_chunks w ! i) = IN_FLIGHT \<Longrightarrow>
      cs_retransmit_pending (sw_chunks w ! i)"
  shows "\<exists>d w'. select_next_packet w = (Some d, w')"
proof (rule ccontr)
  assume none: "\<not> ?thesis"
  note I = sw_invD [OF inv]
  note D = window_okD [OF I(2)]
  obtain d w' where sel: "select_next_packet w = (d, w')" by fastforce
  then have "(\<forall>r \<in> set (sw_retransmission_queue w). \<not> wants_retransmission (chunk_at w r)) \<and>
    \<not> can_send_new w"
    using none sel by (cases rule: select_cases) simp_all
  then have idle: "\<forall>r \<in> set (sw_retransmission_queue w). \<not> wants_retransmission (chunk_at w r)"
    and full: "\<not> can_send_new w" by simp_all
  have acked: "cs_state (sw_chunks w ! i) = ACKED" if i: "i < unat (sw_next_sequence w)" for i
  proof (rule ccontr)
    assume "cs_state (sw_chunks w ! i) \<noteq> ACKED"
    with flying [OF i] have fl: "cs_state (sw_chunks w ! i) = IN_FLIGHT"
      by (cases "cs_state (sw_chunks w ! i)") simp_all
    moreover have "unat (of_nat i :: u32) = i" using i unat_of_nat_below [of i "sw_next_sequence w"] by simp
    ultimately show False
      using pend [OF i fl] queue_okD(4) [OF I(3) i] bspec [OF idle, of "of_nat i"]
      by (simp add: wants_retransmission_def chunk_at_def)
  qed
  then have "unacked_set w = {}" by (auto simp: unacked_set_def)
  then have out: "unat (sw_outstanding_chunks w) = 0" using D(6) by simp
  have "first_gap (acked_set w) = unat (sw_next_sequence w)"
  proof (rule first_gap_eqI)
    show "unat (sw_next_sequence w) \<notin> acked_set w" using acked_set_bound [OF I(2)] by auto
  qed (use acked D(3) in \<open>simp add: acked_set_def\<close>)
  then have base: "unat (sw_base w) = unat (sw_next_sequence w)" using I(5) by simp
  with todo D(3) have "unat (sw_next_sequence w) < unat (sw_total_chunks w)"
    by (simp add: all_acked_def word_unat_eq_iff)
  with full out base D(9,10) show False
    by (simp add: can_send_new_def word_less_nat_alt)
qed

section \<open>An example run\<close>

lemma reachable_run:
  "sender_reachable n l c t0 w \<Longrightarrow> sender_reachable n l c t0 (fold perform calls w)"
  by (induction calls arbitrary: w) (simp_all add: sender_reachable.called)

text \<open>
  A run used by the examples: six chunks sent at time 0, then an ACK that reports chunks 1 to 3 but
  not chunk 0.
\<close>

definition example_ack :: ack_payload where
  "example_ack = \<lparr>ak_cumulative_ack = 0, ak_largest_received_plus_one = 4, ak_bitmap_base = 0,
     ak_bitmap_bits = 8, ak_bitmap = [14]\<rparr>"

definition example_start :: sender_window where
  "example_start = (case make_sender_window 8 6 6 0 of Inl _ \<Rightarrow> undefined | Inr w \<Rightarrow> w)"

definition example_calls :: "sender_call list" where
  "example_calls = concat (map (\<lambda>s. [Select, Mark_sent s 0]) [0, 1, 2, 3, 4, 5])"

definition example_sent :: sender_window where
  "example_sent = fold perform example_calls example_start"

lemma example_reachable:
  "sender_reachable 8 6 6 0 example_start" "sender_reachable 8 6 6 0 example_sent"
proof -
  show 1: "sender_reachable 8 6 6 0 example_start"
    by (rule sender_reachable.created) (simp add: example_start_def make_sender_window_def)
  show "sender_reachable 8 6 6 0 example_sent"
    unfolding example_sent_def by (rule reachable_run [OF 1])
qed

text \<open>A chunk that is pending is in the queue.\<close>

lemma unqueued_not_pending:
  assumes "sw_inv w" and "\<forall>r \<in> set (sw_retransmission_queue w). \<not> wants_retransmission (chunk_at w r)"
  shows "\<forall>s < sw_next_sequence w. \<not> retransmit_pending w s"
proof (intro allI impI)
  fix s assume "s < sw_next_sequence w"
  then have "unat s < unat (sw_next_sequence w)" by (simp add: word_less_nat_alt)
  from queue_okD(4) [OF sw_invD(3) [OF assms(1)] this] bspec [OF assms(2), of s] show "\<not> retransmit_pending w s"
    by (auto simp: retransmit_pending_def chunk_at_def wants_retransmission_def)
qed

section \<open>Properties\<close>

text \<open>C6: Window and memory safety.  In every window the constructor and any sequence of calls can
  produce, every index the code uses is inside the chunk vector (base, next sequence, queue
  entries), the base is the first unacknowledged chunk, the outstanding counter is the number of
  chunks selected and not acknowledged and stays within the logical window, the sequence span stays
  within the SACK coverage, the retransmission queue holds no chunk twice, and \<^verbatim>\<open>all_acked\<close> means
  every chunk is acknowledged.\<close>

theorem sender_window_bounds:
  assumes "sender_reachable n l c t0 w"
  shows "length (sw_chunks w) = unat n \<and>
    unat (sw_base w) = first_gap (acked_set w) \<and>
    unat (sw_base w) \<le> unat (sw_next_sequence w) \<and> unat (sw_next_sequence w) \<le> unat n \<and>
    unat (sw_outstanding_chunks w) = card (unacked_set w) \<and>
    sw_outstanding_chunks w \<le> l \<and>
    unat (sw_next_sequence w) \<le> unat (sw_base w) + unat c \<and>
    distinct (sw_retransmission_queue w) \<and>
    (\<forall>s \<in> set (sw_retransmission_queue w). s < sw_next_sequence w) \<and>
    (all_acked w \<longleftrightarrow> acked_set w = {..<unat n})"
proof -
  note R = reachable_inv [OF assms]
  then have inv: "sw_inv w" by simp
  note D = window_okD [OF sw_invD(2) [OF inv]]
  note Q = queue_okD [OF sw_invD(3) [OF inv]]
  show ?thesis
    using R D(1-3,6-8) Q(1,2) sw_invD(5) [OF inv] all_acked_iff [OF inv]
    by (simp add: word_le_nat_alt word_less_nat_alt)
qed

theorem sender_window_bounds_witness:
  "unat (sw_outstanding_chunks example_sent) = card (unacked_set example_sent) \<and>
   sw_outstanding_chunks example_sent \<le> 6"
  using sender_window_bounds [OF example_reachable(2)] by blast

text \<open>C15: \<^verbatim>\<open>process_ack\<close> believes an ACK exactly about the chunks that have been sent: afterwards the
  acknowledged chunks are the old ones and every sent chunk below the cumulative ACK or with its
  bit set below the largest-received bound, whatever the payload claims beyond that, and the
  base is again the first unacknowledged chunk.\<close>

theorem process_ack_acknowledges:
  assumes "sender_reachable n l c t0 w"
  shows "acked_set (process_ack w ack now) =
      acked_set w \<union> {i. i < unat (sw_next_sequence w) \<and> acknowledges ack i} \<and>
    unat (sw_base (process_ack w ack now)) = first_gap (acked_set (process_ack w ack now)) \<and>
    sw_next_sequence (process_ack w ack now) = sw_next_sequence w"
proof -
  note P = process_ack_inv [OF conjunct1 [OF reachable_inv [OF assms]], of ack now]
  show ?thesis
    using P(2,4) sw_invD(5) [OF P(1)] by (simp add: same_frame_def)
qed

theorem process_ack_acknowledges_witness:
  "acked_set (process_ack example_sent example_ack 1) =
     acked_set example_sent \<union> {i. i < 6 \<and> acknowledges example_ack i}"
proof -
  have "unat (sw_next_sequence example_sent) = 6" by code_simp
  then show ?thesis
    using process_ack_acknowledges [OF example_reachable(2), of example_ack 1] by simp
qed

text \<open>C16: Fast retransmission fires exactly on new SACK evidence.  After \<^verbatim>\<open>process_ack\<close> a sent,
  still unacknowledged chunk is pending if and only if it was pending before, or it is in flight,
  the number of acknowledged chunks above it has grown since the last ACK, at least three of them
  are newer than its last retransmission, and it has either never been retransmitted or was last
  sent at least 250 ms ago.\<close>

theorem fast_retransmit_iff:
  assumes "sender_reachable n l c t0 w"
    and "unat s < unat (sw_next_sequence w)" and "unat s \<notin> acked_set (process_ack w ack now)"
  shows "retransmit_pending (process_ack w ack now) s \<longleftrightarrow>
    retransmit_pending w s \<or>
    (let chunk = chunk_at w s;
         later = card {j \<in> acked_set (process_ack w ack now). unat s < j}
     in cs_state chunk = IN_FLIGHT \<and>
        unat (cs_latest_later_acked chunk) < later \<and>
        unat (cs_retransmit_evidence chunk) + 3 \<le> later \<and>
        (\<not> cs_fast_retransmitted chunk \<or> ms 250 \<le> now - cs_last_sent_time chunk))"
proof -
  let ?w = "process_ack w ack now"
  have inv: "sw_inv w" using reachable_inv [OF assms(1)] by simp
  note P = process_ack_inv [OF inv, of ack now]
  note C = process_ack_chunk [OF inv assms(2,3)]
  have "retransmit_pending ?w s = cs_retransmit_pending (sw_chunks ?w ! unat s)"
    "retransmit_pending w s = cs_retransmit_pending (sw_chunks w ! unat s)"
    using retransmit_pending_of_nat [OF sw_invD(2) [OF P(1)], of "unat s"]
      retransmit_pending_of_nat [OF sw_invD(2) [OF inv], of "unat s"] assms(2) P(2)
    by (simp_all add: same_frame_def)
  then show ?thesis
    by (auto simp: C(2) evidence_chunk_simps fires_iff C(1) chunk_at_def)
qed

theorem fast_retransmit_iff_witness:
  "retransmit_pending (process_ack example_sent example_ack 1) 0"
proof -
  have 1: "unat (0 :: u32) < unat (sw_next_sequence example_sent)" by code_simp
  have a: "acked_set (process_ack example_sent example_ack 1) = {1, 2, 3}"
  proof -
    have "map (\<lambda>c. cs_state c = ACKED) (sw_chunks (process_ack example_sent example_ack 1)) =
        [False, True, True, True, False, False, False, False]"
      and "unat (sw_total_chunks (process_ack example_sent example_ack 1)) = 8"
      by code_simp+
    then show ?thesis
      unfolding acked_set_def
      by (auto simp: map_eq_Cons_conv numeral_eq_Suc less_Suc_eq length_Suc_conv nth_Cons split: nat.splits)
  qed
  have 2: "unat (0 :: u32) \<notin> acked_set (process_ack example_sent example_ack 1)"
    by (simp add: a)
  have "{j \<in> {1, 2, 3 :: nat}. unat (0 :: u32) < j} = {1, 2, 3}" by auto
  moreover have "cs_state (chunk_at example_sent 0) = IN_FLIGHT \<and>
      unat (cs_latest_later_acked (chunk_at example_sent 0)) = 0 \<and>
      unat (cs_retransmit_evidence (chunk_at example_sent 0)) = 0 \<and>
      \<not> cs_fast_retransmitted (chunk_at example_sent 0)" by code_simp
  ultimately show ?thesis
    using fast_retransmit_iff [OF example_reachable(2) 1 2] by (simp add: a Let_def)
qed

text \<open>An ACK that brings nothing new has no effect.  After any \<^verbatim>\<open>process_ack\<close>, a further ACK
  that acknowledges no sent chunk beyond those already acknowledged, in particular a duplicate of
  the same datagram, leaves the whole window unchanged at any later time: no retransmission, no
  counter, no statistic moves.\<close>

lemma stale_ack_no_effect:
  assumes "sender_reachable n l c t0 w"
    and "\<And>i. i < unat (sw_next_sequence w) \<Longrightarrow> acknowledges b i \<Longrightarrow>
      i \<in> acked_set (process_ack w a t)"
  shows "process_ack (process_ack w a t) b t' = process_ack w a t"
proof -
  have inv: "sw_inv w" using reachable_inv [OF assms(1)] by simp
  then have "sw_next_sequence (process_ack w a t) = sw_next_sequence w"
    using process_ack_inv(2) [OF inv, of a t] by (simp add: same_frame_def)
  then show ?thesis using assms(2) by (intro process_ack_stale [OF inv]) simp
qed

text \<open>C18: \<^verbatim>\<open>check_timeouts\<close> makes exactly the right chunks pending: those already pending, and every
  sent, unacknowledged, in-flight chunk whose last transmission is at least the timeout ago.  It
  appends the new ones to the retransmission queue once each, in increasing order, never touches
  an acknowledged or unsent chunk, and changes neither base, counters nor acknowledgements.\<close>

theorem check_timeouts_exact:
  assumes "sender_reachable n l c t0 w"
  shows "sw_retransmission_queue (check_timeouts w now rto) = sw_retransmission_queue w @
      map of_nat (filter (\<lambda>i. cs_state (sw_chunks w ! i) = IN_FLIGHT \<and>
          \<not> cs_retransmit_pending (sw_chunks w ! i) \<and> rto \<le> now - cs_last_sent_time (sw_chunks w ! i))
        [unat (sw_base w)..<unat (sw_next_sequence w)]) \<and>
    (\<forall>s < n. retransmit_pending (check_timeouts w now rto) s \<longleftrightarrow>
      retransmit_pending w s \<or>
      (sw_base w \<le> s \<and> s < sw_next_sequence w \<and> cs_state (chunk_at w s) = IN_FLIGHT \<and>
       rto \<le> now - cs_last_sent_time (chunk_at w s))) \<and>
    acked_set (check_timeouts w now rto) = acked_set w \<and>
    sw_base (check_timeouts w now rto) = sw_base w \<and>
    sw_outstanding_chunks (check_timeouts w now rto) = sw_outstanding_chunks w"
proof -
  note R = reachable_inv [OF assms]
  then have inv: "sw_inv w" by simp
  note eq = check_timeouts_sweep [OF sw_invD(2) [OF inv], of now rto]
  have "retransmit_pending (check_timeouts w now rto) s \<longleftrightarrow> retransmit_pending w s \<or>
      (sw_base w \<le> s \<and> s < sw_next_sequence w \<and> cs_state (chunk_at w s) = IN_FLIGHT \<and>
       rto \<le> now - cs_last_sent_time (chunk_at w s))" if "s < n" for s
    using that R check_timeouts_chunk [OF inv, of "unat s" now rto] check_timeouts_inv(2) [OF inv, of now rto]
    by (auto simp: retransmit_pending_def chunk_at_def same_frame_def word_le_nat_alt
        word_less_nat_alt timeout_chunk_def expired_def)
  then show ?thesis
    using check_timeouts_inv(3,4) [OF inv, of now rto] by (simp add: eq expired_def)
qed

theorem check_timeouts_exact_witness:
  "sw_retransmission_queue (check_timeouts example_sent (ms 500) (ms 500)) = [0, 1, 2, 3, 4, 5]"
proof -
  have "sw_retransmission_queue example_sent @
      map of_nat (filter (\<lambda>i. cs_state (sw_chunks example_sent ! i) = IN_FLIGHT \<and>
          \<not> cs_retransmit_pending (sw_chunks example_sent ! i) \<and>
          ms 500 \<le> ms 500 - cs_last_sent_time (sw_chunks example_sent ! i))
        [unat (sw_base example_sent)..<unat (sw_next_sequence example_sent)]) = [0, 1, 2, 3, 4, 5]"
    by code_simp
  then show ?thesis
    using check_timeouts_exact [OF example_reachable(2), of "ms 500" "ms 500"] by simp
qed

text \<open>C17: \<^verbatim>\<open>select_next_packet\<close> prefers retransmissions and never wastes a packet.  A chosen chunk is
  not acknowledged and \<^verbatim>\<open>mark_sent\<close> accepts it; a retransmission was pending and is not pending
  afterwards (so it is chosen once per request) and is reported as fast exactly when it was queued
  as fast; a new packet is chosen only when no chunk is pending and the window has room, and it is
  the next unsent chunk; nothing is chosen exactly when no chunk is pending and the window has no
  room.\<close>

theorem select_next_packet_spec:
  assumes "sender_reachable n l c t0 w" and "select_next_packet w = (d, w')"
  shows "acked_set w' = acked_set w \<and>
    (case d of
       None \<Rightarrow> (\<forall>s < sw_next_sequence w. \<not> retransmit_pending w s) \<and> \<not> can_send_new w
     | Some e \<Rightarrow>
         unat (sequence e) \<notin> acked_set w \<and> (\<forall>t. \<exists>w''. mark_sent w' (sequence e) t = Inr w'') \<and>
         (if retransmission e
          then retransmit_pending w (sequence e) \<and> \<not> retransmit_pending w' (sequence e) \<and>
            fast_retransmission e = cs_fast_retransmit_pending (chunk_at w (sequence e))
          else (\<forall>s < sw_next_sequence w. \<not> retransmit_pending w s) \<and> can_send_new w \<and>
            sequence e = sw_next_sequence w \<and> window_state w (sequence e) = Inr UNSENT))"
proof -
  have inv: "sw_inv w" using reachable_inv [OF assms(1)] by simp
  note I = sw_invD [OF inv]
  note D = window_okD [OF I(2)]
  note quiet = unqueued_not_pending [OF inv]
  have tot: "sw_total_chunks w' = sw_total_chunks w" "acked_set w' = acked_set w"
    using select_inv(2,4) [OF inv assms(2)] by simp_all
  show ?thesis
  proof (cases d)
    case None
    from assms(2) show ?thesis
      by (cases rule: select_cases) (use None quiet tot in auto)
  next
    case (Some e)
    note F = select_sequence_facts [OF inv assms(2) [unfolded Some]]
    note M = sw.select_sequence [OF inv assms(2) [unfolded Some]]
    have lt: "unat (sequence e) < unat (sw_total_chunks w)"
      using F(1) window_okD(3) [OF sw_invD(2) [OF select_inv(1) [OF inv assms(2)]]] tot by simp
    show ?thesis
    proof (cases "retransmission e")
      case True
      have "fast_retransmission e = cs_fast_retransmit_pending (chunk_at w (sequence e))"
        using assms(2) by (cases rule: select_cases) (use Some True in auto)
      moreover have "retransmit_pending w (sequence e) \<and> \<not> retransmit_pending w' (sequence e)"
        using F(3) [OF True] lt tot by (simp add: retransmit_pending_def wants_retransmission_def word_le_nat_alt)
      ultimately show ?thesis using M tot True Some by auto
    next
      case False
      have "(\<forall>s < sw_next_sequence w. \<not> retransmit_pending w s) \<and> can_send_new w \<and>
          sequence e = sw_next_sequence w"
        using assms(2) by (cases rule: select_cases) (use Some False quiet in auto)
      moreover have "chunk_at w (sw_next_sequence w) = fresh_chunk"
        using D(5) [of "unat (sw_next_sequence w)"] lt F(4) [OF False] by (simp add: chunk_at_def)
      ultimately show ?thesis
        using M tot False Some lt by (auto simp: window_state_def fresh_chunk_def word_le_nat_alt)
    qed
  qed
qed

theorem select_next_packet_spec_witness:
  "\<not> can_send_new example_sent \<and>
   \<not> (\<exists>s < sw_next_sequence example_sent. retransmit_pending example_sent s)"
proof -
  have "fst (select_next_packet example_sent) = None" by code_simp
  then have "select_next_packet example_sent = (None, snd (select_next_packet example_sent))"
    by (simp add: prod_eq_iff)
  from select_next_packet_spec [OF example_reachable(2) this] show ?thesis by simp
qed

text \<open>C38: Every chunk only moves forward, from unsent to in flight to acknowledged: no call moves a
  chunk back, forgets an acknowledgement, or moves base or next sequence backwards.\<close>

theorem chunk_states_move_forward:
  assumes "sender_reachable n l c t0 w" and "i < unat n"
  shows "cs_state (sw_chunks w ! i) \<le> cs_state (sw_chunks (perform call w) ! i) \<and>
    acked_set w \<subseteq> acked_set (perform call w) \<and>
    unat (sw_base w) \<le> unat (sw_base (perform call w)) \<and>
    unat (sw_next_sequence w) \<le> unat (sw_next_sequence (perform call w))"
proof -
  note R = reachable_inv [OF assms(1)]
  then have inv: "sw_inv w" by simp
  note P = perform_inv [OF inv, of call]
  show ?thesis
    using perform_state_mono [OF inv, of i call] R assms(2) P(5,6) sw_invD(5) [OF inv]
      sw_invD(5) [OF P(1)] first_gap_subset_mono [OF finite_acked P(5)] by simp
qed

theorem chunk_states_move_forward_witness:
  "cs_state (sw_chunks example_sent ! 1) \<le> cs_state (sw_chunks (process_ack example_sent example_ack 1) ! 1)"
  using chunk_states_move_forward [OF example_reachable(2), of 1 "Process_ack example_ack 1"] by simp

lemma select_after_timeouts:
  assumes inv: "sw_inv w" and todo: "\<not> all_acked w"
    and due: "\<And>i. i < unat (sw_next_sequence w) \<Longrightarrow> cs_state (sw_chunks w ! i) = ACKED \<or>
      (cs_state (sw_chunks w ! i) = IN_FLIGHT \<and> rto \<le> now - cs_last_sent_time (sw_chunks w ! i))"
  shows "\<exists>d w'. select_next_packet (check_timeouts w now rto) = (Some d, w')"
proof -
  note T = check_timeouts_inv [OF inv, of now rto]
  note D = window_okD [OF sw_invD(2) [OF inv]]
  have fr: "sw_next_sequence (check_timeouts w now rto) = sw_next_sequence w"
    "sw_total_chunks (check_timeouts w now rto) = sw_total_chunks w"
    using T(2) by (simp_all add: same_frame_def)
  have chunk: "cs_state (sw_chunks (check_timeouts w now rto) ! i) = cs_state (sw_chunks w ! i) \<and>
      (cs_state (sw_chunks w ! i) = IN_FLIGHT \<longrightarrow>
         cs_retransmit_pending (sw_chunks (check_timeouts w now rto) ! i))"
    if "i < unat (sw_next_sequence w)" for i
    using check_timeouts_chunk [OF inv, of i now rto] due [OF that] that D(3) D(4) [of i]
    by (cases "unat (sw_base w) \<le> i") (auto simp: timeout_chunk_def expired_def)
  show ?thesis
  proof (rule select_progress [OF T(1)])
    show "\<not> all_acked (check_timeouts w now rto)"
      using todo T(4) fr by (simp add: all_acked_def)
    fix i assume "i < unat (sw_next_sequence (check_timeouts w now rto))"
    then have i: "i < unat (sw_next_sequence w)" by (simp only: fr)
    show "cs_state (sw_chunks (check_timeouts w now rto) ! i) \<noteq> UNSENT"
      using chunk [OF i] due [OF i] by auto
    show "cs_state (sw_chunks (check_timeouts w now rto) ! i) = IN_FLIGHT \<Longrightarrow>
        cs_retransmit_pending (sw_chunks (check_timeouts w now rto) ! i)"
      using chunk [OF i] by simp
  qed
qed

text \<open>What is chosen then is a repetition exactly when something is in flight.\<close>

lemma choice_after_timeouts:
  assumes inv: "sw_inv w" and sel: "select_next_packet (check_timeouts w now rto) = (Some d, w')"
    and due: "\<And>i. i < unat (sw_next_sequence w) \<Longrightarrow> cs_state (sw_chunks w ! i) = IN_FLIGHT \<Longrightarrow>
      rto \<le> now - cs_last_sent_time (sw_chunks w ! i)"
  shows "retransmission d \<longleftrightarrow> (\<exists>i < unat (sw_next_sequence w). cs_state (sw_chunks w ! i) = IN_FLIGHT)"
    and "retransmission d \<Longrightarrow> sequence d < sw_next_sequence w \<and> cs_state (chunk_at w (sequence d)) = IN_FLIGHT"
    and "\<not> retransmission d \<Longrightarrow> sequence d = sw_next_sequence w"
proof -
  let ?t = "check_timeouts w now rto"
  note T = check_timeouts_inv [OF inv, of now rto]
  note D = window_okD [OF sw_invD(2) [OF inv]]
  have fr: "sw_next_sequence ?t = sw_next_sequence w" "sw_total_chunks ?t = sw_total_chunks w"
    using T(2) by (simp_all add: same_frame_def)
  note F = select_sequence_facts [OF T(1) sel]
  show new: "sequence d = sw_next_sequence w" if "\<not> retransmission d" using F(4) [OF that] fr by simp
  show again: "sequence d < sw_next_sequence w \<and> cs_state (chunk_at w (sequence d)) = IN_FLIGHT" if "retransmission d"
  proof -
    have q: "sequence d \<in> set (sw_retransmission_queue ?t)" "wants_retransmission (chunk_at ?t (sequence d))"
      using F(3) [OF that] by simp_all
    have lt: "sequence d < sw_next_sequence w"
      using queue_okD(2) [OF sw_invD(3) [OF T(1)] q(1)] fr by (simp add: word_less_nat_alt)
    then have "unat (sequence d) < unat (sw_total_chunks w)" using D(3) by (simp add: word_less_nat_alt)
    from check_timeouts_chunk [OF inv this, of now rto] q(2) lt show ?thesis
      by (auto simp: chunk_at_def wants_retransmission_def timeout_chunk_def split: if_splits)
  qed
  show "retransmission d \<longleftrightarrow> (\<exists>i < unat (sw_next_sequence w). cs_state (sw_chunks w ! i) = IN_FLIGHT)"
  proof
    assume "retransmission d"
    from again [OF this] show "\<exists>i < unat (sw_next_sequence w). cs_state (sw_chunks w ! i) = IN_FLIGHT"
      by (auto simp: chunk_at_def word_less_nat_alt)
  next
    assume "\<exists>i < unat (sw_next_sequence w). cs_state (sw_chunks w ! i) = IN_FLIGHT"
    then obtain i where i: "i < unat (sw_next_sequence w)" "cs_state (sw_chunks w ! i) = IN_FLIGHT" by blast
    have "wants_retransmission (sw_chunks ?t ! i)"
      using check_timeouts_chunk [OF inv, of i now rto] due [OF i] i D(3) D(4) [of i]
      by (cases "unat (sw_base w) \<le> i") (auto simp: timeout_chunk_def expired_def wants_retransmission_def)
    then have pending: "retransmit_pending ?t (of_nat i)"
      using i(1) fr D(3) unat_of_nat_below [of i "sw_next_sequence w"]
      by (simp add: retransmit_pending_def chunk_at_def wants_retransmission_def word_le_nat_alt)
    show "retransmission d"
    proof (rule ccontr)
      assume new: "\<not> retransmission d"
      have "\<forall>r \<in> set (sw_retransmission_queue ?t). \<not> wants_retransmission (chunk_at ?t r)"
        using sel by (cases rule: select_cases) (use new in auto)
      from unqueued_not_pending [OF T(1) this] pending i(1) unat_of_nat_below [OF less_imp_le [OF i(1)]] fr
      show False by (simp add: word_less_nat_alt)
    qed
  qed
qed

text \<open>C7: The sender never gets stuck.  While a chunk is unacknowledged, if every selected chunk has
  been sent and the unacknowledged ones have been in flight for at least the timeout, then after
  \<^verbatim>\<open>check_timeouts\<close> there is a packet to send.\<close>

theorem sender_never_stuck:
  assumes "sender_reachable n l c t0 w" and "\<not> all_acked w"
    and "\<And>i. i < unat (sw_next_sequence w) \<Longrightarrow> cs_state (sw_chunks w ! i) = ACKED \<or>
      (cs_state (sw_chunks w ! i) = IN_FLIGHT \<and> rto \<le> now - cs_last_sent_time (sw_chunks w ! i))"
  shows "\<exists>d w'. select_next_packet (check_timeouts w now rto) = (Some d, w')"
  using select_after_timeouts [OF _ assms(2,3)] reachable_inv [OF assms(1)] by blast

theorem sender_never_stuck_witness:
  "\<exists>d w'. select_next_packet (check_timeouts example_sent (ms 600) (ms 500)) = (Some d, w')"
proof (rule sender_never_stuck [OF example_reachable(2)])
  show "\<not> all_acked example_sent" by code_simp
  have "list_all (\<lambda>i. cs_state (sw_chunks example_sent ! i) = IN_FLIGHT \<and>
      ms 500 \<le> ms 600 - cs_last_sent_time (sw_chunks example_sent ! i))
    [0..<unat (sw_next_sequence example_sent)]" by code_simp
  then show "cs_state (sw_chunks example_sent ! i) = ACKED \<or>
      (cs_state (sw_chunks example_sent ! i) = IN_FLIGHT \<and>
        ms 500 \<le> ms 600 - cs_last_sent_time (sw_chunks example_sent ! i))"
    if "i < unat (sw_next_sequence example_sent)" for i
    using that by (simp add: list_all_iff)
qed

text \<open>The stall statistics the client prints are what they say: the accumulated stall time is
  the time from the construction of the window to the last advance of its base, there are at most
  as many advancement events as chunks below the base, and none exactly when the base has not
  moved.\<close>

lemma stall_statistics:
  assumes "sender_reachable n l c t0 w"
  shows "sw_total_base_stall_time w = sw_last_base_advance_time w - t0 \<and>
    unat (sw_base_advancement_events w) \<le> unat (sw_base w) \<and>
    (sw_base_advancement_events w = 0 \<longleftrightarrow> sw_base w = 0)"
  using reachable_stall [OF assms] by (simp add: stall_ok_def)

end
