(* ===== verification/Diagnostics.thy ===== *)
theory Diagnostics
  imports Sender_Properties Printed_Output
begin

text \<open>
  The statistics of \<^verbatim>\<open>src/client.cpp\<close>: \<^verbatim>\<open>TimingStats\<close>, \<^verbatim>\<open>WindowSampleStats\<close> and
  \<^verbatim>\<open>PerformanceDiagnostics\<close>.  A sample walks over the window and calls \<^verbatim>\<open>SenderWindow::state\<close>, which
  can throw; that it never does, and what the sampled numbers are, is proved for every reachable
  window.
\<close>

section \<open>State\<close>

record timing_stats =
  ts_total :: time_ns
  ts_longest :: time_ns
  ts_calls :: u64

record window_sample_stats =
  samples :: u64
  span_total :: u64
  unacked_total :: u64
  acked_behind_hole_total :: u64
  retransmit_pending_total :: u64
  max_span :: u32
  max_unacked :: u32
  max_acked_behind_hole :: u32
  max_retransmit_pending :: u32

record performance_diagnostics =
  pd_pacer :: timing_stats
  pd_no_send_wait :: timing_stats
  pd_poll_wait :: timing_stats
  window_blocked_idle :: time_ns
  all_data_issued_idle :: time_ns
  other_idle :: time_ns
  no_send_episodes :: u64
  longest_no_send_episode :: time_ns
  no_send_episode_active :: bool
  no_send_episode_start :: time_ns
  fast_retransmits :: u64
  rto_retransmits :: u64
  window_samples :: window_sample_stats

text \<open>The member initialisers.\<close>

definition no_timing :: timing_stats where
  "no_timing = \<lparr>ts_total = 0, ts_longest = 0, ts_calls = 0\<rparr>"

definition no_samples :: window_sample_stats where
  "no_samples = \<lparr>samples = 0, span_total = 0, unacked_total = 0, acked_behind_hole_total = 0,
     retransmit_pending_total = 0, max_span = 0, max_unacked = 0, max_acked_behind_hole = 0,
     max_retransmit_pending = 0\<rparr>"

definition no_diagnostics :: performance_diagnostics where
  "no_diagnostics =
     \<lparr>pd_pacer = no_timing, pd_no_send_wait = no_timing, pd_poll_wait = no_timing,
      window_blocked_idle = 0, all_data_issued_idle = 0, other_idle = 0, no_send_episodes = 0,
      longest_no_send_episode = 0, no_send_episode_active = False, no_send_episode_start = 0,
      fast_retransmits = 0, rto_retransmits = 0, window_samples = no_samples\<rparr>"

section \<open>Operations\<close>

definition timing_add :: "time_ns \<Rightarrow> timing_stats \<Rightarrow> timing_stats" where
  "timing_add duration st =
     st\<lparr>ts_total := ts_total st + duration, ts_longest := max (ts_longest st) duration,
        ts_calls := ts_calls st + 1\<rparr>"

definition average_microseconds :: "timing_stats \<Rightarrow> rat" where
  "average_microseconds st =
     (if ts_calls st = 0 then 0 else of_int (ts_total st) / 1000 / of_nat (unat (ts_calls st)))"

text \<open>
  The loop of \<^verbatim>\<open>sample\<close>: the counts of unacknowledged, acknowledged and pending chunks from \<open>base\<close>
  on, or the exception of \<^verbatim>\<open>state\<close>.
\<close>

fun sample_loop ::
    "sender_window \<Rightarrow> nat list \<Rightarrow> u32 \<times> u32 \<times> u32 \<Rightarrow> frft_error + u32 \<times> u32 \<times> u32" where
  "sample_loop w [] counts = Inr counts"
| "sample_loop w (s # ss) (unacked, acked_behind_hole, pending) =
     (case window_state w (of_nat s) of
        Inl e \<Rightarrow> Inl e
      | Inr st \<Rightarrow>
          let (unacked, acked_behind_hole) =
                (if st = ACKED then (unacked, acked_behind_hole + 1)
                 else (unacked + 1, acked_behind_hole));
              pending = (if retransmit_pending w (of_nat s) then pending + 1 else pending)
          in sample_loop w ss (unacked, acked_behind_hole, pending))"

definition sample :: "sender_window \<Rightarrow> window_sample_stats \<Rightarrow> frft_error + window_sample_stats" where
  "sample w st =
     (let base = sw_base w;
          nxt = sw_next_sequence w;
          span = nxt - base
      in case sample_loop w [unat base..<unat nxt] (0, 0, 0) of
           Inl e \<Rightarrow> Inl e
         | Inr (unacked, acked_behind_hole, pending) \<Rightarrow>
             Inr (st\<lparr>samples := samples st + 1,
                     span_total := span_total st + ucast span,
                     unacked_total := unacked_total st + ucast unacked,
                     acked_behind_hole_total := acked_behind_hole_total st + ucast acked_behind_hole,
                     retransmit_pending_total := retransmit_pending_total st + ucast pending,
                     max_span := max (max_span st) span,
                     max_unacked := max (max_unacked st) unacked,
                     max_acked_behind_hole := max (max_acked_behind_hole st) acked_behind_hole,
                     max_retransmit_pending := max (max_retransmit_pending st) pending\<rparr>))"

definition begin_no_send :: "time_ns \<Rightarrow> performance_diagnostics \<Rightarrow> performance_diagnostics" where
  "begin_no_send now d =
     (if \<not> no_send_episode_active d
      then d\<lparr>no_send_episode_active := True, no_send_episode_start := now,
             no_send_episodes := no_send_episodes d + 1\<rparr>
      else d)"

definition end_no_send :: "time_ns \<Rightarrow> performance_diagnostics \<Rightarrow> performance_diagnostics" where
  "end_no_send now d =
     (if \<not> no_send_episode_active d then d
      else d\<lparr>longest_no_send_episode :=
               max (longest_no_send_episode d) (now - no_send_episode_start d),
             no_send_episode_active := False\<rparr>)"

section \<open>What a sample counts\<close>

lemma sample_loop_counts:
  assumes ok: "window_ok w" and "m \<le> unat (sw_next_sequence w)"
  defines "acked \<equiv> \<lambda>m. {i. m \<le> i \<and> i < unat (sw_next_sequence w) \<and> cs_state (sw_chunks w ! i) = ACKED}"
    and "unacked \<equiv> \<lambda>m. {i. m \<le> i \<and> i < unat (sw_next_sequence w) \<and> cs_state (sw_chunks w ! i) \<noteq> ACKED}"
    and "pend \<equiv> \<lambda>m. {i. m \<le> i \<and> i < unat (sw_next_sequence w) \<and> cs_retransmit_pending (sw_chunks w ! i)}"
  shows "sample_loop w [m..<unat (sw_next_sequence w)] (u, a, p) =
    Inr (u + of_nat (card (unacked m)), a + of_nat (card (acked m)), p + of_nat (card (pend m)))"
  using assms(2)
proof (induction arbitrary: u a p rule: inc_induct)
  case base
  have "acked (unat (sw_next_sequence w)) = {}" "unacked (unat (sw_next_sequence w)) = {}"
    "pend (unat (sw_next_sequence w)) = {}"
    by (auto simp: acked_def unacked_def pend_def)
  then show ?case by simp
next
  case (step m)
  note D = window_okD [OF ok]
  let ?c = "sw_chunks w ! m"
  have m: "unat (of_nat m :: u32) = m"
    using step unat_of_nat_below [of m "sw_next_sequence w"] by simp
  have st: "window_state w (of_nat m) = Inr (cs_state ?c)"
    "retransmit_pending w (of_nat m) = cs_retransmit_pending ?c"
    using m step D(3) by (simp_all add: window_state_def retransmit_pending_def chunk_at_def word_le_nat_alt)
  have ins: "{i. m \<le> i \<and> i < unat (sw_next_sequence w) \<and> Q i} =
      (if Q m then insert m else id) {i. Suc m \<le> i \<and> i < unat (sw_next_sequence w) \<and> Q i}" for Q
    using step by (auto simp: Suc_le_eq le_less)
  have card: "card {i. m \<le> i \<and> i < unat (sw_next_sequence w) \<and> Q i} =
      (if Q m then 1 else 0) + card {i. Suc m \<le> i \<and> i < unat (sw_next_sequence w) \<and> Q i}" for Q
    unfolding ins by simp
  have "card (acked m) = (if cs_state ?c = ACKED then 1 else 0) + card (acked (Suc m))"
    "card (unacked m) = (if cs_state ?c \<noteq> ACKED then 1 else 0) + card (unacked (Suc m))"
    "card (pend m) = (if cs_retransmit_pending ?c then 1 else 0) + card (pend (Suc m))"
    unfolding acked_def unacked_def pend_def by (rule card)+
  moreover have "[m..<unat (sw_next_sequence w)] = m # [Suc m..<unat (sw_next_sequence w)]"
    using step by (simp add: upt_conv_Cons)
  ultimately show ?case
    using step.IH by (simp add: st Let_def)
qed

text \<open>The sets the loop counts, from base to next sequence, on a sound window.\<close>

lemma sampled_sets:
  assumes inv: "sw_inv w"
  defines "b \<equiv> unat (sw_base w)" and "n \<equiv> unat (sw_next_sequence w)"
  defines "A \<equiv> {i. b \<le> i \<and> i < n \<and> cs_state (sw_chunks w ! i) = ACKED}"
    and "U \<equiv> {i. b \<le> i \<and> i < n \<and> cs_state (sw_chunks w ! i) \<noteq> ACKED}"
    and "P \<equiv> {i. b \<le> i \<and> i < n \<and> cs_retransmit_pending (sw_chunks w ! i)}"
  shows "card U = unat (sw_outstanding_chunks w)"
    and "sw_outstanding_chunks w \<le> sw_next_sequence w - sw_base w"
    and "card A = unat (sw_next_sequence w - sw_base w - sw_outstanding_chunks w)"
    and "card P \<le> card U"
proof -
  note I = sw_invD [OF inv]
  note D = window_okD [OF I(2)]
  have U: "U = unacked_set w" using D(4) by (auto simp: U_def b_def n_def unacked_set_def not_le [symmetric])
  then show out: "card U = unat (sw_outstanding_chunks w)" by (simp add: D(6) [symmetric])
  have "A \<union> U = {b..<n}" "A \<inter> U = {}" by (auto simp: A_def U_def)
  then have sum: "card A + card U = n - b"
    by (metis card_Un_disjoint card_atLeastLessThan finite_Un finite_atLeastLessThan)
  have span: "unat (sw_next_sequence w - sw_base w) = n - b"
    using D(2) by (simp add: unat_sub word_le_nat_alt b_def n_def)
  show le: "sw_outstanding_chunks w \<le> sw_next_sequence w - sw_base w"
    using sum span out by (simp add: word_le_nat_alt)
  show "card A = unat (sw_next_sequence w - sw_base w - sw_outstanding_chunks w)"
    using sum span le out by (simp add: unat_sub)
  have "P \<subseteq> U" using I(3) by (auto simp: P_def U_def n_def queue_ok_def)
  moreover have "finite U" by (simp add: U)
  ultimately show "card P \<le> card U" by (rule card_mono [rotated])
qed

lemma pending_in_span:
  assumes "sw_inv w"
  shows "{i. i < unat (sw_total_chunks w) \<and> cs_retransmit_pending (sw_chunks w ! i)} =
    {i. unat (sw_base w) \<le> i \<and> i < unat (sw_next_sequence w) \<and> cs_retransmit_pending (sw_chunks w ! i)}"
proof -
  note I = sw_invD [OF assms]
  note D = window_okD [OF I(2)]
  have "\<not> cs_retransmit_pending (sw_chunks w ! i)"
    if "i < unat (sw_total_chunks w)" "\<not> (unat (sw_base w) \<le> i \<and> i < unat (sw_next_sequence w))" for i
    using that D(2,3) D(4) [of i] D(5) [of i] I(3)
    by (cases "i < unat (sw_next_sequence w)") (auto simp: queue_ok_def fresh_chunk_def)
  then show ?thesis using D(3) by auto
qed

section \<open>Properties\<close>

text \<open>Sampling a window never throws and counts what its names say.  On every reachable window
  \<^verbatim>\<open>sample\<close> succeeds; the numbers it adds are the span from base to next sequence, the outstanding
  counter of the window, the rest of the span as chunks acknowledged behind a hole, and the number
  of pending chunks, which never exceeds the outstanding ones.\<close>

lemma sample_counts_window:
  assumes "sender_reachable n l c t0 w"
  shows "\<exists>pending. sample w st = Inr (st\<lparr>samples := samples st + 1,
      span_total := span_total st + ucast (sw_next_sequence w - sw_base w),
      unacked_total := unacked_total st + ucast (sw_outstanding_chunks w),
      acked_behind_hole_total := acked_behind_hole_total st +
        ucast (sw_next_sequence w - sw_base w - sw_outstanding_chunks w),
      retransmit_pending_total := retransmit_pending_total st + ucast pending,
      max_span := max (max_span st) (sw_next_sequence w - sw_base w),
      max_unacked := max (max_unacked st) (sw_outstanding_chunks w),
      max_acked_behind_hole := max (max_acked_behind_hole st)
        (sw_next_sequence w - sw_base w - sw_outstanding_chunks w),
      max_retransmit_pending := max (max_retransmit_pending st) pending\<rparr>) \<and>
    unat pending = card {i. i < unat n \<and> cs_retransmit_pending (sw_chunks w ! i)} \<and>
    pending \<le> sw_outstanding_chunks w \<and>
    sw_outstanding_chunks w \<le> sw_next_sequence w - sw_base w"
proof -
  have inv: "sw_inv w" and n: "sw_total_chunks w = n" using reachable_inv [OF assms] by simp_all
  note I = sw_invD [OF inv]
  let ?b = "unat (sw_base w)" and ?n = "unat (sw_next_sequence w)"
  let ?P = "{i. ?b \<le> i \<and> i < ?n \<and> cs_retransmit_pending (sw_chunks w ! i)}"
  note S = sampled_sets [OF inv]
  have p: "unat (of_nat (card ?P) :: u32) = card ?P"
    using S(1,4) unat_u32_less [of "sw_outstanding_chunks w"] by simp
  have "sample_loop w [?b..<?n] (0, 0, 0) = Inr (sw_outstanding_chunks w,
      sw_next_sequence w - sw_base w - sw_outstanding_chunks w, of_nat (card ?P))"
    using sample_loop_counts [OF I(2) window_okD(2) [OF I(2)], of 0 0 0] S(1,3) by simp
  moreover have "(of_nat (card ?P) :: u32) \<le> sw_outstanding_chunks w"
    using p S(1,4) by (simp add: word_le_nat_alt)
  ultimately show ?thesis
    using p S(2) pending_in_span [OF inv]
    by (intro exI [of _ "of_nat (card ?P)"]) (simp add: sample_def Let_def n)
qed

end
