(* ===== verification/Pacer.thy ===== *)
theory Pacer
  imports Frft_Prelude Complex_Main
begin

text \<open>
  \<^verbatim>\<open>Pacer\<close> of \<^verbatim>\<open>src/pacer.cpp\<close>: a token bucket that delays each DATA packet to the configured rate.
  The \<^verbatim>\<open>long double\<close> quantities are exact rationals here, so rounding is not modelled.

  Waiting is the business of the operating system: a call of \<^verbatim>\<open>sleep_until\<close> and the spin loop on
  \<^verbatim>\<open>Clock::now()\<close> are \<open>wait_action\<close>s, and the clock reading taken after the actions of the \<open>k\<close>-th
  round is the parameter \<open>wake k actions\<close>.  What the code relies on is that the reading is not before
  any of the deadlines (\<open>wakes_on_time\<close>).  The loop may run forever with a clock that stands still,
  so it is a partial function with values in an option.
\<close>

section \<open>State\<close>

record pacer =
  bytes_per_nanosecond :: rat
  tokens_bytes :: rat
  last_refill_time :: time_ns

definition kBurstCapacityBytes :: nat where
  "kBurstCapacityBytes = 9015"

definition kRefillTargetFraction :: rat where
  "kRefillTargetFraction = 2 / 3"

definition kNanosecondsPerSecond :: rat where
  "kNanosecondsPerSecond = 1000000000"

definition kBitsPerByte :: rat where
  "kBitsPerByte = 8"

definition kMaximumWaitNanoseconds :: rat where
  "kMaximumWaitNanoseconds = kNanosecondsPerSecond"

definition kJumboSpinWindow :: time_ns where
  "kJumboSpinWindow = 100000"

lemmas pacer_consts =
  kBurstCapacityBytes_def kRefillTargetFraction_def kNanosecondsPerSecond_def kBitsPerByte_def
  kMaximumWaitNanoseconds_def kJumboSpinWindow_def

datatype wait_action = Sleep_until time_ns | Spin_until time_ns

fun deadline_of :: "wait_action \<Rightarrow> time_ns" where
  "deadline_of (Sleep_until t) = t"
| "deadline_of (Spin_until t) = t"

section \<open>Operations\<close>

definition make_pacer :: "u64 \<Rightarrow> time_ns \<Rightarrow> frft_error + pacer" where
  "make_pacer rate_bits_per_second now =
     (if rate_bits_per_second = 0
      then Inl (Invalid_argument ''pacing rate must be greater than zero'')
      else Inr
        \<lparr>bytes_per_nanosecond =
           of_nat (unat rate_bits_per_second) / (kBitsPerByte * kNanosecondsPerSecond),
         tokens_bytes = of_nat kBurstCapacityBytes, last_refill_time = now\<rparr>)"

definition refill :: "pacer \<Rightarrow> time_ns \<Rightarrow> rat \<Rightarrow> pacer" where
  "refill p now capacity_bytes =
     (if now \<le> last_refill_time p then p
      else
        let elapsed_nanoseconds = of_int (now - last_refill_time p)
        in p\<lparr>tokens_bytes :=
               min capacity_bytes
                 (tokens_bytes p + elapsed_nanoseconds * bytes_per_nanosecond p),
             last_refill_time := now\<rparr>)"

definition wait_duration :: "pacer \<Rightarrow> rat \<Rightarrow> rat \<Rightarrow> time_ns" where
  "wait_duration p packet_bytes capacity_bytes =
     (let target_bytes = max packet_bytes (capacity_bytes * kRefillTargetFraction);
          missing_bytes = target_bytes - tokens_bytes p;
          wait_nanoseconds = missing_bytes / bytes_per_nanosecond p;
          bounded_wait_nanoseconds = min wait_nanoseconds kMaximumWaitNanoseconds
      in max 1 (ceiling bounded_wait_nanoseconds))"

definition wait_actions :: "pacer \<Rightarrow> rat \<Rightarrow> rat \<Rightarrow> time_ns \<Rightarrow> wait_action list" where
  "wait_actions p packet_bytes capacity_bytes now =
     (let duration = wait_duration p packet_bytes capacity_bytes;
          deadline = now + duration;
          single_packet_bucket = packet_bytes * 2 > capacity_bytes
      in if \<not> single_packet_bucket then [Sleep_until deadline]
         else (if duration > kJumboSpinWindow then [Sleep_until (deadline - kJumboSpinWindow)] else [])
              @ [Spin_until deadline])"

text \<open>
  The loop.  \<open>k\<close> counts its rounds; the value is the pacer when the loop is left.
\<close>

partial_function (option) wait_loop ::
    "(nat \<Rightarrow> wait_action list \<Rightarrow> time_ns) \<Rightarrow> nat \<Rightarrow> rat \<Rightarrow> rat \<Rightarrow> time_ns \<Rightarrow> pacer \<Rightarrow>
      pacer option" where
  "wait_loop wake k packet_bytes capacity_bytes now p =
     (if tokens_bytes p < packet_bytes
      then
        let now' = wake k (wait_actions p packet_bytes capacity_bytes now)
        in wait_loop wake (Suc k) packet_bytes capacity_bytes now' (refill p now' capacity_bytes)
      else Some p)"

definition wait_for_slot ::
    "(nat \<Rightarrow> wait_action list \<Rightarrow> time_ns) \<Rightarrow> pacer \<Rightarrow> nat \<Rightarrow> time_ns \<Rightarrow> pacer option" where
  "wait_for_slot wake p wire_bytes now =
     (let packet_bytes = of_nat wire_bytes;
          capacity_bytes = max (of_nat kBurstCapacityBytes) packet_bytes
      in case wait_loop wake 0 packet_bytes capacity_bytes now (refill p now capacity_bytes) of
           None \<Rightarrow> None
         | Some p' \<Rightarrow> Some (p'\<lparr>tokens_bytes := tokens_bytes p' - packet_bytes\<rparr>))"

definition reset :: "pacer \<Rightarrow> time_ns \<Rightarrow> pacer" where
  "reset p now = p\<lparr>tokens_bytes := of_nat kBurstCapacityBytes, last_refill_time := now\<rparr>"

section \<open>Invariant\<close>

definition wakes_on_time :: "(nat \<Rightarrow> wait_action list \<Rightarrow> time_ns) \<Rightarrow> bool" where
  "wakes_on_time wake \<longleftrightarrow> (\<forall>k actions. \<forall>a \<in> set actions. deadline_of a \<le> wake k actions)"

definition pacer_ok :: "rat \<Rightarrow> pacer \<Rightarrow> bool" where
  "pacer_ok cap p \<longleftrightarrow>
     0 < bytes_per_nanosecond p \<and> 0 \<le> tokens_bytes p \<and> tokens_bytes p \<le> cap"

text \<open>The credit a pacer has earned by a given time: its tokens and the bytes it has granted.\<close>

definition within_credit :: "pacer \<Rightarrow> pacer \<Rightarrow> rat \<Rightarrow> bool" where
  "within_credit p p' granted \<longleftrightarrow>
     bytes_per_nanosecond p' = bytes_per_nanosecond p \<and>
     last_refill_time p \<le> last_refill_time p' \<and>
     tokens_bytes p' + granted \<le>
       tokens_bytes p + of_int (last_refill_time p' - last_refill_time p) * bytes_per_nanosecond p"

lemma within_credit_refl: "within_credit p p 0"
  by (simp add: within_credit_def)

lemma within_credit_trans:
  "within_credit p q a \<Longrightarrow> within_credit q r b \<Longrightarrow> within_credit p r (a + b)"
  by (auto simp: within_credit_def algebra_simps)

lemma refill_credit: "within_credit p (refill p now cap) 0"
  by (auto simp: within_credit_def refill_def Let_def)

lemma refill_ok:
  "pacer_ok m p \<Longrightarrow> 0 \<le> cap \<Longrightarrow> cap \<le> m \<Longrightarrow> pacer_ok m (refill p now cap)"
  by (auto simp: pacer_ok_def refill_def Let_def min_def)

lemma wait_loop_result:
  assumes "wait_loop wake k packet cap now p = Some p'"
  shows "packet \<le> tokens_bytes p' \<and> within_credit p p' 0 \<and> (\<forall>m. pacer_ok m p \<and> 0 \<le> cap \<and> cap \<le> m \<longrightarrow> pacer_ok m p')"
proof (rule wait_loop.raw_induct [where P = "\<lambda>wake k packet cap now p p'.
    packet \<le> tokens_bytes p' \<and> within_credit p p' 0 \<and> (\<forall>m. pacer_ok m p \<and> 0 \<le> cap \<and> cap \<le> m \<longrightarrow> pacer_ok m p')",
    OF _ assms])
  fix loop wake k packet cap now p p'
  assume IH: "\<And>wake k packet cap now p y. loop wake k packet cap now p = Some y \<Longrightarrow>
      packet \<le> tokens_bytes y \<and> within_credit p y 0 \<and> (\<forall>m. pacer_ok m p \<and> 0 \<le> cap \<and> cap \<le> m \<longrightarrow> pacer_ok m y)"
    and step: "(if tokens_bytes p < packet
      then let now' = wake k (wait_actions p packet cap now)
           in loop wake (Suc k) packet cap now' (refill p now' cap)
      else Some p) = Some p'"
  show "packet \<le> tokens_bytes p' \<and> within_credit p p' 0 \<and> (\<forall>m. pacer_ok m p \<and> 0 \<le> cap \<and> cap \<le> m \<longrightarrow> pacer_ok m p')"
  proof (cases "tokens_bytes p < packet")
    case True
    let ?now = "wake k (wait_actions p packet cap now)"
    from step True have "loop wake (Suc k) packet cap ?now (refill p ?now cap) = Some p'"
      by (simp add: Let_def)
    from IH [OF this] show ?thesis
      using refill_credit [of p ?now cap] within_credit_trans [of p "refill p ?now cap" 0 p' 0]
        refill_ok [of _ p cap ?now] by auto
  next
    case False
    then show ?thesis using step by (simp add: within_credit_refl)
  qed
qed

text \<open>The capacity of the bucket for a packet of the given size.\<close>

definition capacity_for :: "nat \<Rightarrow> rat" where
  "capacity_for wire_bytes = max 9015 (of_nat wire_bytes)"

lemma capacity_for_pos [simp]: "0 \<le> capacity_for b"
  by (simp add: capacity_for_def le_max_iff_disj)

lemma capacity_for_mono: "b \<le> m \<Longrightarrow> capacity_for b \<le> capacity_for m"
  by (simp add: capacity_for_def max_def)

lemma wait_for_slot_result:
  assumes "wait_for_slot wake p b now = Some p'"
  shows "within_credit p p' (of_nat b)" and "0 \<le> tokens_bytes p'"
    and "b \<le> m \<Longrightarrow> pacer_ok (capacity_for m) p \<Longrightarrow> pacer_ok (capacity_for m) p'"
proof -
  let ?cap = "capacity_for b"
  from assms obtain q where q: "wait_loop wake 0 (of_nat b) ?cap now (refill p now ?cap) = Some q"
    and p': "p' = q\<lparr>tokens_bytes := tokens_bytes q - of_nat b\<rparr>"
    by (auto simp: wait_for_slot_def Let_def capacity_for_def kBurstCapacityBytes_def split: option.splits)
  note R = wait_loop_result [OF q]
  have "within_credit p q 0"
    using within_credit_trans [OF refill_credit, of p now ?cap q 0] R by simp
  then show "within_credit p p' (of_nat b)" by (simp add: within_credit_def p')
  show tok: "0 \<le> tokens_bytes p'" using R by (simp add: p')
  show "pacer_ok (capacity_for m) p'" if "b \<le> m" "pacer_ok (capacity_for m) p"
  proof -
    have "pacer_ok (capacity_for m) q"
      using R refill_ok [OF that(2) capacity_for_pos capacity_for_mono [OF that(1)], of now]
        capacity_for_mono [OF that(1)] by simp
    moreover have "tokens_bytes q - of_nat b \<le> tokens_bytes q" by simp
    ultimately show ?thesis using tok unfolding pacer_ok_def p' by auto
  qed
qed

text \<open>A run of calls: packet sizes with the clock readings at the calls.\<close>

fun pace :: "(nat \<Rightarrow> wait_action list \<Rightarrow> time_ns) \<Rightarrow> (nat \<times> time_ns) list \<Rightarrow> pacer \<Rightarrow> pacer option" where
  "pace wake [] p = Some p"
| "pace wake ((b, now) # calls) p =
     (case wait_for_slot wake p b now of None \<Rightarrow> None | Some p' \<Rightarrow> pace wake calls p')"

lemma pace_credit:
  "pace wake calls p = Some p' \<Longrightarrow> within_credit p p' (of_nat (sum_list (map fst calls)))"
proof (induction calls arbitrary: p)
  case Nil
  then show ?case by (simp add: within_credit_refl)
next
  case (Cons c calls)
  obtain b now where c: "c = (b, now)" by fastforce
  from Cons.prems obtain q where "wait_for_slot wake p b now = Some q" "pace wake calls q = Some p'"
    by (auto simp: c split: option.splits)
  then show ?case
    using within_credit_trans [OF wait_for_slot_result(1) Cons.IH] by (simp add: c)
qed

lemma pace_tokens:
  "pace wake calls p = Some p' \<Longrightarrow> 0 \<le> tokens_bytes p \<Longrightarrow> 0 \<le> tokens_bytes p'"
proof (induction calls arbitrary: p)
  case (Cons c calls)
  obtain b now where c: "c = (b, now)" by fastforce
  with Cons show ?case
    by (auto split: option.splits dest: wait_for_slot_result(2))
qed simp

lemma pace_ok:
  "pace wake calls p = Some p' \<Longrightarrow> \<forall>(b, now) \<in> set calls. b \<le> m \<Longrightarrow>
     pacer_ok (capacity_for m) p \<Longrightarrow> pacer_ok (capacity_for m) p'"
proof (induction calls arbitrary: p)
  case (Cons c calls)
  obtain b now where c: "c = (b, now)" by fastforce
  from Cons.prems c obtain q where q: "wait_for_slot wake p b now = Some q" "pace wake calls q = Some p'"
    by (auto split: option.splits)
  then have "pacer_ok (capacity_for m) q"
    using wait_for_slot_result(3) [OF q(1)] Cons.prems(2,3) by (auto simp: c)
  then show ?case using Cons.IH [OF q(2)] Cons.prems(2) by (simp add: c)
qed simp

section \<open>Waiting ends\<close>

text \<open>An operating system that wakes exactly at the last deadline.\<close>

definition latest_deadline :: "wait_action list \<Rightarrow> time_ns" where
  "latest_deadline actions = fold max (map deadline_of actions) 0"

lemma fold_max_ge: "(b :: time_ns) \<le> fold max xs b \<and> (\<forall>x \<in> set xs. x \<le> fold max xs b)"
proof (induction xs arbitrary: b)
  case (Cons a xs)
  from Cons [of "max a b"] show ?case by auto
qed simp

lemma latest_deadline_on_time: "wakes_on_time (\<lambda>_. latest_deadline)"
  using fold_max_ge by (fastforce simp: wakes_on_time_def latest_deadline_def)

lemma wake_after_wait:
  assumes "wakes_on_time wake"
  shows "now + wait_duration p packet cap \<le> wake k (wait_actions p packet cap now)"
proof -
  have "Sleep_until (now + wait_duration p packet cap) \<in> set (wait_actions p packet cap now) \<or>
      Spin_until (now + wait_duration p packet cap) \<in> set (wait_actions p packet cap now)"
    by (simp add: wait_actions_def Let_def)
  then show ?thesis
    using assms unfolding wakes_on_time_def by (metis deadline_of.simps)
qed

lemma wait_duration_covers:
  assumes "0 < bytes_per_nanosecond p" and "tokens_bytes p < packet"
  shows "1 \<le> wait_duration p packet cap"
    and "min (max packet (cap * 2 / 3) - tokens_bytes p) (1000000000 * bytes_per_nanosecond p) \<le>
      of_int (wait_duration p packet cap) * bytes_per_nanosecond p"
proof -
  let ?b = "bytes_per_nanosecond p" and ?m = "max packet (cap * 2 / 3) - tokens_bytes p"
  have dur: "wait_duration p packet cap = max 1 (ceiling (min (?m / ?b) 1000000000))"
    by (simp add: wait_duration_def Let_def pacer_consts)
  then show "1 \<le> wait_duration p packet cap" by simp
  have "min (?m / ?b) 1000000000 \<le> of_int (ceiling (min (?m / ?b) 1000000000))"
    by (rule le_of_int_ceiling)
  also have "\<dots> \<le> of_int (wait_duration p packet cap)"
    unfolding dur by (simp only: of_int_le_iff max.cobounded2)
  finally have "min (?m / ?b) 1000000000 * ?b \<le> of_int (wait_duration p packet cap) * ?b"
    using assms(1) by (simp add: mult_right_mono)
  moreover have "min (?m / ?b) 1000000000 * ?b = min ?m (1000000000 * ?b)"
    using assms(1) by (auto simp: min_def field_simps)
  ultimately show "min ?m (1000000000 * ?b) \<le> of_int (wait_duration p packet cap) * ?b" by simp
qed

text \<open>One round of waiting: the bucket holds enough, or a second's worth of tokens more.\<close>

lemma wait_round:
  fixes wake :: "nat \<Rightarrow> wait_action list \<Rightarrow> time_ns" and p :: pacer and packet cap :: rat
    and now :: time_ns and k :: nat
  assumes wake: "wakes_on_time wake" and b: "0 < bytes_per_nanosecond p"
    and short: "tokens_bytes p < packet" and cap: "packet \<le> cap" and last: "last_refill_time p \<le> now"
  defines "now' \<equiv> wake k (wait_actions p packet cap now)"
  shows "now < now'" and "last_refill_time (refill p now' cap) = now'"
    and "bytes_per_nanosecond (refill p now' cap) = bytes_per_nanosecond p"
    and "packet \<le> tokens_bytes (refill p now' cap) \<or>
      tokens_bytes p + 1000000000 * bytes_per_nanosecond p \<le> tokens_bytes (refill p now' cap)"
proof -
  let ?b = "bytes_per_nanosecond p" and ?d = "wait_duration p packet cap"
  note W = wait_duration_covers [OF b short, of cap]
  have now': "now + ?d \<le> now'" unfolding now'_def by (rule wake_after_wait [OF wake])
  then show lt: "now < now'" using W(1) by simp
  then have eq: "refill p now' cap = p\<lparr>tokens_bytes :=
      min cap (tokens_bytes p + of_int (now' - last_refill_time p) * ?b), last_refill_time := now'\<rparr>"
    using last by (simp add: refill_def Let_def)
  then show "last_refill_time (refill p now' cap) = now'"
    "bytes_per_nanosecond (refill p now' cap) = ?b" by simp_all
  have "?d \<le> now' - last_refill_time p" using now' last by simp
  then have "of_int ?d * ?b \<le> of_int (now' - last_refill_time p) * ?b"
    using b by (intro mult_right_mono) (simp_all only: of_int_le_iff less_imp_le)
  with W(2) have gain: "min (max packet (cap * 2 / 3) - tokens_bytes p) (1000000000 * ?b) \<le>
      of_int (now' - last_refill_time p) * ?b" by (rule order_trans)
  show "packet \<le> tokens_bytes (refill p now' cap) \<or>
      tokens_bytes p + 1000000000 * ?b \<le> tokens_bytes (refill p now' cap)"
    unfolding eq using gain cap by (auto simp: min_def max_def split: if_splits)
qed

lemma wait_loop_returns:
  assumes wake: "wakes_on_time wake" and "packet \<le> cap"
  shows "0 < bytes_per_nanosecond p \<Longrightarrow> last_refill_time p \<le> now \<Longrightarrow>
    packet - tokens_bytes p \<le> of_nat n * (1000000000 * bytes_per_nanosecond p) \<Longrightarrow>
    \<exists>p'. wait_loop wake k packet cap now p = Some p'"
proof (induction n arbitrary: k now p)
  case 0
  then show ?case by (subst wait_loop.simps) simp
next
  case (Suc n)
  show ?case
  proof (cases "tokens_bytes p < packet")
    case True
    let ?now = "wake k (wait_actions p packet cap now)"
    let ?q = "refill p ?now cap"
    note R = wait_round [OF wake Suc.prems(1) True assms(2) Suc.prems(2), of k]
    have "packet - tokens_bytes ?q \<le> of_nat n * (1000000000 * bytes_per_nanosecond ?q)"
      using R(4) Suc.prems(1,3) by (auto simp: R(3) algebra_simps intro: order_trans)
    then have "\<exists>p'. wait_loop wake (Suc k) packet cap ?now ?q = Some p'"
      using R(2,3) Suc.prems(1) by (intro Suc.IH) simp_all
    then show ?thesis using True by (subst wait_loop.simps) (simp add: Let_def)
  next
    case False
    then show ?thesis by (subst wait_loop.simps) simp
  qed
qed

section \<open>Properties\<close>

text \<open>C29: The pacer keeps the configured rate.  Whatever the clock and the sleeps do, in any run of
  calls from the construction of the pacer, the bytes granted by any later stretch of calls are at
  most one bucket (9015 bytes, or the largest packet if that is larger) plus the configured rate
  times the time that passed on the pacer's clock during the stretch.\<close>

theorem pacer_rate_bound:
  assumes "make_pacer rate t0 = Inr p0"
    and "pace wake before p0 = Some p1" and "pace wake stretch p1 = Some p2"
    and "\<And>b now. (b, now) \<in> set (before @ stretch) \<Longrightarrow> b \<le> m"
  shows "of_nat (sum_list (map fst stretch)) \<le>
    capacity_for m + of_int (last_refill_time p2 - last_refill_time p1) *
      (of_nat (unat rate) / 8000000000)"
proof -
  from assms(1) have p0: "bytes_per_nanosecond p0 = of_nat (unat rate) / 8000000000"
    "tokens_bytes p0 = 9015" and "rate \<noteq> 0"
    by (auto simp: make_pacer_def pacer_consts split: if_splits)
  moreover from \<open>rate \<noteq> 0\<close> have "0 < unat rate" by (simp add: unat_gt_0)
  then have "(0 :: rat) < of_nat (unat rate)" by (simp only: of_nat_0_less_iff)
  ultimately have "pacer_ok (capacity_for m) p0"
    by (simp only: pacer_ok_def) (simp add: capacity_for_def)
  then have "pacer_ok (capacity_for m) p1"
    using pace_ok [OF assms(2), of m] assms(4) by fastforce
  moreover from this have "0 \<le> tokens_bytes p2"
    using pace_tokens [OF assms(3)] by (simp add: pacer_ok_def)
  moreover have bpn: "bytes_per_nanosecond p1 = of_nat (unat rate) / 8000000000"
    using pace_credit [OF assms(2)] p0(1) by (simp add: within_credit_def)
  ultimately show ?thesis
    using pace_credit [OF assms(3)] unfolding bpn [symmetric] within_credit_def pacer_ok_def
    by linarith
qed

theorem pacer_rate_bound_witness:
  "\<exists>p0 p2. make_pacer 8000000000 0 = Inr p0 \<and>
     pace (\<lambda>_. latest_deadline) [(1000, 0), (9000, 5)] p0 = Some p2 \<and>
     (of_nat (1000 + 9000) :: rat) \<le> 9015 + of_int (last_refill_time p2 - last_refill_time p0)"
proof -
  let ?p0 = "\<lparr>bytes_per_nanosecond = 1, tokens_bytes = 9015, last_refill_time = 0\<rparr> :: pacer"
  have mk: "make_pacer 8000000000 0 = Inr ?p0" by (simp add: make_pacer_def pacer_consts)
  have some: "pace (\<lambda>_. latest_deadline) [(1000, 0), (9000, 5)] ?p0 \<noteq> None"
    by (simp add: wait_for_slot_def Let_def pacer_consts refill_def wait_loop.simps wait_actions_def
        wait_duration_def latest_deadline_def)
  then obtain p2 where p2: "pace (\<lambda>_. latest_deadline) [(1000, 0), (9000, 5)] ?p0 = Some p2" by blast
  have "b \<le> (9000 :: nat)" if "(b, now) \<in> set ([] @ [(1000, 0), (9000, 5 :: time_ns)])" for b now
    using that by auto
  from pacer_rate_bound [where before = "[]" and wake = "\<lambda>_. latest_deadline", OF mk _ p2 this] mk p2 show ?thesis
    by (simp add: capacity_for_def)
qed

text \<open>C30: The pacer does not block for ever.  If the operating system wakes a sleeper no earlier than
  its deadline and the clock does not run backwards, \<^verbatim>\<open>wait_for_slot\<close> returns for every packet
  size and every non-zero rate, and the returned pacer has not spent more than it had.\<close>

theorem wait_for_slot_returns:
  assumes "wakes_on_time wake" and "0 < bytes_per_nanosecond p" and "last_refill_time p \<le> now"
  shows "\<exists>p'. wait_for_slot wake p wire_bytes now = Some p' \<and> 0 \<le> tokens_bytes p'"
proof -
  let ?cap = "capacity_for wire_bytes" and ?q = "refill p now (capacity_for wire_bytes)"
  have q: "0 < bytes_per_nanosecond ?q" "last_refill_time ?q \<le> now"
    using assms(2,3) by (auto simp: refill_def Let_def)
  obtain n where "(of_nat wire_bytes - tokens_bytes ?q) / (1000000000 * bytes_per_nanosecond ?q) \<le> of_nat n"
    using real_arch_simple by blast
  then have n: "of_nat wire_bytes - tokens_bytes ?q \<le> of_nat n * (1000000000 * bytes_per_nanosecond ?q)"
    using q(1) by (simp add: divide_le_eq)
  have "of_nat wire_bytes \<le> ?cap" by (simp add: capacity_for_def)
  from wait_loop_returns [OF assms(1) this q n, of 0]
  obtain p' where "wait_for_slot wake p wire_bytes now = Some p'"
    by (auto simp: wait_for_slot_def Let_def capacity_for_def kBurstCapacityBytes_def)
  then show ?thesis using wait_for_slot_result(2) by blast
qed

theorem wait_for_slot_returns_witness:
  "\<exists>p'. wait_for_slot (\<lambda>_. latest_deadline)
     \<lparr>bytes_per_nanosecond = 1, tokens_bytes = 0, last_refill_time = 0\<rparr> 1500 7 = Some p'"
  using wait_for_slot_returns [OF latest_deadline_on_time,
      of "\<lparr>bytes_per_nanosecond = 1, tokens_bytes = 0, last_refill_time = 0\<rparr>" 7 1500] by auto

end
