(* ===== verification/Client.thy ===== *)
theory Client
  imports Socket_Io Options Diagnostics Pacer
begin

unbundle bit_operations_syntax

text \<open>
  \<^verbatim>\<open>src/client.cpp\<close>: the START handshake, the transfer loop with its pacer and its diagnostics, and the
  COMPLETE handshake.  The local variables of \<^verbatim>\<open>run_client\<close> are split in \<open>client_config\<close>, fixed before
  the loop, and \<open>client_state\<close>, which the loop changes.  The ACK object that is reused between calls
  (\<^verbatim>\<open>ack_scratch\<close>) is local here: it is read only after it has been filled.
\<close>

section \<open>State\<close>

record client_config =
  cc_server :: endpoint
  cc_session_id :: u32
  cc_data :: bytes_ptr
  cc_size :: u64
  cc_chunk_size :: u32
  cc_total_chunks :: u32
  cc_accepted :: start_ack_payload

record client_state =
  cl_window :: sender_window
  cl_pacer :: pacer
  cl_sent_data_packets :: u64
  cl_retransmitted_packets :: u64
  cl_diagnostics :: performance_diagnostics
  cl_sent_first_data :: bool
  cl_first_data_time :: time_ns
  cl_next_window_sample :: time_ns

section \<open>Sending\<close>

text \<open>\<^verbatim>\<open>sendmsg\<close> hands header and payload over as the two parts of one datagram.\<close>

definition send_data_packet :: "endpoint \<Rightarrow> packet_header \<Rightarrow> bytes_ptr \<Rightarrow> nat \<Rightarrow> unit io" where
  "send_data_packet server header payload payload_size =
     (if payload_size \<noteq> 0 \<and> payload = None
      then io_throw (Invalid_argument ''packet payload is null'')
      else io_bind (io_sum (serialize_packet_header header payload_size)) (\<lambda>serialized_header.
        send_loop ''sendmsg failed: '' server
          (serialized_header @ (if payload_size \<noteq> 0 then take payload_size (the payload) else []))))"

section \<open>Pacing\<close>

text \<open>\<^verbatim>\<open>while (Clock::now() < deadline) { }\<close>\<close>

function spin_until :: "time_ns \<Rightarrow> unit io" where
  "spin_until deadline w =
     (case clock_now w of
        (Returned now, w') \<Rightarrow> if now < deadline then spin_until deadline w' else (Returned (), w')
      | (Thrown e, w') \<Rightarrow> (Thrown e, w')
      | (Blocked, w') \<Rightarrow> (Blocked, w'))"
  by pat_completeness auto
termination
  by (relation "measure (\<lambda>(deadline, w). length (wd_clock w))") (auto dest!: clock_now_consumes [OF sym])

declare spin_until.simps [simp del]

text \<open>\<^verbatim>\<open>sleep_until\<close> shows only in the clock readings that follow.\<close>

fun perform_waits :: "wait_action list \<Rightarrow> unit io" where
  "perform_waits [] = io_return ()"
| "perform_waits (Sleep_until t # actions) = perform_waits actions"
| "perform_waits (Spin_until t # actions) = io_bind (spin_until t) (\<lambda>_. perform_waits actions)"

text \<open>\<^verbatim>\<open>Pacer::wait_for_slot\<close> with the clock of the world.\<close>

context world_frame
begin

lemma keeps_spin_until:
  assumes "keeps clock_now"
  shows "keeps (spin_until deadline)"
proof (rule keepsI)
  fix w show "ok w (snd (spin_until deadline w))"
  proof (induction deadline w rule: spin_until.induct)
    case (1 deadline w)
    obtain r w' where c: "clock_now w = (r, w')" by fastforce
    then have "ok w w'" by (rule keepsD [OF assms])
    with 1 c show ?case by (subst spin_until.simps) (auto split: outcome.splits intro: ok_trans)
  qed
qed

lemma keeps_perform_waits: "keeps clock_now \<Longrightarrow> keeps (perform_waits actions)"
  by (induction actions rule: perform_waits.induct) (simp_all add: keeps_return keeps_bind keeps_spin_until)

end

lemma clock_after_waits:
  assumes "(Returned now, w') = io_bind (perform_waits actions) (\<lambda>_. clock_now) w"
  shows "length (wd_clock w') < length (wd_clock w)"
proof -
  obtain w1 where w1: "perform_waits actions w = (Returned (), w1)" and c: "clock_now w1 = (Returned now, w')"
    using assms by (auto simp: io_bind_def split: prod.splits outcome.splits)
  have "clock_le.keeps (perform_waits actions)" by (intro clock_le.keeps_perform_waits clock_keeps)
  from clock_le.keepsD [OF this w1] clock_now_consumes [OF c] show ?thesis by linarith
qed

function pacer_wait_loop :: "rat \<Rightarrow> rat \<Rightarrow> time_ns \<Rightarrow> pacer \<Rightarrow> pacer io" where
  "pacer_wait_loop packet_bytes capacity_bytes now p w =
     (if tokens_bytes p < packet_bytes
      then
        case io_bind (perform_waits (wait_actions p packet_bytes capacity_bytes now)) (\<lambda>_. clock_now) w of
          (Returned now', w') \<Rightarrow>
            pacer_wait_loop packet_bytes capacity_bytes now' (refill p now' capacity_bytes) w'
        | (Thrown e, w') \<Rightarrow> (Thrown e, w')
        | (Blocked, w') \<Rightarrow> (Blocked, w')
      else (Returned p, w))"
  by pat_completeness auto
termination
  by (relation "measure (\<lambda>(packet_bytes, capacity_bytes, now, p, w). length (wd_clock w))")
    (auto dest: clock_after_waits)

declare pacer_wait_loop.simps [simp del]

definition pacer_wait :: "pacer \<Rightarrow> nat \<Rightarrow> pacer io" where
  "pacer_wait p wire_bytes =
     io_bind clock_now (\<lambda>now.
       let packet_bytes = of_nat wire_bytes;
           capacity_bytes = max (of_nat kBurstCapacityBytes) packet_bytes
       in io_bind (pacer_wait_loop packet_bytes capacity_bytes now (refill p now capacity_bytes)) (\<lambda>p'.
          io_return (p'\<lparr>tokens_bytes := tokens_bytes p' - packet_bytes\<rparr>)))"

section \<open>Receiving\<close>

text \<open>The datagrams of the session: parsed, or \<open>None\<close> for one to be skipped.\<close>

definition expected_view :: "endpoint \<Rightarrow> packet_type \<Rightarrow> u32 \<Rightarrow> endpoint \<Rightarrow> bytes \<Rightarrow> packet_view option" where
  "expected_view server expected_type sid source buffer =
     (if \<not> same_endpoint source server then None
      else
        case deserialize_packet_view (Some buffer) (length buffer) of
          Inl _ \<Rightarrow> None
        | Inr packet \<Rightarrow>
            if session_id (view_header packet) \<noteq> sid \<or> ptype (view_header packet) \<noteq> expected_type
            then None else Some packet)"

datatype receive_step = Again | Timed_out | Received packet_view

text \<open>\<^verbatim>\<open>poll\<close> with the optional statistics.\<close>

definition timed_poll :: "int \<Rightarrow> timing_stats option \<Rightarrow> (poll_result \<times> timing_stats option) io" where
  "timed_poll timeout stats =
     (case stats of
        None \<Rightarrow> io_bind (poll_socket timeout) (\<lambda>ready. io_return (ready, None))
      | Some st \<Rightarrow>
          io_bind clock_now (\<lambda>poll_start.
          io_bind (poll_socket timeout) (\<lambda>ready.
          io_bind clock_now (\<lambda>now.
          io_return (ready, Some (timing_add (now - poll_start) st))))))"

text \<open>One round of the loop of \<^verbatim>\<open>receive_expected\<close>.\<close>

definition receive_round ::
    "endpoint \<Rightarrow> packet_type \<Rightarrow> u32 \<Rightarrow> time_ns \<Rightarrow> timing_stats option \<Rightarrow>
      (receive_step \<times> timing_stats option) io" where
  "receive_round server expected_type sid deadline stats =
     io_bind clock_now (\<lambda>now.
       if \<not> now < deadline then io_return (Timed_out, stats)
       else io_bind clock_now (\<lambda>now'.
         io_bind (timed_poll (max 1 ((deadline - now') div ms 1)) stats) (\<lambda>(ready, stats').
         case ready of
           Poll_ready \<Rightarrow>
             io_bind (recvfrom kReceiveBufferBytes) (\<lambda>received.
             case received of
               Datagram source buffer \<Rightarrow>
                 (case expected_view server expected_type sid source buffer of
                    None \<Rightarrow> io_return (Again, stats')
                  | Some packet \<Rightarrow> io_return (Received packet, stats'))
             | Recv_interrupted \<Rightarrow> io_return (Again, stats')
             | Recv_would_block \<Rightarrow> throw_errno ''recvfrom failed: ''
             | Recv_failed \<Rightarrow> throw_errno ''recvfrom failed: '')
         | Poll_timeout \<Rightarrow> io_return (Timed_out, stats')
         | Poll_interrupted \<Rightarrow> io_return (Again, stats')
         | Poll_failed \<Rightarrow> throw_errno ''poll failed: '')))"

text \<open>A step that starts by reading the clock uses up a reading.\<close>

lemma clock_bind_consumes:
  assumes "(Returned a, w') = io_bind clock_now f w" and "\<And>t. clock_le.keeps (f t)"
  shows "length (wd_clock w') < length (wd_clock w)"
proof -
  obtain t w1 where c: "clock_now w = (Returned t, w1)" and r: "f t w1 = (Returned a, w')"
    using assms(1) by (auto simp: io_bind_def split: prod.splits outcome.splits)
  from clock_le.keepsD [OF assms(2) r] clock_now_consumes [OF c] show ?thesis by linarith
qed

lemma clock_timed_poll: "clock_le.keeps (timed_poll timeout stats)"
  unfolding timed_poll_def by (intro clock_le.keeps_intros clock_keeps)

lemma receive_round_consumes:
  assumes "(Returned x, w') = receive_round server expected_type sid deadline stats w"
  shows "length (wd_clock w') < length (wd_clock w)"
  using assms unfolding receive_round_def case_prod_beta
  by (rule clock_bind_consumes) (intro clock_le.keeps_intros clock_keeps clock_timed_poll)

function receive_loop ::
    "endpoint \<Rightarrow> packet_type \<Rightarrow> u32 \<Rightarrow> time_ns \<Rightarrow> timing_stats option \<Rightarrow>
      (packet_view option \<times> timing_stats option) io" where
  "receive_loop server expected_type sid deadline stats w =
     (case receive_round server expected_type sid deadline stats w of
        (Returned (Again, stats'), w') \<Rightarrow> receive_loop server expected_type sid deadline stats' w'
      | (Returned (Timed_out, stats'), w') \<Rightarrow> (Returned (None, stats'), w')
      | (Returned (Received packet, stats'), w') \<Rightarrow> (Returned (Some packet, stats'), w')
      | (Thrown e, w') \<Rightarrow> (Thrown e, w')
      | (Blocked, w') \<Rightarrow> (Blocked, w'))"
  by pat_completeness auto
termination
  by (relation "measure (\<lambda>(server, expected_type, sid, deadline, stats, w). length (wd_clock w))")
    (auto dest: receive_round_consumes)

declare receive_loop.simps [simp del]

definition receive_expected ::
    "endpoint \<Rightarrow> packet_type \<Rightarrow> u32 \<Rightarrow> int \<Rightarrow> timing_stats option \<Rightarrow>
      (packet_view option \<times> timing_stats option) io" where
  "receive_expected server expected_type sid timeout_ms poll_diagnostics =
     io_bind clock_now (\<lambda>now.
       receive_loop server expected_type sid (now + ms timeout_ms) poll_diagnostics)"

section \<open>Acknowledgements\<close>

definition apply_ack_packet :: "packet_view \<Rightarrow> sender_window \<Rightarrow> sender_window io" where
  "apply_ack_packet packet window =
     (if flags (view_header packet) AND FLAG_SACK = 0 then io_return window
      else
        case deserialize_ack (view_payload packet) (view_payload_size packet) of
          None \<Rightarrow> io_return window
        | Some ack \<Rightarrow>
            if ak_bitmap_bits ack \<noteq> kDefaultAckBitmapBits then io_return window
            else io_bind clock_now (\<lambda>now. io_return (process_ack window ack now)))"

definition drain_one :: "endpoint \<Rightarrow> u32 \<Rightarrow> endpoint \<Rightarrow> bytes \<Rightarrow> sender_window \<Rightarrow> sender_window io" where
  "drain_one server sid source buffer window =
     (case expected_view server ACK sid source buffer of
        None \<Rightarrow> io_return window
      | Some packet \<Rightarrow> apply_ack_packet packet window)"

lemma recvfrom_less: "(Returned r, w') = recvfrom n w \<Longrightarrow> length (wd_recvs w') < length (wd_recvs w)"
  by (auto simp: recvfrom_def split: list.splits)

lemma recvs_drain_one: "recvs.keeps (drain_one server sid source buffer window)"
  unfolding drain_one_def apply_ack_packet_def by (intro recvs.keeps_intros recvs_keeps)

function drain_acks :: "endpoint \<Rightarrow> u32 \<Rightarrow> sender_window \<Rightarrow> sender_window io" where
  "drain_acks server sid window w =
     (case recvfrom kReceiveBufferBytes w of
        (Returned (Datagram source buffer), w') \<Rightarrow>
          (case drain_one server sid source buffer window w' of
             (Returned window', w'') \<Rightarrow> drain_acks server sid window' w''
           | (Thrown e, w'') \<Rightarrow> (Thrown e, w'')
           | (Blocked, w'') \<Rightarrow> (Blocked, w''))
      | (Returned Recv_interrupted, w') \<Rightarrow> drain_acks server sid window w'
      | (Returned Recv_would_block, w') \<Rightarrow> (Returned window, w')
      | (Returned Recv_failed, w') \<Rightarrow> throw_errno ''recvfrom failed: '' w'
      | (Thrown e, w') \<Rightarrow> (Thrown e, w')
      | (Blocked, w') \<Rightarrow> (Blocked, w'))"
  by pat_completeness auto
termination
  by (relation "measure (\<lambda>(server, sid, window, w). length (wd_recvs w))")
    (auto dest!: recvfrom_less recvs.keepsD [OF recvs_drain_one sym])

declare drain_acks.simps [simp del]

definition wait_for_ack ::
    "endpoint \<Rightarrow> u32 \<Rightarrow> sender_window \<Rightarrow> timing_stats \<Rightarrow> (sender_window \<times> timing_stats) io" where
  "wait_for_ack server sid window poll_diagnostics =
     io_bind (receive_expected server ACK sid 10 (Some poll_diagnostics)) (\<lambda>(received, stats).
       io_bind (case received of None \<Rightarrow> io_return window | Some packet \<Rightarrow> apply_ack_packet packet window)
         (\<lambda>window'. io_return (window', the stats)))"

section \<open>Preparing the transfer\<close>

text \<open>Each element is the pair of values of the random device that one round of the loop takes.\<close>

fun random_session_id :: "(u32 \<times> u32) list \<Rightarrow> u32 option" where
  "random_session_id [] = None"
| "random_session_id ((high, low) # randoms) =
     (let sid = push_bit 16 high XOR low in if sid = 0 then random_session_id randoms else Some sid)"

definition resolve_server ::
    "(string \<Rightarrow> u16 \<Rightarrow> string + endpoint) \<Rightarrow> client_options \<Rightarrow> frft_error + endpoint" where
  "resolve_server getaddrinfo options =
     (case getaddrinfo (co_host options) (co_port options) of
        Inl message \<Rightarrow> Inl (Runtime_error (''cannot resolve server: '' @ message))
      | Inr address \<Rightarrow> Inr address)"

definition start_request :: "u64 \<Rightarrow> u32 \<Rightarrow> u32 \<Rightarrow> start_payload" where
  "start_request file_size chunk_size total_chunks =
     \<lparr>sp_file_size = file_size, sp_chunk_size = chunk_size, sp_total_chunks = total_chunks,
      sp_window_chunks = default_window_chunks chunk_size,
      sp_ack_bitmap_bits = kDefaultAckBitmapBits, sp_ack_interval_ms = kDefaultAckIntervalMs\<rparr>"

text \<open>The START attempts that are left.\<close>

fun start_handshake :: "nat \<Rightarrow> endpoint \<Rightarrow> u32 \<Rightarrow> start_payload \<Rightarrow> start_ack_payload io" where
  "start_handshake 0 server sid start =
     io_throw (Runtime_error ''START handshake timed out after 10 attempts'')"
| "start_handshake (Suc n) server sid start =
     (let payload = serialize_start start
      in io_bind (send_packet server (make_header START sid 0) (Some payload) (length payload)) (\<lambda>_.
         io_bind (receive_expected server START_ACK sid kControlTimeoutMs None) (\<lambda>(response, _).
         case response of
           None \<Rightarrow> start_handshake n server sid start
         | Some packet \<Rightarrow>
             (case deserialize_start_ack (view_payload packet) (view_payload_size packet) of
                None \<Rightarrow> io_throw (Runtime_error ''server returned an invalid START_ACK'')
              | Some accepted \<Rightarrow>
                  if sa_status accepted \<noteq> OK
                  then io_throw (Runtime_error ''server rejected the transfer'')
                  else io_return accepted))))"

definition valid_acceptance :: "start_ack_payload \<Rightarrow> bool" where
  "valid_acceptance accepted \<longleftrightarrow>
     \<not> (sa_accepted_window_chunks accepted = 0 \<or>
        sa_accepted_window_chunks accepted > ucast (sa_accepted_bitmap_bits accepted) \<or>
        sa_accepted_bitmap_bits accepted \<noteq> kDefaultAckBitmapBits)"

section \<open>One iteration of the transfer loop\<close>

definition kWindowSampleInterval :: time_ns where
  "kWindowSampleInterval = ms 100"

definition sample_window :: "time_ns \<Rightarrow> client_state \<Rightarrow> client_state io" where
  "sample_window sample_time st =
     (if sample_time \<ge> cl_next_window_sample st
      then io_bind (io_sum (sample (cl_window st) (window_samples (cl_diagnostics st)))) (\<lambda>stats.
        io_return (st\<lparr>cl_diagnostics := (cl_diagnostics st)\<lparr>window_samples := stats\<rparr>,
                      cl_next_window_sample := sample_time + kWindowSampleInterval\<rparr>))
      else io_return st)"

text \<open>Accounting of the time without a packet to send.\<close>

definition add_idle :: "bool \<Rightarrow> bool \<Rightarrow> time_ns \<Rightarrow> performance_diagnostics \<Rightarrow> performance_diagnostics" where
  "add_idle window_blocked all_data_issued idle_duration d =
     (let d = d\<lparr>pd_no_send_wait := timing_add idle_duration (pd_no_send_wait d)\<rparr>;
          d = (if window_blocked
               then d\<lparr>window_blocked_idle := window_blocked_idle d + idle_duration\<rparr> else d);
          d = (if all_data_issued
               then d\<lparr>all_data_issued_idle := all_data_issued_idle d + idle_duration\<rparr> else d)
      in if \<not> window_blocked \<and> \<not> all_data_issued
         then d\<lparr>other_idle := other_idle d + idle_duration\<rparr> else d)"

definition client_idle :: "client_config \<Rightarrow> client_state \<Rightarrow> client_state io" where
  "client_idle cfg st =
     io_bind clock_now (\<lambda>idle_start.
       let d = begin_no_send idle_start (cl_diagnostics st);
           window = cl_window st;
           window_blocked =
             (sw_outstanding_chunks window \<ge> sa_accepted_window_chunks (cc_accepted cfg) \<or>
              unat (sw_next_sequence window) \<ge>
                unat (sw_base window) + unat (sa_accepted_bitmap_bits (cc_accepted cfg)));
           all_data_issued = (sw_next_sequence window \<ge> cc_total_chunks cfg)
       in io_bind (wait_for_ack (cc_server cfg) (cc_session_id cfg) window (pd_poll_wait d)) (\<lambda>(window', poll).
          io_bind clock_now (\<lambda>now.
          io_return (st\<lparr>cl_window := window',
            cl_diagnostics :=
              add_idle window_blocked all_data_issued (now - idle_start) (d\<lparr>pd_poll_wait := poll\<rparr>)\<rparr>))))"

text \<open>The pointer \<^verbatim>\<open>input.data() + offset\<close>.\<close>

definition data_from :: "client_config \<Rightarrow> u32 \<Rightarrow> bytes_ptr" where
  "data_from cfg s =
     map_option (drop (unat (chunk_offset s (cc_chunk_size cfg)))) (cc_data cfg)"

definition data_header :: "client_config \<Rightarrow> send_decision \<Rightarrow> packet_header" where
  "data_header cfg decision =
     (let header = make_header DATA (cc_session_id cfg) (sequence decision)
      in if retransmission decision then header\<lparr>flags := FLAG_RETRANSMITTED\<rparr> else header)"

definition count_sent :: "send_decision \<Rightarrow> client_state \<Rightarrow> client_state" where
  "count_sent decision st =
     (let st = st\<lparr>cl_sent_data_packets := cl_sent_data_packets st + 1\<rparr>;
          d = cl_diagnostics st
      in if retransmission decision
         then st\<lparr>cl_retransmitted_packets := cl_retransmitted_packets st + 1,
                 cl_diagnostics :=
                   (if fast_retransmission decision
                    then d\<lparr>fast_retransmits := fast_retransmits d + 1\<rparr>
                    else d\<lparr>rto_retransmits := rto_retransmits d + 1\<rparr>)\<rparr>
         else st)"

text \<open>The wait for the pacer's slot with its statistics.\<close>

definition client_pace :: "nat \<Rightarrow> client_state \<Rightarrow> client_state io" where
  "client_pace payload_size st =
     io_bind clock_now (\<lambda>pacer_start.
     io_bind (pacer_wait (cl_pacer st) (kIpv4UdpOverhead + kHeaderSize + payload_size)) (\<lambda>p.
     io_bind clock_now (\<lambda>now.
     let d = cl_diagnostics st
     in io_return (st\<lparr>cl_pacer := p,
          cl_diagnostics := d\<lparr>pd_pacer := timing_add (now - pacer_start) (pd_pacer d)\<rparr>\<rparr>))))"

definition note_first_data :: "client_state \<Rightarrow> client_state io" where
  "note_first_data st =
     (if \<not> cl_sent_first_data st
      then io_bind clock_now (\<lambda>now.
        io_return (st\<lparr>cl_first_data_time := now, cl_sent_first_data := True\<rparr>))
      else io_return st)"

definition client_drain :: "client_config \<Rightarrow> client_state \<Rightarrow> client_state io" where
  "client_drain cfg st =
     io_bind (drain_acks (cc_server cfg) (cc_session_id cfg) (cl_window st)) (\<lambda>window.
       io_return (st\<lparr>cl_window := window\<rparr>))"

definition client_send :: "client_config \<Rightarrow> send_decision \<Rightarrow> client_state \<Rightarrow> client_state io" where
  "client_send cfg decision st =
     io_bind clock_now (\<lambda>now.
       let st = st\<lparr>cl_diagnostics := end_no_send now (cl_diagnostics st)\<rparr>;
           s = sequence decision;
           payload_size = chunk_length (cc_size cfg) (cc_chunk_size cfg) s
       in io_bind (client_pace payload_size st) (\<lambda>st.
          io_bind (note_first_data st) (\<lambda>st.
          io_bind (send_data_packet (cc_server cfg) (data_header cfg decision) (data_from cfg s) payload_size) (\<lambda>_.
          io_bind clock_now (\<lambda>now.
          io_bind (io_sum (mark_sent (cl_window st) s now)) (\<lambda>window.
          client_drain cfg (count_sent decision (st\<lparr>cl_window := window\<rparr>))))))))"

definition client_round :: "client_config \<Rightarrow> client_state \<Rightarrow> client_state io" where
  "client_round cfg st =
     io_bind (client_drain cfg st) (\<lambda>st.
     io_bind clock_now (\<lambda>now.
     let st = st\<lparr>cl_window := check_timeouts (cl_window st) now (ms kDefaultRtoMs)\<rparr>
     in io_bind clock_now (\<lambda>sample_time.
        io_bind (sample_window sample_time st) (\<lambda>st.
        case select_next_packet (cl_window st) of
          (None, window) \<Rightarrow> client_idle cfg (st\<lparr>cl_window := window\<rparr>)
        | (Some decision, window) \<Rightarrow> client_send cfg decision (st\<lparr>cl_window := window\<rparr>)))))"

text \<open>Every iteration reads the clock, so the loop ends when the script of readings does.\<close>

context world_frame
begin

lemma keeps_pacer_wait:
  assumes "keeps clock_now"
  shows "keeps (pacer_wait p wire_bytes)"
proof -
  have "ok w (snd (pacer_wait_loop pb cap now p w))" for pb cap now p w
  proof (induction pb cap now p w rule: pacer_wait_loop.induct)
    case (1 pb cap now p w)
    let ?m = "io_bind (perform_waits (wait_actions p pb cap now)) (\<lambda>_. clock_now)"
    obtain r w' where m: "?m w = (r, w')" by fastforce
    moreover have "keeps ?m" by (intro keeps_bind keeps_perform_waits assms)
    ultimately have "ok w w'" by (metis keepsD)
    with 1 m show ?case
      by (subst pacer_wait_loop.simps) (auto split: outcome.splits intro: ok_trans ok_refl)
  qed
  then have "keeps (pacer_wait_loop pb cap now p)" for pb cap now p by (intro keepsI)
  then show ?thesis
    unfolding pacer_wait_def Let_def by (intro keeps_bind keeps_return assms)
qed

lemma keeps_receive_expected:
  assumes "keeps clock_now" and "\<And>t. keeps (poll_socket t)" and "keeps (recvfrom kReceiveBufferBytes)"
  shows "keeps (receive_expected server t sid timeout stats)"
proof -
  have round: "keeps (receive_round server t sid deadline stats)" for deadline stats
    unfolding receive_round_def timed_poll_def case_prod_beta by (intro keeps_intros assms)
  have "ok w (snd (receive_loop server t sid deadline stats w))" for deadline stats w
  proof (induction server t sid deadline stats w rule: receive_loop.induct)
    case (1 server t sid deadline stats w)
    obtain r w' where r: "receive_round server t sid deadline stats w = (r, w')" by fastforce
    have "keeps (receive_round server t sid deadline stats)"
      unfolding receive_round_def timed_poll_def case_prod_beta by (intro keeps_intros assms)
    from keepsD [OF this r] 1 r show ?case
      by (subst receive_loop.simps)
        (auto split: outcome.splits receive_step.splits prod.splits intro: ok_trans)
  qed
  then have "keeps (receive_loop server t sid deadline stats)" for deadline stats by (intro keepsI)
  then show ?thesis unfolding receive_expected_def by (intro keeps_bind assms)
qed

lemma keeps_apply_ack: "keeps clock_now \<Longrightarrow> keeps (apply_ack_packet packet window)"
  unfolding apply_ack_packet_def by (intro keeps_intros)

lemma keeps_drain_acks:
  assumes "keeps clock_now" and "keeps (recvfrom kReceiveBufferBytes)"
  shows "keeps (drain_acks server sid window)"
proof (rule keepsI)
  have one: "keeps (drain_one server sid source buffer window)" for server sid source buffer window
    unfolding drain_one_def by (intro keeps_intros keeps_apply_ack assms)
  fix w show "ok w (snd (drain_acks server sid window w))"
  proof (induction server sid window w rule: drain_acks.induct)
    case (1 server sid window w)
    obtain r w' where rf: "recvfrom kReceiveBufferBytes w = (r, w')" by fastforce
    then have *: "ok w w'" by (rule keepsD [OF assms(2)])
    show ?case
    proof (cases "\<exists>source buffer. r = Returned (Datagram source buffer)")
      case True
      then obtain source buffer where r: "r = Returned (Datagram source buffer)" by blast
      obtain s w'' where d: "drain_one server sid source buffer window w' = (s, w'')" by fastforce
      then have "ok w w''" using ok_trans [OF * keepsD [OF one]] by blast
      with 1 rf r d show ?thesis
        by (subst drain_acks.simps) (auto split: outcome.splits intro: ok_trans)
    next
      case False
      with 1 rf * show ?thesis
        by (subst drain_acks.simps)
          (auto simp: throw_errno_def split: outcome.splits recv_result.splits intro: ok_trans)
    qed
  qed
qed

lemma keeps_client_idle:
  assumes "keeps clock_now" and "\<And>t. keeps (poll_socket t)" and "keeps (recvfrom kReceiveBufferBytes)"
  shows "keeps (client_idle cfg st)"
  unfolding client_idle_def wait_for_ack_def Let_def case_prod_beta
  by (intro keeps_intros keeps_receive_expected keeps_apply_ack assms)

lemma keeps_client_send:
  assumes "keeps clock_now" and "keeps (recvfrom kReceiveBufferBytes)"
    and "keeps (send_data_packet (cc_server cfg) (data_header cfg d) (data_from cfg (sequence d))
      (chunk_length (cc_size cfg) (cc_chunk_size cfg) (sequence d)))"
  shows "keeps (client_send cfg d st)"
  unfolding client_send_def client_pace_def note_first_data_def client_drain_def Let_def
  by (intro keeps_intros keeps_pacer_wait keeps_drain_acks assms)

end

lemma clock_send_data: "clock_le.keeps (send_data_packet server header payload n)"
  unfolding send_data_packet_def by (intro clock_le.keeps_intros clock_le.keeps_send_loop clock_keeps)

lemma clock_client_drain: "clock_le.keeps (client_drain cfg st)"
  unfolding client_drain_def by (intro clock_le.keeps_intros clock_le.keeps_drain_acks clock_keeps)

lemma client_round_consumes:
  assumes "(Returned st', w') = client_round cfg st w"
  shows "length (wd_clock w') < length (wd_clock w)"
proof -
  obtain st1 w1 where d: "client_drain cfg st w = (Returned st1, w1)"
    and r: "(Returned st', w') = io_bind clock_now (\<lambda>now.
     let st = st1\<lparr>cl_window := check_timeouts (cl_window st1) now (ms kDefaultRtoMs)\<rparr>
     in io_bind clock_now (\<lambda>sample_time.
        io_bind (sample_window sample_time st) (\<lambda>st.
        case select_next_packet (cl_window st) of
          (None, window) \<Rightarrow> client_idle cfg (st\<lparr>cl_window := window\<rparr>)
        | (Some decision, window) \<Rightarrow> client_send cfg decision (st\<lparr>cl_window := window\<rparr>)))) w1"
    using assms unfolding client_round_def
    by (subst (asm) (1) io_bind_def) (auto split: prod.splits outcome.splits)
  have "length (wd_clock w') < length (wd_clock w1)"
    using r unfolding Let_def case_prod_beta
    by (rule clock_bind_consumes)
      (unfold sample_window_def, intro clock_le.keeps_intros clock_keeps clock_le.keeps_client_idle
        clock_le.keeps_client_send clock_send_data)
  with clock_le.keepsD [OF clock_client_drain d] show ?thesis by linarith
qed

section \<open>run_client\<close>

function client_loop :: "client_config \<Rightarrow> client_state \<Rightarrow> client_state io" where
  "client_loop cfg st w =
     (if all_acked (cl_window st) then (Returned st, w)
      else
        case client_round cfg st w of
          (Returned st', w') \<Rightarrow> client_loop cfg st' w'
        | (Thrown e, w') \<Rightarrow> (Thrown e, w')
        | (Blocked, w') \<Rightarrow> (Blocked, w'))"
  by pat_completeness auto
termination
  by (relation "measure (\<lambda>(cfg, st, w). length (wd_clock w))") (auto dest: client_round_consumes)

declare client_loop.simps [simp del]

text \<open>The COMPLETE attempts that are left.\<close>

fun complete_handshake :: "nat \<Rightarrow> endpoint \<Rightarrow> u32 \<Rightarrow> u32 \<Rightarrow> complete_ack_payload io" where
  "complete_handshake 0 server sid total_chunks =
     io_throw (Runtime_error ''COMPLETE handshake timed out after 10 attempts'')"
| "complete_handshake (Suc n) server sid total_chunks =
     io_bind (send_packet server (make_header COMPLETE sid total_chunks) None 0) (\<lambda>_.
     io_bind (receive_expected server COMPLETE_ACK sid kControlTimeoutMs None) (\<lambda>(response, _).
     case response of
       None \<Rightarrow> complete_handshake n server sid total_chunks
     | Some packet \<Rightarrow>
         (case deserialize_complete_ack (view_payload packet) (view_payload_size packet) of
            None \<Rightarrow> io_throw (Runtime_error ''server returned an invalid COMPLETE_ACK'')
          | Some completed \<Rightarrow>
              if ca_status completed = OK then io_return completed
              else complete_handshake n server sid total_chunks)))"

definition init_client_state :: "sender_window \<Rightarrow> pacer \<Rightarrow> time_ns \<Rightarrow> client_state" where
  "init_client_state window p now =
     \<lparr>cl_window = window, cl_pacer = p, cl_sent_data_packets = 0, cl_retransmitted_packets = 0,
      cl_diagnostics = no_diagnostics, cl_sent_first_data = False, cl_first_data_time = 0,
      cl_next_window_sample = now + kWindowSampleInterval\<rparr>"

text \<open>\<^verbatim>\<open>static_cast<std::uint64_t>(options.rate_mbps * 1'000'000.0)\<close> truncates.\<close>

definition rate_bps :: "client_options \<Rightarrow> u64" where
  "rate_bps options = of_int \<lfloor>the (co_rate_mbps options) * 1000000\<rfloor>"

text \<open>From the accepted START to the reading of the end time.\<close>

definition client_exchange ::
    "client_options \<Rightarrow> client_config \<Rightarrow> (client_state \<times> complete_ack_payload \<times> time_ns) io" where
  "client_exchange options cfg =
     io_bind clock_now (\<lambda>now.
     io_bind (io_sum (make_sender_window (cc_total_chunks cfg)
         (sa_accepted_window_chunks (cc_accepted cfg)) (ucast (sa_accepted_bitmap_bits (cc_accepted cfg))) now)) (\<lambda>window.
     io_bind clock_now (\<lambda>now.
     io_bind (io_sum (make_pacer (rate_bps options) now)) (\<lambda>p.
     io_bind clock_now (\<lambda>now.
     io_bind (client_loop cfg (init_client_state window p now)) (\<lambda>st.
     io_bind clock_now (\<lambda>now.
     let st = st\<lparr>cl_diagnostics := end_no_send now (cl_diagnostics st)\<rparr>
     in io_bind (complete_handshake kControlAttempts (cc_server cfg) (cc_session_id cfg) (cc_total_chunks cfg)) (\<lambda>completed.
        if ca_received_chunks completed \<noteq> cc_total_chunks cfg \<or> ca_received_bytes completed \<noteq> cc_size cfg
        then io_throw (Runtime_error ''server completion statistics do not match the input file'')
        else io_bind clock_now (\<lambda>end_time. io_return (st, completed, end_time))))))))))"

section \<open>The final report\<close>

definition elapsed_seconds :: "client_state \<Rightarrow> time_ns \<Rightarrow> rat" where
  "elapsed_seconds st end_time =
     (if cl_sent_first_data st then seconds (end_time - cl_first_data_time st) else 0)"

definition transfer_lines ::
    "client_config \<Rightarrow> client_state \<Rightarrow> complete_ack_payload \<Rightarrow> time_ns \<Rightarrow> shown list list" where
  "transfer_lines cfg st completed end_time =
     [[Text ''Transfer complete''],
      whole_line ''  session: '' (uint (cc_session_id cfg)),
      whole_line ''  file bytes: '' (uint (cc_size cfg)),
      whole_line ''  DATA packets: '' (uint (cl_sent_data_packets st)),
      whole_line ''  retransmitted DATA packets: '' (uint (cl_retransmitted_packets st)),
      floating_line ''  elapsed seconds: '' (elapsed_seconds st end_time),
      floating_line ''  client throughput Mbps: ''
        (throughput_mbps (cc_size cfg) (elapsed_seconds st end_time)),
      whole_line ''  receiver data time us: '' (uint (ca_receiver_transfer_time_us completed))]"

definition timing_lines :: "client_state \<Rightarrow> time_ns \<Rightarrow> shown list list" where
  "timing_lines st end_time =
     (let d = cl_diagnostics st
      in [[Text ''Performance diagnostics:''],
          floating_line ''  total transfer time s: '' (elapsed_seconds st end_time),
          floating_line ''  pacer wait time s: '' (seconds (ts_total (pd_pacer d))),
          whole_line ''  pacer wait calls: '' (uint (ts_calls (pd_pacer d))),
          floating_line ''  average pacer wait us: '' (average_microseconds (pd_pacer d)),
          floating_line ''  no-send idle time s: '' (seconds (ts_total (pd_no_send_wait d))),
          whole_line ''  no-send wait calls: '' (uint (ts_calls (pd_no_send_wait d))),
          whole_line ''  no-send episodes: '' (uint (no_send_episodes d)),
          floating_line ''  longest no-send episode ms: '' (milliseconds (longest_no_send_episode d)),
          floating_line ''  window-blocked idle time s: '' (seconds (window_blocked_idle d)),
          floating_line ''  all-DATA-issued idle time s: '' (seconds (all_data_issued_idle d)),
          floating_line ''  other no-send idle time s: '' (seconds (other_idle d)),
          floating_line ''  poll wait time s: '' (seconds (ts_total (pd_poll_wait d))),
          whole_line ''  poll calls: '' (uint (ts_calls (pd_poll_wait d))),
          floating_line ''  average poll duration us: '' (average_microseconds (pd_poll_wait d)),
          floating_line ''  longest poll duration ms: '' (milliseconds (ts_longest (pd_poll_wait d)))])"

definition window_lines :: "client_state \<Rightarrow> shown list list" where
  "window_lines st =
     (let d = cl_diagnostics st;
          window = cl_window st;
          events = sw_base_advancement_events window;
          ws = window_samples d
      in [whole_line ''  base advancement events: '' (uint events),
          floating_line ''  longest base stall ms: '' (milliseconds (sw_longest_base_stall_time window)),
          floating_line ''  average base stall ms: ''
            (if events = 0 then 0
             else milliseconds (sw_total_base_stall_time window) / of_nat (unat events)),
          whole_line ''  fast retransmits: '' (uint (fast_retransmits d)),
          whole_line ''  RTO retransmits: '' (uint (rto_retransmits d)),
          whole_line ''  window samples: '' (uint (samples ws)),
          whole_line ''  max sequence span: '' (uint (max_span ws)),
          floating_line ''  average sequence span: '' (sample_average (span_total ws) (samples ws)),
          whole_line ''  max outstanding unacked: '' (uint (max_unacked ws)),
          floating_line ''  average outstanding unacked: '' (sample_average (unacked_total ws) (samples ws)),
          whole_line ''  max acked-behind-hole: '' (uint (max_acked_behind_hole ws)),
          floating_line ''  average acked-behind-hole: ''
            (sample_average (acked_behind_hole_total ws) (samples ws)),
          whole_line ''  max retransmit-pending: '' (uint (max_retransmit_pending ws)),
          floating_line ''  average retransmit-pending: ''
            (sample_average (retransmit_pending_total ws) (samples ws)),
          [Text ''  timing overlap: no-send includes poll; window-blocked and all-DATA-issued may overlap'']])"

definition client_report ::
    "client_config \<Rightarrow> client_state \<Rightarrow> complete_ack_payload \<Rightarrow> time_ns \<Rightarrow> shown list list" where
  "client_report cfg st completed end_time =
     transfer_lines cfg st completed end_time @ timing_lines st end_time @ window_lines st"

text \<open>From the accepted START to the end; the value is what the report is made of.\<close>

definition client_transfer ::
    "client_options \<Rightarrow> client_config \<Rightarrow> (client_state \<times> complete_ack_payload) io" where
  "client_transfer options cfg =
     io_bind (client_exchange options cfg) (\<lambda>(st, completed, end_time).
     io_bind (print_lines Cout (client_report cfg st completed end_time)) (\<lambda>_.
     io_return (st, completed)))"

text \<open>The body of the \<^verbatim>\<open>try\<close> block.  The result of \<^verbatim>\<open>setsockopt\<close> and the values of the random device are
  parameters.\<close>

definition client_session ::
    "int \<Rightarrow> (u32 \<times> u32) list \<Rightarrow> client_options \<Rightarrow> bytes_ptr \<Rightarrow> u64 \<Rightarrow> u32 \<Rightarrow> u32 \<Rightarrow> endpoint \<Rightarrow>
      (client_state \<times> complete_ack_payload) io" where
  "client_session discover_rc randoms options data file_size chunk_size total_chunks server =
     (if discover_rc \<noteq> 0 then throw_errno ''cannot enable path-MTU checks: ''
      else
        case random_session_id randoms of
          None \<Rightarrow> (\<lambda>w. (Blocked, w))
        | Some sid \<Rightarrow>
            io_bind (start_handshake kControlAttempts server sid
                (start_request file_size chunk_size total_chunks)) (\<lambda>accepted.
            if \<not> valid_acceptance accepted
            then io_throw (Runtime_error ''server accepted an invalid sliding window'')
            else client_transfer options
              \<lparr>cc_server = server, cc_session_id = sid, cc_data = data, cc_size = file_size,
               cc_chunk_size = chunk_size, cc_total_chunks = total_chunks, cc_accepted = accepted\<rparr>))"

text \<open>What happens while the input file is open; \<open>contents\<close> are the bytes of its mapping.\<close>

definition send_file ::
    "(string \<Rightarrow> u16 \<Rightarrow> string + endpoint) \<Rightarrow> bytes \<Rightarrow> int \<Rightarrow> int \<Rightarrow> (u32 \<times> u32) list \<Rightarrow>
      client_options \<Rightarrow> mapped_file \<Rightarrow> (client_state \<times> complete_ack_payload) io" where
  "send_file getaddrinfo contents socket_fd discover_rc randoms options f =
     io_bind (io_sum (chunk_size_for_mtu (co_mtu options))) (\<lambda>chunk_size.
     io_bind (io_sum (chunk_count (mf_size f) chunk_size)) (\<lambda>total_chunks.
     if default_window_chunks chunk_size > ucast kDefaultAckBitmapBits
     then io_throw (Runtime_error ''configured MTU makes the default window exceed ACK coverage'')
     else io_bind (io_sum (resolve_server getaddrinfo options)) (\<lambda>server.
       if socket_fd < 0 then throw_errno ''socket failed: ''
       else io_on_throw
         (io_bind (client_session discover_rc randoms options (map_option (\<lambda>_. contents) (mf_data f))
             (mf_size f) chunk_size total_chunks server) (\<lambda>report.
          io_bind (close_socket socket_fd) (\<lambda>_. io_return report)))
         (close_socket socket_fd))))"

definition run_client ::
    "(string \<Rightarrow> u16 \<Rightarrow> string + endpoint) \<Rightarrow> file_kernel \<Rightarrow> bytes \<Rightarrow> int \<Rightarrow> int \<Rightarrow> (u32 \<times> u32) list \<Rightarrow>
      client_options \<Rightarrow> (client_state \<times> complete_ack_payload) io" where
  "run_client getaddrinfo k contents socket_fd discover_rc randoms options =
     (let (input, calls) = open_input k (co_file options)
      in io_bind (log_files calls) (\<lambda>_.
         case input of
           Inl e \<Rightarrow> io_throw e
         | Inr f \<Rightarrow>
             io_finally (send_file getaddrinfo contents socket_fd discover_rc randoms options f)
               (log_files (close_input f))))"

end
