(* ===== verification/Io_Rules.thy ===== *)
theory Io_Rules
  imports Socket_Io
begin

text \<open>
  Reasoning about steps of a program: what a step that returns has done, and a judgement \<open>does\<close> in
  the style of a Hoare logic for steps that may also throw or block.
\<close>

section \<open>Sending one datagram\<close>

lemma send_loop_returned:
  "send_loop what dest d w = (Returned u, w') \<Longrightarrow>
     wd_sent w' = wd_sent w @ [(dest, d)] \<and> wd_recvs w' = wd_recvs w \<and>
     wd_files w' = wd_files w \<and> wd_closed w' = wd_closed w"
proof (induction what dest d w rule: send_loop.induct)
  case (1 what dest d w)
  show ?case
  proof (cases "wd_sends w")
    case Nil
    then show ?thesis using 1(2) by (subst (asm) send_loop.simps) (simp add: sendto_def)
  next
    case (Cons r rs)
    show ?thesis
    proof (cases r)
      case (Sent n)
      with 1(2) Cons show ?thesis
        by (subst (asm) send_loop.simps) (auto simp: sendto_def throw_errno_def split: if_splits)
    next
      case Send_interrupted
      let ?w = "w\<lparr>wd_sends := rs\<rparr>"
      have st: "sendto dest d w = (Returned Send_interrupted, ?w)"
        by (simp add: sendto_def Cons Send_interrupted)
      with 1(2) have "send_loop what dest d ?w = (Returned u, w')"
        by (subst (asm) send_loop.simps) simp
      from 1(1) [OF st [symmetric] refl refl this] show ?thesis by simp
    next
      case Send_failed
      with 1(2) Cons show ?thesis
        by (subst (asm) send_loop.simps) (simp add: sendto_def throw_errno_def)
    qed
  qed
qed

lemma send_packet_returned:
  assumes "send_packet dest h p n w = (Returned u, w')"
  shows "\<exists>d. serialize_packet h p n = Inr d \<and> wd_sent w' = wd_sent w @ [(dest, d)]"
    and "wd_recvs w' = wd_recvs w \<and> wd_files w' = wd_files w \<and> wd_closed w' = wd_closed w"
proof -
  obtain d where "serialize_packet h p n = Inr d" "send_loop ''sendto failed: '' dest d w = (Returned u, w')"
    using assms by (auto simp: send_packet_def io_defs split: sum.splits)
  with send_loop_returned [OF this(2)]
  show "\<exists>d. serialize_packet h p n = Inr d \<and> wd_sent w' = wd_sent w @ [(dest, d)]"
    "wd_recvs w' = wd_recvs w \<and> wd_files w' = wd_files w \<and> wd_closed w' = wd_closed w"
    by auto
qed

lemma io_bind_returned:
  "io_bind m f w = (Returned b, w') \<longleftrightarrow> (\<exists>a w1. m w = (Returned a, w1) \<and> f a w1 = (Returned b, w'))"
  by (auto simp: io_bind_def split: prod.splits outcome.splits)

lemma io_return_returned [simp]: "io_return a w = (Returned b, w') \<longleftrightarrow> b = a \<and> w' = w"
  by (auto simp: io_return_def)

lemma io_sum_returned: "io_sum r w = (Returned b, w') \<longleftrightarrow> r = Inr b \<and> w' = w"
  by (auto simp: io_sum_def io_throw_def io_return_def split: sum.splits)

lemma clock_now_returned:
  "clock_now w = (Returned t, w') \<Longrightarrow>
     wd_clock w = t # wd_clock w' \<and> wd_sent w' = wd_sent w \<and> wd_recvs w' = wd_recvs w \<and> wd_files w' = wd_files w \<and>
     wd_closed w' = wd_closed w"
  by (auto simp: clock_now_def split: list.splits)

lemma io_bind_return [simp]: "io_bind (io_return a) f = f a"
  by (simp add: fun_eq_iff io_bind_def io_return_def)

lemma io_throw_bind [simp]: "io_bind (io_throw e) f = io_throw e" "io_sum (Inl e) = io_throw e"
  by (simp_all add: fun_eq_iff io_bind_def io_throw_def io_sum_def)

lemma io_sum_Inr [simp]: "io_sum (Inr a) = io_return a"
  by (simp add: io_sum_def)

lemma no_value_thrown [simp]:
  "io_throw e w \<noteq> (Returned a, w')" "throw_errno what w \<noteq> (Returned a, w')"
  by (simp_all add: io_throw_def throw_errno_def)

lemma io_on_throw_returned: "io_on_throw m h w = (Returned a, w') \<longleftrightarrow> m w = (Returned a, w')"
  by (auto simp: io_on_throw_def io_bind_def io_throw_def split: prod.splits outcome.splits)

lemma io_finally_returned:
  "io_finally m c w = (Returned a, w') \<longleftrightarrow> (\<exists>w1 u. m w = (Returned a, w1) \<and> c w1 = (Returned u, w'))"
  by (auto simp: io_finally_def io_bind_def io_throw_def io_return_def split: prod.splits outcome.splits)

section \<open>Datagrams cut to the receive buffer\<close>

text \<open>The packet the bytes of an arriving datagram parse to.\<close>

definition parses_to :: "bytes \<Rightarrow> packet_view \<Rightarrow> bool" where
  "parses_to bs packet \<longleftrightarrow>
     deserialize_packet_view (Some (take kReceiveBufferBytes bs))
       (length (take kReceiveBufferBytes bs)) = Inr packet"

lemma parses_to_unique: "parses_to bs v \<Longrightarrow> parses_to bs v' \<Longrightarrow> v = v'"
  by (simp add: parses_to_def)

section \<open>What a step does\<close>

text \<open>Every datagram a step adds to the log satisfies \<open>P\<close>.\<close>

definition emits :: "(endpoint \<times> bytes \<Rightarrow> bool) \<Rightarrow> world \<Rightarrow> world \<Rightarrow> bool" where
  "emits P w w' \<longleftrightarrow> (\<exists>ds. wd_sent w' = wd_sent w @ ds \<and> (\<forall>x \<in> set ds. P x))"

lemma emits_refl [simp]: "wd_sent w' = wd_sent w \<Longrightarrow> emits P w w'"
  by (simp add: emits_def)

lemma emits_trans: "emits P u v \<Longrightarrow> emits P v w \<Longrightarrow> emits P u w"
  unfolding emits_def by (elim exE conjE) auto

text \<open>
  The same for whole datagrams, where a call may have failed: everything sent satisfies \<open>P\<close>, except
  that after a failure the last thing on the wire may be the first \<open>n\<close> bytes of such a datagram, \<open>n\<close>
  being what the last \<^verbatim>\<open>sendto\<close> or \<^verbatim>\<open>sendmsg\<close> of the step reported.
\<close>

definition sends_whole :: "(endpoint \<times> bytes \<Rightarrow> bool) \<Rightarrow> bool \<Rightarrow> world \<Rightarrow> world \<Rightarrow> bool" where
  "sends_whole P failed w w' \<longleftrightarrow> (\<exists>used ds. wd_sends w = used @ wd_sends w' \<and> (\<forall>x \<in> set ds. P x) \<and>
     (wd_sent w' = wd_sent w @ ds \<or>
      failed \<and> (\<exists>n dest d. used \<noteq> [] \<and> last used = Sent n \<and> n < length d \<and> P (dest, d) \<and>
        wd_sent w' = wd_sent w @ ds @ [(dest, take n d)])))"

lemma sends_whole_refl [simp]: "wd_sends w' = wd_sends w \<Longrightarrow> wd_sent w' = wd_sent w \<Longrightarrow> sends_whole P b w w'"
  by (simp add: sends_whole_def)

lemma sends_whole_trans:
  assumes "sends_whole P False u v" and "sends_whole P b v w"
  shows "sends_whole P b u w"
proof -
  obtain used1 ds1 where 1: "wd_sends u = used1 @ wd_sends v" "\<forall>x \<in> set ds1. P x" "wd_sent v = wd_sent u @ ds1"
    using assms(1) by (auto simp: sends_whole_def)
  obtain used2 ds2 where 2: "wd_sends v = used2 @ wd_sends w" "\<forall>x \<in> set ds2. P x"
    "wd_sent w = wd_sent v @ ds2 \<or> b \<and> (\<exists>n dest d. used2 \<noteq> [] \<and> last used2 = Sent n \<and> n < length d \<and>
       P (dest, d) \<and> wd_sent w = wd_sent v @ ds2 @ [(dest, take n d)])"
    using assms(2) unfolding sends_whole_def by blast
  from 1 2 show ?thesis
    unfolding sends_whole_def
    by (intro exI [of _ "used1 @ used2"] exI [of _ "ds1 @ ds2"]) (auto simp: last_append)
qed

lemma sends_whole_failed: "sends_whole P False w w' \<Longrightarrow> sends_whole P b w w'"
  unfolding sends_whole_def by blast

lemma sends_whole_mono: "sends_whole P b w w' \<Longrightarrow> (\<And>x. P x \<Longrightarrow> P' x) \<Longrightarrow> sends_whole P' b w w'"
  unfolding sends_whole_def by blast

text \<open>Whole or not, what is sent is the beginning of a datagram that satisfies \<open>P\<close>.\<close>

lemma sends_whole_emits:
  assumes "sends_whole P b w w'"
  shows "emits (\<lambda>(dest, bs). \<exists>n d. P (dest, d) \<and> bs = take n d) w w'"
proof -
  have whole: "\<forall>x \<in> set ds. case x of (dest, bs) \<Rightarrow> \<exists>n d. P (dest, d) \<and> bs = take n d" if "\<forall>x \<in> set ds. P x" for ds
  proof clarify
    fix dest bs assume "(dest, bs) \<in> set ds"
    with that show "\<exists>n d. P (dest, d) \<and> bs = take n d" by (intro exI [of _ "length bs"] exI [of _ bs]) simp
  qed
  from assms consider ds where "wd_sent w' = wd_sent w @ ds" "\<forall>x \<in> set ds. P x"
    | ds n dest d where "wd_sent w' = wd_sent w @ ds @ [(dest, take n d)]" "\<forall>x \<in> set ds. P x" "P (dest, d)"
    unfolding sends_whole_def by blast
  then show ?thesis
  proof cases
    case 1
    with whole show ?thesis unfolding emits_def by blast
  next
    case (2 ds n dest d)
    with whole [OF 2(2)] show ?thesis
      unfolding emits_def by (intro exI [of _ "ds @ [(dest, take n d)]"]) auto
  qed
qed

text \<open>The outcomes with which a call can have failed.\<close>

definition call_failed :: "'a outcome \<Rightarrow> bool" where
  "call_failed r \<longleftrightarrow> (\<exists>s. r = Thrown (Runtime_error s))"

lemma call_failed_simps [simp]:
  "\<not> call_failed (Returned a)" "\<not> call_failed Blocked"
  "call_failed (Thrown e :: 'a outcome) \<longleftrightarrow> (\<exists>s. e = Runtime_error s)"
  by (simp_all add: call_failed_def)

text \<open>
  From a world whose pending arrivals are among \<open>R\<close>, a step sends only datagrams that satisfy \<open>P\<close>, whole
  unless a call fails, throws only errors that satisfy \<open>E\<close>, and returns only values that satisfy \<open>Q\<close>,
  whatever the operating system answers.
\<close>

definition does ::
    "(frft_error \<Rightarrow> bool) \<Rightarrow> (endpoint \<times> bytes \<Rightarrow> bool) \<Rightarrow> recv_result set \<Rightarrow> 'a io \<Rightarrow> ('a \<Rightarrow> bool) \<Rightarrow> bool" where
  "does E P R m Q \<longleftrightarrow> (\<forall>w. set (wd_recvs w) \<subseteq> R \<longrightarrow>
     (case m w of (r, w') \<Rightarrow> set (wd_recvs w') \<subseteq> R \<and> sends_whole P (call_failed r) w w' \<and>
        (case r of Returned a \<Rightarrow> Q a | Thrown e \<Rightarrow> E e | Blocked \<Rightarrow> True)))"

lemma doesI:
  assumes "\<And>w r w'. set (wd_recvs w) \<subseteq> R \<Longrightarrow> m w = (r, w') \<Longrightarrow> set (wd_recvs w') \<subseteq> R \<and> sends_whole P (call_failed r) w w' \<and>
    (case r of Returned a \<Rightarrow> Q a | Thrown e \<Rightarrow> E e | Blocked \<Rightarrow> True)"
  shows "does E P R m Q"
  using assms by (fastforce simp: does_def split: prod.splits)

lemma doesD:
  assumes "does E P R m Q" and "m w = (r, w')" and "set (wd_recvs w) \<subseteq> R"
  shows "set (wd_recvs w') \<subseteq> R" and "sends_whole P (call_failed r) w w'"
    and "case r of Returned a \<Rightarrow> Q a | Thrown e \<Rightarrow> E e | Blocked \<Rightarrow> True"
  using assms(1) [unfolded does_def, rule_format, OF assms(3)] assms(2) by simp_all

lemma does_mono:
  assumes "does E P R m Q" and "\<And>a. Q a \<Longrightarrow> Q' a"
  shows "does E P R m Q'"
proof (rule doesI)
  fix w r w' assume "set (wd_recvs w) \<subseteq> R" "m w = (r, w')"
  from doesD [OF assms(1) this(2,1)] assms(2)
  show "set (wd_recvs w') \<subseteq> R \<and> sends_whole P (call_failed r) w w' \<and>
    (case r of Returned a \<Rightarrow> Q' a | Thrown e \<Rightarrow> E e | Blocked \<Rightarrow> True)"
    by (cases r) auto
qed

lemma does_return: "Q a \<Longrightarrow> does E P R (io_return a) Q"
  by (simp add: does_def io_return_def)

lemma does_throw: "E e \<Longrightarrow> does E P R (io_throw e) Q"
  by (simp add: does_def io_throw_def)

lemma does_throw_errno: "(\<And>s. E (Runtime_error s)) \<Longrightarrow> does E P R (throw_errno what) Q"
  by (simp add: does_def throw_errno_def)

lemma does_sum: "(\<And>e. r = Inl e \<Longrightarrow> E e) \<Longrightarrow> (\<And>a. r = Inr a \<Longrightarrow> Q a) \<Longrightarrow> does E P R (io_sum r) Q"
  by (cases r) (simp_all add: io_sum_def does_return does_throw)

lemma does_bind:
  assumes m: "does E P R m Q" and f: "\<And>a. Q a \<Longrightarrow> does E P R (f a) S"
  shows "does E P R (io_bind m f) S"
proof (rule doesI)
  fix w r w' assume w: "set (wd_recvs w) \<subseteq> R" and run: "io_bind m f w = (r, w')"
  obtain s v where mw: "m w = (s, v)" by fastforce
  note M = doesD [OF m mw w]
  show "set (wd_recvs w') \<subseteq> R \<and> sends_whole P (call_failed r) w w' \<and>
    (case r of Returned a \<Rightarrow> S a | Thrown e \<Rightarrow> E e | Blocked \<Rightarrow> True)"
  proof (cases s)
    case (Returned a)
    then have "f a v = (r, w')" using run mw by (simp add: io_bind_def)
    from doesD [OF f this M(1)] M Returned show ?thesis by (auto intro: sends_whole_trans)
  qed (use run mw M in \<open>auto simp: io_bind_def\<close>)
qed

lemma does_if:
  "(b \<Longrightarrow> does E P R m Q) \<Longrightarrow> (\<not> b \<Longrightarrow> does E P R m' Q) \<Longrightarrow> does E P R (if b then m else m') Q"
  by simp

lemma does_clock: "does E P R clock_now (\<lambda>_. True)"
  by (rule doesI) (auto simp: clock_now_def split: list.splits)

lemma does_poll: "does E P R (poll_socket t) (\<lambda>_. True)"
  by (rule doesI) (auto simp: poll_socket_def split: list.splits)

lemma does_log: "does E P R (log_files calls) (\<lambda>_. True)" "does E P R (close_socket fd) (\<lambda>_. True)"
  "does E P R (print_lines stream ls) (\<lambda>_. True)"
  by (rule doesI, auto simp: log_files_def close_socket_def print_lines_def)+

text \<open>A datagram received is one of those that arrive, cut to the buffer.\<close>

lemma does_recvfrom:
  "does E P R (recvfrom n) (\<lambda>r. \<forall>source bs. r = Datagram source bs \<longrightarrow>
     (\<exists>whole. Datagram source whole \<in> R \<and> bs = take n whole))"
  by (rule doesI) (auto simp: recvfrom_def split: list.splits recv_result.splits)

lemma does_send_loop:
  assumes "\<And>s. E (Runtime_error s)" and "P (dest, d)"
  shows "does E P R (send_loop what dest d) (\<lambda>_. True)"
proof (rule doesI)
  fix w r w'
  show "set (wd_recvs w) \<subseteq> R \<Longrightarrow> send_loop what dest d w = (r, w') \<Longrightarrow>
    set (wd_recvs w') \<subseteq> R \<and> sends_whole P (call_failed r) w w' \<and>
    (case r of Returned a \<Rightarrow> True | Thrown e \<Rightarrow> E e | Blocked \<Rightarrow> True)"
  proof (induction "length (wd_sends w)" arbitrary: w rule: less_induct)
    case less
    show ?case
    proof (cases "wd_sends w")
      case Nil
      with less show ?thesis by (auto simp: send_loop.simps [of what dest d w] sendto_def)
    next
      case (Cons x xs)
      show ?thesis
      proof (cases x)
        case Send_interrupted
        have one: "sends_whole P False w (w\<lparr>wd_sends := xs\<rparr>)"
          using Cons by (simp add: sends_whole_def)
        from less(3) Cons Send_interrupted have "send_loop what dest d (w\<lparr>wd_sends := xs\<rparr>) = (r, w')"
          by (simp add: send_loop.simps [of what dest d w] sendto_def)
        from less(1) [OF _ _ this] less(2) Cons show ?thesis by (auto intro: sends_whole_trans [OF one])
      next
        case (Sent n)
        let ?w = "w\<lparr>wd_sends := xs, wd_sent := wd_sent w @ [(dest, take n d)]\<rparr>"
        have r: "w' = ?w" "r = (if n \<noteq> length d then Thrown (Runtime_error (what @ wd_strerror w)) else Returned ())"
          using less(3) Cons Sent by (auto simp: send_loop.simps [of what dest d w] sendto_def throw_errno_def split: if_splits)
        have "sends_whole P (call_failed r) w ?w"
        proof (cases "n < length d")
          case True
          then show ?thesis using assms(2) Cons Sent r(2)
            unfolding sends_whole_def by (intro exI [of _ "[x]"] exI [of _ "[]"]) auto
        next
          case False
          then show ?thesis using assms(2) Cons
            unfolding sends_whole_def by (intro exI [of _ "[x]"] exI [of _ "[(dest, d)]"]) auto
        qed
        then show ?thesis using r less(2) by (auto simp: assms(1))
      next
        case Send_failed
        with less(2,3) Cons show ?thesis
          by (auto simp: send_loop.simps [of what dest d w] sendto_def throw_errno_def assms(1) sends_whole_def)
      qed
    qed
  qed
qed

lemma does_send_packet:
  assumes "\<And>s. E (Runtime_error s)" and "\<And>d. serialize_packet h p n = Inr d \<Longrightarrow> P (dest, d)"
    and "\<And>e. serialize_packet h p n = Inl e \<Longrightarrow> E e"
  shows "does E P R (send_packet dest h p n) (\<lambda>_. True)"
  unfolding send_packet_def
  by (rule does_bind [OF does_sum [where Q = "\<lambda>d. P (dest, d)"]])
    (use assms in \<open>auto intro: does_send_loop\<close>)

text \<open>Cleaning up neither sends nor fails.\<close>

definition quiet_step :: "unit io \<Rightarrow> bool" where
  "quiet_step c \<longleftrightarrow> (\<forall>w. \<exists>w'. c w = (Returned (), w') \<and> wd_recvs w' = wd_recvs w \<and>
     wd_sends w' = wd_sends w \<and> wd_sent w' = wd_sent w)"

lemma quiet_log: "quiet_step (log_files calls)" "quiet_step (close_socket fd)"
  by (simp_all add: quiet_step_def log_files_def close_socket_def)

lemma sends_whole_quiet:
  "wd_sends w' = wd_sends v \<Longrightarrow> wd_sent w' = wd_sent v \<Longrightarrow> sends_whole P b w v \<Longrightarrow> sends_whole P b w w'"
  by (simp add: sends_whole_def)

lemma does_finally:
  assumes m: "does E P R m Q" and c: "quiet_step cleanup"
  shows "does E P R (io_finally m cleanup) Q"
proof (rule doesI)
  fix w r w' assume w: "set (wd_recvs w) \<subseteq> R" and run: "io_finally m cleanup w = (r, w')"
  obtain s v where mw: "m w = (s, v)" by fastforce
  obtain u where u: "cleanup v = (Returned (), u)" "wd_recvs u = wd_recvs v" "wd_sends u = wd_sends v"
    "wd_sent u = wd_sent v" using c [unfolded quiet_step_def, rule_format, of v] by blast
  have "r = s \<and> w' = (if s = Blocked then v else u)"
    using run mw u(1) by (cases s) (auto simp: io_finally_def io_bind_def io_return_def io_throw_def)
  with doesD [OF m mw w] u(2) sends_whole_quiet [OF u(3,4)]
  show "set (wd_recvs w') \<subseteq> R \<and> sends_whole P (call_failed r) w w' \<and>
    (case r of Returned a \<Rightarrow> Q a | Thrown e \<Rightarrow> E e | Blocked \<Rightarrow> True)" by (cases s) auto
qed

lemma does_on_throw:
  assumes m: "does E P R m Q" and c: "quiet_step cleanup"
  shows "does E P R (io_on_throw m cleanup) Q"
proof (rule doesI)
  fix w r w' assume w: "set (wd_recvs w) \<subseteq> R" and run: "io_on_throw m cleanup w = (r, w')"
  obtain s v where mw: "m w = (s, v)" by fastforce
  obtain u where u: "cleanup v = (Returned (), u)" "wd_recvs u = wd_recvs v" "wd_sends u = wd_sends v"
    "wd_sent u = wd_sent v" using c [unfolded quiet_step_def, rule_format, of v] by blast
  have "r = s \<and> w' = (if \<exists>e. s = Thrown e then u else v)"
    using run mw u(1) by (cases s) (auto simp: io_on_throw_def io_bind_def io_throw_def)
  with doesD [OF m mw w] u(2) sends_whole_quiet [OF u(3,4)]
  show "set (wd_recvs w') \<subseteq> R \<and> sends_whole P (call_failed r) w w' \<and>
    (case r of Returned a \<Rightarrow> Q a | Thrown e \<Rightarrow> E e | Blocked \<Rightarrow> True)" by (cases s) auto
qed

text \<open>Blocking at once.\<close>

lemma does_blocked: "does E P R (\<lambda>w. (Blocked, w)) Q"
  by (simp add: does_def)

end
