(* ===== verification/Client_Invariant.thy ===== *)
theory Client_Invariant
  imports Client Io_Rules
begin

unbundle bit_operations_syntax

text \<open>
  What the client does on every path: which datagrams it sends, which errors it throws, what its
  window goes through, and what it knows when it returns.
\<close>

section \<open>The datagrams of a transfer\<close>

definition start_datagram :: "start_payload \<Rightarrow> u32 \<Rightarrow> bytes" where
  "start_datagram start sid = header_bytes (make_header START sid 0) 24 @ serialize_start start"

definition data_datagram :: "bytes \<Rightarrow> start_payload \<Rightarrow> u32 \<Rightarrow> u16 \<Rightarrow> u32 \<Rightarrow> bytes" where
  "data_datagram contents start sid fl s =
     (let chunk = chunk_bytes contents (sp_chunk_size start) s
      in header_bytes ((make_header DATA sid s)\<lparr>flags := fl\<rparr>) (length chunk) @ chunk)"

definition complete_datagram :: "start_payload \<Rightarrow> u32 \<Rightarrow> bytes" where
  "complete_datagram start sid = header_bytes (make_header COMPLETE sid (sp_total_chunks start)) 0"

definition client_datagram :: "bytes \<Rightarrow> start_payload \<Rightarrow> u32 \<Rightarrow> bytes \<Rightarrow> bool" where
  "client_datagram contents start sid d \<longleftrightarrow>
     d = start_datagram start sid \<or>
     (\<exists>s fl. s < sp_total_chunks start \<and> fl \<in> {0, FLAG_RETRANSMITTED} \<and>
        d = data_datagram contents start sid fl s) \<or>
     d = complete_datagram start sid"

definition client_sends :: "endpoint \<Rightarrow> bytes \<Rightarrow> start_payload \<Rightarrow> u32 \<Rightarrow> endpoint \<times> bytes \<Rightarrow> bool" where
  "client_sends server contents start sid = (\<lambda>(dest, d). dest = server \<and> client_datagram contents start sid d)"

lemma client_sendsI:
  "client_datagram contents start sid d \<Longrightarrow> client_sends server contents start sid (server, d)"
  by (simp add: client_sends_def)

lemma control_datagrams:
  "client_datagram contents start sid (start_datagram start sid)"
  "client_datagram contents start sid (complete_datagram start sid)"
  by (simp_all add: client_datagram_def)

definition runtime_error :: "frft_error \<Rightarrow> bool" where
  "runtime_error e \<longleftrightarrow> (\<exists>s. e = Runtime_error s)"

lemma runtime_errorI [simp, intro]: "runtime_error (Runtime_error s)"
  by (simp add: runtime_error_def)

section \<open>Consistent configurations\<close>

definition config_ok :: "bytes \<Rightarrow> client_config \<Rightarrow> bool" where
  "config_ok contents cfg \<longleftrightarrow>
     length contents = unat (cc_size cfg) \<and>
     chunk_count (cc_size cfg) (cc_chunk_size cfg) = Inr (cc_total_chunks cfg) \<and>
     unat (cc_chunk_size cfg) \<le> 65483 \<and>
     (cc_size cfg \<noteq> 0 \<longrightarrow> cc_data cfg = Some contents)"

definition request_of :: "client_config \<Rightarrow> start_payload" where
  "request_of cfg = start_request (cc_size cfg) (cc_chunk_size cfg) (cc_total_chunks cfg)"

lemma request_of_simps [simp]:
  "sp_total_chunks (request_of cfg) = cc_total_chunks cfg"
  "sp_chunk_size (request_of cfg) = cc_chunk_size cfg"
  "sp_file_size (request_of cfg) = cc_size cfg"
  by (simp_all add: request_of_def start_request_def)

text \<open>The window of a transfer, with the number of chunks that have been selected at least once, and the
  same between the rounds of the loop, where all of these have been sent.\<close>

definition window_on :: "client_config \<Rightarrow> u32 \<Rightarrow> sender_window \<Rightarrow> bool" where
  "window_on cfg n w \<longleftrightarrow> sw_next_sequence w = n \<and>
     (\<exists>t0. sender_reachable (cc_total_chunks cfg) (sa_accepted_window_chunks (cc_accepted cfg))
        (ucast (sa_accepted_bitmap_bits (cc_accepted cfg))) t0 w)"

definition launched :: "sender_window \<Rightarrow> bool" where
  "launched w \<longleftrightarrow> (\<forall>i < unat (sw_next_sequence w). cs_state (sw_chunks w ! i) \<noteq> UNSENT)"

definition window_at :: "client_config \<Rightarrow> u32 \<Rightarrow> sender_window \<Rightarrow> bool" where
  "window_at cfg n w \<longleftrightarrow> window_on cfg n w \<and> launched w"

text \<open>The counters: every DATA packet is the first of its chunk or a retransmission, and every
  retransmission is a fast one or follows a timeout.\<close>

definition counted :: "u32 \<Rightarrow> client_state \<Rightarrow> bool" where
  "counted n st \<longleftrightarrow>
     cl_sent_data_packets st = ucast n + cl_retransmitted_packets st \<and>
     cl_retransmitted_packets st =
       fast_retransmits (cl_diagnostics st) + rto_retransmits (cl_diagnostics st)"

definition client_at :: "client_config \<Rightarrow> u32 \<Rightarrow> client_state \<Rightarrow> bool" where
  "client_at cfg n st \<longleftrightarrow> window_at cfg n (cl_window st) \<and> counted n st"

definition client_ok :: "client_config \<Rightarrow> client_state \<Rightarrow> bool" where
  "client_ok cfg st \<longleftrightarrow> (\<exists>n. client_at cfg n st)"

lemma reachable_steps:
  assumes "sender_reachable n l c t0 w"
  shows "sender_reachable n l c t0 (process_ack w ack now)"
    and "sender_reachable n l c t0 (check_timeouts w now rto)"
    and "select_next_packet w = (d, w') \<Longrightarrow> sender_reachable n l c t0 w'"
    and "mark_sent w s t = Inr w' \<Longrightarrow> sender_reachable n l c t0 w'"
  using sender_reachable.called [OF assms, of "Process_ack ack now"]
    sender_reachable.called [OF assms, of "Check_timeouts now rto"]
    sender_reachable.called [OF assms, of Select]
    sender_reachable.called [OF assms, of "Mark_sent s t"] by simp_all

lemma window_on_inv:
  assumes "window_on cfg n w"
  shows "sw_inv w" and "sw_total_chunks w = cc_total_chunks cfg" and "sw_next_sequence w = n"
  using assms reachable_inv by (auto simp: window_on_def)

lemma window_on_steps:
  assumes "window_on cfg n w"
  shows "window_on cfg n (process_ack w ack now)"
    and "window_on cfg n (check_timeouts w now rto)"
    and "mark_sent w s t = Inr w' \<Longrightarrow> window_on cfg n w'"
    and "select_next_packet w = (None, w') \<Longrightarrow> window_on cfg n w'"
    and "select_next_packet w = (Some d, w') \<Longrightarrow>
      window_on cfg (if retransmission d then n else n + 1) w' \<and> n \<le> sw_next_sequence w'"
proof -
  note I = window_on_inv [OF assms]
  obtain t0 where R: "sender_reachable (cc_total_chunks cfg) (sa_accepted_window_chunks (cc_accepted cfg))
        (ucast (sa_accepted_bitmap_bits (cc_accepted cfg))) t0 w"
    using assms by (auto simp: window_on_def)
  note S = reachable_steps [OF R]
  show "window_on cfg n (process_ack w ack now)"
    using S(1) process_ack_inv(2) [OF I(1)] I(3) by (auto simp: window_on_def same_frame_def)
  show "window_on cfg n (check_timeouts w now rto)"
    using S(2) check_timeouts_inv(2) [OF I(1)] I(3) by (auto simp: window_on_def same_frame_def)
  show "window_on cfg n w'" if "mark_sent w s t = Inr w'"
    using S(4) [OF that] mark_sent_inv(3) [OF I(1) that] I(3) by (auto simp: window_on_def same_frame_def)
  show "window_on cfg n w'" if sel: "select_next_packet w = (None, w')"
  proof -
    have "sw_next_sequence w' = n" using sel by (cases rule: select_cases) (auto simp: I(3))
    then show ?thesis using S(3) [OF sel] by (auto simp: window_on_def)
  qed
  show "window_on cfg (if retransmission d then n else n + 1) w' \<and> n \<le> sw_next_sequence w'"
    if sel: "select_next_packet w = (Some d, w')"
  proof -
    have "sw_next_sequence w' = (if retransmission d then n else n + 1)"
      using sel by (cases rule: select_cases) (auto simp: I(3) update_chunk_def)
    then show ?thesis using S(3) [OF sel] select_inv(7) [OF I(1) sel] I(3)
      by (auto simp: window_on_def word_le_nat_alt)
  qed
qed

text \<open>No call takes a chunk back to \<^verbatim>\<open>UNSENT\<close>.\<close>

lemma sent_stays:
  assumes "sw_inv w" and "launched w" and "i < unat (sw_next_sequence w)"
  shows "cs_state (sw_chunks (perform call w) ! i) \<noteq> UNSENT"
proof -
  have "i < unat (sw_total_chunks w)"
    using assms(3) window_okD(3) [OF sw_invD(2) [OF assms(1)]] by simp
  from perform_state_mono [OF assms(1) this, of call] assms(2,3) show ?thesis
    by (cases "cs_state (sw_chunks w ! i)"; cases "cs_state (sw_chunks (perform call w) ! i)")
      (auto simp: launched_def less_eq_packet_state_def)
qed

lemma launched_frame:
  assumes "sw_inv w" and "launched w" and "sw_next_sequence (perform call w) = sw_next_sequence w"
  shows "launched (perform call w)"
  using sent_stays [OF assms(1,2)] by (simp add: launched_def [of "perform call w"] assms(3))

lemma window_at_inv:
  assumes "window_at cfg n w"
  shows "sw_inv w" and "sw_total_chunks w = cc_total_chunks cfg" and "sw_next_sequence w = n"
  using assms window_on_inv by (auto simp: window_at_def)

lemma window_at_steps:
  assumes "window_at cfg n w"
  shows "window_at cfg n (process_ack w ack now)"
    and "window_at cfg n (check_timeouts w now rto)"
    and "select_next_packet w = (None, w') \<Longrightarrow> window_at cfg n w'"
proof -
  have on: "window_on cfg n w" and l: "launched w" using assms by (simp_all add: window_at_def)
  note I = window_on_inv [OF on]
  note S = window_on_steps [OF on]
  show "window_at cfg n (process_ack w ack now)"
    using launched_frame [OF I(1) l, of "Process_ack ack now"] S(1) window_on_inv(3) [OF S(1)] I(3)
    by (simp add: window_at_def)
  show "window_at cfg n (check_timeouts w now rto)"
    using launched_frame [OF I(1) l, of "Check_timeouts now rto"] S(2) window_on_inv(3) [OF S(2)] I(3)
    by (simp add: window_at_def)
  show "window_at cfg n w'" if "select_next_packet w = (None, w')"
    using launched_frame [OF I(1) l, of Select] S(4) [OF that] window_on_inv(3) [OF S(4) [OF that]] I(3) that
    by (simp add: window_at_def)
qed

text \<open>A chunk that is selected and marked as sent.\<close>

lemma launched_sent:
  assumes inv: "sw_inv w0" and l: "launched w0" and sel: "select_next_packet w0 = (Some d, w)"
    and mark: "mark_sent w (sequence d) t = Inr w'"
  shows "launched w'"
  unfolding launched_def
proof (intro allI impI)
  note I = select_inv(1) [OF inv sel]
  note M = mark_sent_chunk [OF mark]
  have fr: "same_frame w w'" by (rule mark_sent_inv(3) [OF I mark])
  fix i assume "i < unat (sw_next_sequence w')"
  then have i: "i < unat (sw_next_sequence w)" using fr by (simp add: same_frame_def)
  have len: "i < length (sw_chunks w)"
    using i window_okD(1,3) [OF sw_invD(2) [OF I]] by simp
  show "cs_state (sw_chunks w' ! i) \<noteq> UNSENT"
  proof (cases "i = unat (sequence d)")
    case True
    then show ?thesis using M len by simp
  next
    case False
    have "i < unat (sw_next_sequence w0)"
      using sel
    proof (cases rule: select_cases)
      case fresh
      have "unat (sw_next_sequence w) \<le> Suc (unat (sw_next_sequence w0))"
        using fresh(4) by (simp add: unat_word_ariths)
      then show ?thesis using i False fresh(3) by simp
    qed (use i in auto)
    from sent_stays [OF inv l this, of Select] sel M False show ?thesis by simp
  qed
qed

section \<open>Sending a chunk\<close>

lemma send_data_datagram:
  assumes cfg: "config_ok contents cfg" and s: "sequence d < cc_total_chunks cfg"
  shows "send_data_packet (cc_server cfg) (data_header cfg d) (data_from cfg (sequence d))
      (chunk_length (cc_size cfg) (cc_chunk_size cfg) (sequence d)) =
    send_loop ''sendmsg failed: '' (cc_server cfg) (data_datagram contents (request_of cfg)
      (cc_session_id cfg) (if retransmission d then FLAG_RETRANSMITTED else 0) (sequence d))"
proof -
  let ?s = "sequence d" and ?c = "cc_chunk_size cfg" and ?n = "chunk_length (cc_size cfg) (cc_chunk_size cfg) (sequence d)"
  note C = cfg [unfolded config_ok_def]
  note F = chunk_in_file [OF C [THEN conjunct2, THEN conjunct1] s]
  have size: "of_nat (length contents) = cc_size cfg" using C by simp
  have "cc_size cfg \<noteq> 0" using F(3,4) C by auto
  then have data: "cc_data cfg = Some contents" using C by simp
  have chunk: "take ?n (the (data_from cfg ?s)) = chunk_bytes contents ?c ?s"
    by (simp add: data_from_def data chunk_bytes_def size)
  have len: "length (chunk_bytes contents ?c ?s) = ?n"
    using length_chunk_bytes [of contents ?c "cc_total_chunks cfg" ?s] C s size
      unat_u64_less [of "cc_size cfg"] by simp
  have "?n \<le> unat (cc_chunk_size cfg)" unfolding F(2) by simp
  then have small: "?n \<le> 65535" using C by linarith
  have "?n \<noteq> 0" "\<not> (data_from cfg ?s = None)" using F(3) by (simp_all add: data_from_def data)
  then show ?thesis
    by (simp add: send_data_packet_def serialize_packet_header_layout [OF small] data_datagram_def chunk len
        data_header_def make_header_def default_header_def Let_def del: not_None_eq)
qed

lemma send_data_sends:
  assumes cfg: "config_ok contents cfg" and s: "sequence d < cc_total_chunks cfg"
  shows "does runtime_error (client_sends (cc_server cfg) contents (request_of cfg) (cc_session_id cfg)) R
    (send_data_packet (cc_server cfg) (data_header cfg d) (data_from cfg (sequence d))
      (chunk_length (cc_size cfg) (cc_chunk_size cfg) (sequence d))) (\<lambda>_. True)"
  unfolding send_data_datagram [OF assms]
  using s by (intro does_send_loop client_sendsI) (auto simp: client_datagram_def)

section \<open>Receiving\<close>

text \<open>A packet the client takes notice of comes from the server, belongs to the session and has the
  type it waits for.\<close>

definition arrived ::
    "recv_result set \<Rightarrow> endpoint \<Rightarrow> packet_type \<Rightarrow> u32 \<Rightarrow> packet_view \<Rightarrow> bool" where
  "arrived R server t sid packet \<longleftrightarrow>
     (\<exists>bs. Datagram server bs \<in> R \<and> parses_to bs packet) \<and>
     session_id (view_header packet) = sid \<and> ptype (view_header packet) = t"

lemma expected_view_arrived:
  "expected_view server t sid source (take kReceiveBufferBytes whole) = Some packet \<Longrightarrow>
     Datagram source whole \<in> R \<Longrightarrow> arrived R server t sid packet"
  by (auto simp: expected_view_def arrived_def parses_to_def same_endpoint_eq
      simp del: length_take split: if_splits sum.splits)

lemma does_receive_round:
  "does runtime_error P R (receive_round server t sid deadline stats) (\<lambda>(step, stats').
     (\<forall>packet. step = Received packet \<longrightarrow> arrived R server t sid packet) \<and> (stats' = None \<longleftrightarrow> stats = None))"
proof -
  have poll: "does runtime_error P R (timed_poll timeout stats) (\<lambda>(ready, stats'). stats' = None \<longleftrightarrow> stats = None)" for timeout
    unfolding timed_poll_def
    by (cases stats) (auto intro!: does_bind [OF does_clock] does_bind [OF does_poll] does_return)
  have recv: "does runtime_error P R (case received of
      Datagram source buffer \<Rightarrow>
        (case expected_view server t sid source buffer of
           None \<Rightarrow> io_return (Again, stats')
         | Some packet \<Rightarrow> io_return (Received packet, stats'))
    | Recv_interrupted \<Rightarrow> io_return (Again, stats')
    | Recv_would_block \<Rightarrow> throw_errno ''recvfrom failed: ''
    | Recv_failed \<Rightarrow> throw_errno ''recvfrom failed: '') (\<lambda>(step, stats').
     (\<forall>packet. step = Received packet \<longrightarrow> arrived R server t sid packet) \<and> (stats' = None \<longleftrightarrow> stats = None))"
    if "stats' = None \<longleftrightarrow> stats = None"
      and "\<forall>source bs. received = Datagram source bs \<longrightarrow>
        (\<exists>whole. Datagram source whole \<in> R \<and> bs = take kReceiveBufferBytes whole)" for received stats'
    using that
    by (cases received)
      (auto intro!: does_return does_throw_errno split: option.splits dest: expected_view_arrived)
  show ?thesis
    unfolding receive_round_def
    apply (rule does_bind [OF does_clock])
    apply (rule does_if)
    apply (rule does_return, simp)
    apply (rule does_bind [OF does_clock])
    apply (rule does_bind [OF poll])
    apply clarify
    subgoal for _ _ ready stats'
      by (cases ready)
        (auto intro!: does_return does_throw_errno does_bind [OF does_recvfrom] recv)
    done
qed

lemma does_receive_expected:
  "does runtime_error P R (receive_expected server t sid timeout stats) (\<lambda>(received, stats').
     (\<forall>packet. received = Some packet \<longrightarrow> arrived R server t sid packet) \<and> (stats' = None \<longleftrightarrow> stats = None))"
proof -
  have "does runtime_error P R (receive_loop server t sid deadline stats) (\<lambda>(received, stats').
     (\<forall>packet. received = Some packet \<longrightarrow> arrived R server t sid packet) \<and> (stats' = None \<longleftrightarrow> stats = None))" for deadline
  proof (rule doesI)
    fix w r w'
    show "set (wd_recvs w) \<subseteq> R \<Longrightarrow> receive_loop server t sid deadline stats w = (r, w') \<Longrightarrow>
      set (wd_recvs w') \<subseteq> R \<and> sends_whole P (call_failed r) w w' \<and>
      (case r of Returned a \<Rightarrow> (case a of (received, stats') \<Rightarrow>
         (\<forall>packet. received = Some packet \<longrightarrow> arrived R server t sid packet) \<and> (stats' = None \<longleftrightarrow> stats = None))
       | Thrown e \<Rightarrow> runtime_error e | Blocked \<Rightarrow> True)"
    proof (induction server t sid deadline stats w arbitrary: r w' rule: receive_loop.induct)
      case (1 server t sid deadline stats w)
      obtain s v where round: "receive_round server t sid deadline stats w = (s, v)" by fastforce
      note D = doesD [OF does_receive_round [of P R] round 1(2)]
      show ?case
      proof (cases "\<exists>stats'. s = Returned (Again, stats')")
        case True
        then obtain stats' where s: "s = Returned (Again, stats')" ..
        then have run: "receive_loop server t sid deadline stats' v = (r, w')"
          using 1(3) round by (simp add: receive_loop.simps [of _ _ _ _ stats])
        have "stats' = None \<longleftrightarrow> stats = None" using D(3) by (simp add: s)
        note H = 1(1) [OF round [symmetric] s refl refl D(1) run]
        have "sends_whole P (call_failed r) w w'" using H D(2) by (auto simp: s intro: sends_whole_trans)
        then show ?thesis using H unfolding \<open>stats' = None \<longleftrightarrow> stats = None\<close> by blast
      next
        case False
        then show ?thesis using 1(3) D round
          by (auto simp: receive_loop.simps [of _ _ _ _ stats] split: outcome.splits receive_step.splits prod.splits)
      qed
    qed
  qed
  then show ?thesis unfolding receive_expected_def by (intro does_bind [OF does_clock])
qed

section \<open>Acknowledgements\<close>

lemma does_apply_ack:
  assumes "window_at cfg n w"
  shows "does E P R (apply_ack_packet packet w) (window_at cfg n)"
  using assms unfolding apply_ack_packet_def
  by (auto intro!: does_return does_bind [OF does_clock] window_at_steps(1) split: option.splits)

lemma does_drain_acks:
  assumes "window_at cfg n window"
  shows "does runtime_error P R (drain_acks server sid window) (window_at cfg n)"
proof (rule doesI)
  have one: "does runtime_error P R (drain_one server sid source bs window) (window_at cfg n)"
    if "window_at cfg n window" for server sid source bs window
    using that unfolding drain_one_def by (auto intro!: does_return does_apply_ack split: option.splits)
  fix w r w'
  show "set (wd_recvs w) \<subseteq> R \<Longrightarrow> drain_acks server sid window w = (r, w') \<Longrightarrow>
    set (wd_recvs w') \<subseteq> R \<and> sends_whole P (call_failed r) w w' \<and>
    (case r of Returned a \<Rightarrow> window_at cfg n a | Thrown e \<Rightarrow> runtime_error e | Blocked \<Rightarrow> True)"
    using assms
  proof (induction server sid window w arbitrary: r w' rule: drain_acks.induct)
    case (1 server sid window w)
    obtain x v where rf: "recvfrom kReceiveBufferBytes w = (x, v)" by fastforce
    note D = doesD [OF does_recvfrom [of runtime_error P] rf 1(3)]
    show ?case
    proof (cases x)
      case (Returned y)
      show ?thesis
      proof (cases y)
        case (Datagram source bs)
        obtain s u where one_eq: "drain_one server sid source bs window v = (s, u)" by fastforce
        note O = doesD [OF one [OF 1(5)] one_eq D(1)]
        show ?thesis
        proof (cases s)
          case s: (Returned window')
          then have run: "drain_acks server sid window' u = (r, w')"
            using 1(4) by (simp add: drain_acks.simps [of _ _ window] rf Returned Datagram one_eq)
          have "window_at cfg n window'" using O(3) s by simp
          have "sends_whole P False w u"
            using sends_whole_trans [OF D(2) [unfolded Returned, simplified]] O(2) s by simp
          from sends_whole_trans [OF this] 1(1) [OF rf [symmetric] Returned Datagram one_eq [symmetric] s O(1) run \<open>window_at cfg n window'\<close>]
          show ?thesis by blast
        qed (use 1(4) O sends_whole_trans [OF D(2) [unfolded Returned, simplified] O(2)] in
          \<open>auto simp: drain_acks.simps [of _ _ window] rf Returned Datagram one_eq\<close>)
      next
        case Recv_interrupted
        then have "drain_acks server sid window v = (r, w')"
          using 1(4) by (simp add: drain_acks.simps [of _ _ window w] rf Returned)
        from 1(2) [OF rf [symmetric] Returned Recv_interrupted D(1) this 1(5)] D(2) [unfolded Returned, simplified]
        show ?thesis by (blast intro: sends_whole_trans)
      qed (use 1(4,5) D in \<open>auto simp: drain_acks.simps [of _ _ window w] rf Returned throw_errno_def intro: sends_whole_failed\<close>)
    qed (use 1(4) D in \<open>auto simp: drain_acks.simps [of _ _ window w] rf\<close>)
  qed
qed

text \<open>The counters do not depend on the window, nor on the other statistics.\<close>

lemma counted_window [simp]: "counted n (st\<lparr>cl_window := w\<rparr>) \<longleftrightarrow> counted n st"
  by (simp add: counted_def)

lemma does_client_drain:
  assumes "client_at cfg n st"
  shows "does runtime_error P R (client_drain cfg st) (client_at cfg n)"
  unfolding client_drain_def
  by (rule does_bind [OF does_drain_acks]) (use assms in \<open>auto intro!: does_return simp: client_at_def\<close>)

section \<open>One iteration\<close>

lemma sample_returns:
  assumes "sw_inv w"
  shows "\<exists>st'. sample w st = Inr st'"
proof -
  note D = window_okD [OF sw_invD(2) [OF assms]]
  from sample_loop_counts [OF sw_invD(2) [OF assms] D(2), of 0 0 0] show ?thesis
    by (simp add: sample_def Let_def)
qed

lemma does_sample_window:
  assumes "client_at cfg n st"
  shows "does runtime_error P R (sample_window t st) (client_at cfg n)"
proof -
  have "sw_inv (cl_window st)" using assms window_at_inv(1) by (auto simp: client_at_def)
  with sample_returns have "\<exists>s. sample (cl_window st) (window_samples (cl_diagnostics st)) = Inr s" by blast
  then show ?thesis
    unfolding sample_window_def using assms
    by (auto intro!: does_bind [OF does_sum [where Q = "\<lambda>_. True"]] does_return simp: client_at_def counted_def)
qed

lemma idle_retransmits [simp]:
  "fast_retransmits (add_idle b a t d) = fast_retransmits d" "rto_retransmits (add_idle b a t d) = rto_retransmits d"
  "fast_retransmits (begin_no_send t d) = fast_retransmits d" "rto_retransmits (begin_no_send t d) = rto_retransmits d"
  "fast_retransmits (end_no_send t d) = fast_retransmits d" "rto_retransmits (end_no_send t d) = rto_retransmits d"
  by (simp_all add: add_idle_def begin_no_send_def end_no_send_def Let_def)

lemma does_client_idle:
  assumes "client_at cfg n st"
  shows "does runtime_error P R (client_idle cfg st) (client_at cfg n)"
proof -
  have n: "window_at cfg n (cl_window st)" "counted n st" using assms by (auto simp: client_at_def)
  have wait: "does runtime_error P R (wait_for_ack server sid (cl_window st) stats) (\<lambda>(w, _). window_at cfg n w)"
    for server sid stats
    unfolding wait_for_ack_def
    by (rule does_bind [OF does_receive_expected])
      (auto intro!: does_bind [OF does_apply_ack [OF n(1)]] does_bind [OF does_return [where Q = "\<lambda>w. w = cl_window st"]]
        does_return n(1) split: option.splits)
  show ?thesis
    unfolding client_idle_def Let_def
    by (rule does_bind [OF does_clock], rule does_bind [OF wait])
      (use n(2) in \<open>auto intro!: does_bind [OF does_clock] does_return simp: client_at_def counted_def\<close>)
qed

lemma does_spin_until: "does E P R (spin_until deadline) (\<lambda>_. True)"
proof (rule doesI)
  fix w r w'
  show "set (wd_recvs w) \<subseteq> R \<Longrightarrow> spin_until deadline w = (r, w') \<Longrightarrow> set (wd_recvs w') \<subseteq> R \<and> sends_whole P (call_failed r) w w' \<and>
    (case r of Returned a \<Rightarrow> True | Thrown e \<Rightarrow> E e | Blocked \<Rightarrow> True)"
  proof (induction deadline w rule: spin_until.induct)
    case (1 deadline w)
    obtain x v where c: "clock_now w = (x, v)" by fastforce
    note D = doesD [OF does_clock [of E P] c 1(2)]
    show ?case
    proof (cases "\<exists>now. x = Returned now \<and> now < deadline")
      case True
      then obtain now where x: "x = Returned now" "now < deadline" by blast
      then have "spin_until deadline v = (r, w')" using 1(3) by (simp add: spin_until.simps [of _ w] c)
      from 1(1) [OF c [symmetric] x D(1) this] D(2) [unfolded x(1), simplified] show ?thesis by (blast intro: sends_whole_trans)
    qed (use 1(3) c D in \<open>auto simp: spin_until.simps [of _ w] split: outcome.splits\<close>)
  qed
qed

lemma does_perform_waits: "does E P R (perform_waits actions) (\<lambda>_. True)"
  by (induction actions rule: perform_waits.induct)
    (auto intro: does_return does_bind [OF does_spin_until])

lemma does_pacer_wait: "does E P R (pacer_wait p n) (\<lambda>_. True)"
proof -
  have "does E P R (pacer_wait_loop pb cap now p) (\<lambda>_. True)" for pb cap now p
  proof (rule doesI)
    fix w r w'
    show "set (wd_recvs w) \<subseteq> R \<Longrightarrow> pacer_wait_loop pb cap now p w = (r, w') \<Longrightarrow> set (wd_recvs w') \<subseteq> R \<and> sends_whole P (call_failed r) w w' \<and>
      (case r of Returned a \<Rightarrow> True | Thrown e \<Rightarrow> E e | Blocked \<Rightarrow> True)"
    proof (induction pb cap now p w rule: pacer_wait_loop.induct)
      case (1 pb cap now p w)
      let ?m = "io_bind (perform_waits (wait_actions p pb cap now)) (\<lambda>_. clock_now)"
      obtain x v where m: "?m w = (x, v)" by fastforce
      have "does E P R ?m (\<lambda>_. True)" by (intro does_bind [OF does_perform_waits] does_clock)
      note D = doesD [OF this m 1(2)]
      show ?case
      proof (cases "tokens_bytes p < pb \<and> (\<exists>now'. x = Returned now')")
        case True
        then obtain now' where x: "tokens_bytes p < pb" "x = Returned now'" by blast
        then have "pacer_wait_loop pb cap now' (refill p now' cap) v = (r, w')"
          using 1(3) by (simp add: pacer_wait_loop.simps [of _ _ _ _ w] m)
        from 1(1) [OF x(1) m [symmetric] x(2) D(1) this] D(2) [unfolded x(2), simplified] show ?thesis by (blast intro: sends_whole_trans)
      next
        case False
        show ?thesis
        proof (cases "tokens_bytes p < pb")
          case True
          then show ?thesis using False 1(3) D m
            by (cases x) (auto simp: pacer_wait_loop.simps [of _ _ _ _ w])
        next
          case False
          then show ?thesis using 1(2,3) by (auto simp: pacer_wait_loop.simps [of _ _ _ _ w])
        qed
      qed
    qed
  qed
  then show ?thesis
    unfolding pacer_wait_def Let_def by (intro does_bind [OF does_clock] does_bind does_return) auto
qed

lemma counted_end_no_send [simp]:
  "counted n (st\<lparr>cl_diagnostics := end_no_send t (cl_diagnostics st)\<rparr>) \<longleftrightarrow> counted n st"
  by (simp add: counted_def)

lemma client_atI: "window_at cfg n (cl_window st) \<Longrightarrow> counted n st \<Longrightarrow> client_at cfg n st"
  by (simp add: client_at_def)

lemma count_sent_counted:
  shows "counted n st \<Longrightarrow> (retransmission d \<Longrightarrow> n' = n) \<Longrightarrow>
      (\<not> retransmission d \<Longrightarrow> n' = n + 1 \<and> n < n') \<Longrightarrow> counted n' (count_sent d st)"
    and "cl_window (count_sent d st) = cl_window st"
proof -
  have "(ucast (n + 1) :: u64) = ucast n + 1" if "n < n + 1"
    using that unat_inc [of n] unat_u32_less [of n]
    by (simp add: word_unat_eq_iff unat_ucast_u32_u64 unat_word_ariths)
  then show "counted n' (count_sent d st)"
    if "counted n st" "retransmission d \<Longrightarrow> n' = n" "\<not> retransmission d \<Longrightarrow> n' = n + 1 \<and> n < n'"
    using that by (auto simp: counted_def count_sent_def Let_def)
  show "cl_window (count_sent d st) = cl_window st" by (simp add: count_sent_def Let_def)
qed

lemma does_client_pace:
  "does E P R (client_pace b st) (\<lambda>st'. cl_window st' = cl_window st \<and> (\<forall>n. counted n st' = counted n st))"
  unfolding client_pace_def Let_def
  by (intro does_bind [OF does_clock] does_bind [OF does_pacer_wait] does_return) (simp add: counted_def)

lemma does_note_first_data:
  "does E P R (note_first_data st) (\<lambda>st'. cl_window st' = cl_window st \<and> (\<forall>n. counted n st' = counted n st))"
  unfolding note_first_data_def by (auto intro!: does_bind [OF does_clock] does_return simp: counted_def)

text \<open>The chunk a decision is about, and what is known of the window after it.\<close>

lemma chosen_sequence:
  assumes sel: "select_next_packet w0 = (Some d, w)" and at0: "window_at cfg n w0"
  defines "n' \<equiv> if retransmission d then n else n + 1"
  shows "sequence d < cc_total_chunks cfg"
    and "\<not> retransmission d \<Longrightarrow> n' = n + 1 \<and> n < n' \<and> sequence d = n"
    and "retransmission d \<Longrightarrow> sequence d < n"
    and "\<exists>w'. mark_sent w (sequence d) now = Inr w' \<and> window_at cfg n' w'"
proof -
  have at: "window_on cfg n w0" "launched w0" using at0 by (simp_all add: window_at_def)
  note I = window_on_inv [OF at(1)]
  note S = sw.select_sequence [OF I(1) sel]
  note F = select_sequence_facts [OF I(1) sel]
  have inv': "sw_inv w" "sw_total_chunks w = cc_total_chunks cfg"
    using select_inv(1,4) [OF I(1) sel] I(2) by simp_all
  show s: "sequence d < cc_total_chunks cfg"
    using order.strict_trans2 [OF conjunct1 [OF S] sw.sent_bound [OF inv'(1)]] inv'(2)
    by (simp add: word_less_nat_alt)
  have at': "window_on cfg n' w" using window_on_steps(5) [OF at(1) sel] by (simp add: n'_def)
  have le: "n \<le> n'" using window_on_steps(5) [OF at(1) sel] window_on_inv(3) [OF at'] by simp
  then show "\<not> retransmission d \<Longrightarrow> n' = n + 1 \<and> n < n' \<and> sequence d = n"
    using F(4) I(3) by (auto simp: n'_def order.strict_iff_order)
  show "retransmission d \<Longrightarrow> sequence d < n"
    using F(1) window_on_inv(3) [OF at'] by (simp add: n'_def word_less_nat_alt)
  show "\<exists>w'. mark_sent w (sequence d) now = Inr w' \<and> window_at cfg n' w'"
    using S [of now] window_on_steps(3) [OF at', of "sequence d" now] launched_sent [OF I(1) at(2) sel]
    by (auto simp: window_at_def)
qed

lemma does_client_send:
  assumes cfg: "config_ok contents cfg"
    and sel: "select_next_packet w0 = (Some d, cl_window st)"
    and at: "window_at cfg n w0" and count: "counted n st"
  shows "does runtime_error (client_sends (cc_server cfg) contents (request_of cfg) (cc_session_id cfg)) R
    (client_send cfg d st) (client_at cfg (if retransmission d then n else n + 1))"
proof -
  let ?n = "if retransmission d then n else n + 1"
  note C = chosen_sequence [OF sel at]
  have mark: "does runtime_error P R (io_sum (mark_sent (cl_window st) (sequence d) now)) (window_at cfg ?n)" for P now
    using C(4) [of now] by (intro does_sum) auto
  show ?thesis
    unfolding client_send_def Let_def
    apply (rule does_bind [OF does_clock])
    apply (rule does_bind [OF does_client_pace])
    apply (rule does_bind [OF does_note_first_data])
    apply (rule does_bind [OF send_data_sends [OF cfg C(1)]])
    apply (rule does_bind [OF does_clock])
    apply (rule does_bind)
     apply (simp, rule mark)
    apply (rule does_client_drain)
    subgoal for _ st1 st2 _ _ w
      by (rule client_atI, simp add: count_sent_counted(2))
        (rule count_sent_counted(1) [where n = n], use count C(2) in simp_all)
    done
qed

text \<open>The choice at the end of an iteration.\<close>

lemma does_client_choose:
  assumes cfg: "config_ok contents cfg" and at: "client_at cfg n st"
  shows "does runtime_error (client_sends (cc_server cfg) contents (request_of cfg) (cc_session_id cfg)) R
    (case select_next_packet (cl_window st) of
       (None, window) \<Rightarrow> client_idle cfg (st\<lparr>cl_window := window\<rparr>)
     | (Some decision, window) \<Rightarrow> client_send cfg decision (st\<lparr>cl_window := window\<rparr>)) (client_ok cfg)"
proof -
  have n: "window_at cfg n (cl_window st)" "counted n st" using at by (auto simp: client_at_def)
  have ok: "does E P R m (client_ok cfg)" if "does E P R m (client_at cfg k)" for E P m k
    using that by (rule does_mono) (auto simp: client_ok_def)
  obtain choice window where sel: "select_next_packet (cl_window st) = (choice, window)" by fastforce
  show ?thesis
  proof (cases choice)
    case None
    have "client_at cfg n (st\<lparr>cl_window := window\<rparr>)"
      using window_at_steps(3) [OF n(1) sel [unfolded None]] n(2) by (auto simp: client_at_def)
    then show ?thesis by (simp add: sel None ok [OF does_client_idle])
  next
    case (Some d)
    have "select_next_packet (cl_window st) = (Some d, cl_window (st\<lparr>cl_window := window\<rparr>))"
      using sel Some by simp
    from ok [OF does_client_send [OF cfg this n(1)]] n(2) show ?thesis by (simp add: sel Some)
  qed
qed

lemma client_at_timeouts:
  "client_at cfg n st \<Longrightarrow> client_at cfg n (st\<lparr>cl_window := check_timeouts (cl_window st) now rto\<rparr>)"
  by (simp add: client_at_def window_at_steps(2))

lemma does_client_round:
  assumes cfg: "config_ok contents cfg" and ok: "client_ok cfg st"
  shows "does runtime_error (client_sends (cc_server cfg) contents (request_of cfg) (cc_session_id cfg)) R
    (client_round cfg st) (client_ok cfg)"
proof -
  obtain n where at: "client_at cfg n st" using ok by (auto simp: client_ok_def)
  show ?thesis
    unfolding client_round_def Let_def
    by (intro does_bind [OF does_client_drain [OF at]] does_bind [OF does_clock]
        does_bind [OF does_sample_window] does_client_choose [OF cfg] client_at_timeouts)
qed

lemma does_client_loop:
  assumes cfg: "config_ok contents cfg"
  shows "client_ok cfg st \<Longrightarrow>
    does runtime_error (client_sends (cc_server cfg) contents (request_of cfg) (cc_session_id cfg)) R
      (client_loop cfg st) (\<lambda>st'. client_ok cfg st' \<and> all_acked (cl_window st'))"
proof (rule doesI)
  let ?P = "client_sends (cc_server cfg) contents (request_of cfg) (cc_session_id cfg)"
  fix w r w'
  show "client_ok cfg st \<Longrightarrow> set (wd_recvs w) \<subseteq> R \<Longrightarrow> client_loop cfg st w = (r, w') \<Longrightarrow>
    set (wd_recvs w') \<subseteq> R \<and> sends_whole ?P (call_failed r) w w' \<and> (case r of
      Returned st' \<Rightarrow> client_ok cfg st' \<and> all_acked (cl_window st') | Thrown e \<Rightarrow> runtime_error e | Blocked \<Rightarrow> True)"
    using cfg
  proof (induction cfg st w arbitrary: r w' rule: client_loop.induct)
    case (1 cfg st w)
    let ?P = "client_sends (cc_server cfg) contents (request_of cfg) (cc_session_id cfg)"
    show ?case
    proof (cases "all_acked (cl_window st)")
      case True
      then show ?thesis using 1(2-4) by (auto simp: client_loop.simps [of cfg st w])
    next
      case False
      obtain x v where round: "client_round cfg st w = (x, v)" by fastforce
      note D = doesD [OF does_client_round [OF 1(5,2)] round 1(3)]
      show ?thesis
      proof (cases x)
        case (Returned st1)
        then have run: "client_loop cfg st1 v = (r, w')"
          using 1(4) False by (simp add: client_loop.simps [of cfg st w] round)
        have "client_ok cfg st1" using D(3) Returned by simp
        from 1(1) [OF False round [symmetric] Returned this D(1) run 1(5)] D(2) [unfolded Returned, simplified]
        show ?thesis by (blast intro: sends_whole_trans)
      qed (use 1(4) False D in \<open>auto simp: client_loop.simps [of cfg st w] round\<close>)
    qed
  qed
qed

section \<open>The handshakes\<close>

text \<open>A START_ACK that accepts the transfer.\<close>

definition acceptance_arrived :: "recv_result set \<Rightarrow> endpoint \<Rightarrow> u32 \<Rightarrow> start_ack_payload \<Rightarrow> bool" where
  "acceptance_arrived R server sid accepted \<longleftrightarrow>
     (\<exists>packet. arrived R server START_ACK sid packet \<and>
        deserialize_start_ack (view_payload packet) (view_payload_size packet) = Some accepted) \<and>
     sa_status accepted = OK"

lemma acceptance_arrivedI:
  "arrived R server START_ACK sid packet \<Longrightarrow>
   deserialize_start_ack (view_payload packet) (view_payload_size packet) = Some accepted \<Longrightarrow>
   sa_status accepted = OK \<Longrightarrow> acceptance_arrived R server sid accepted"
  by (auto simp: acceptance_arrived_def)

lemma does_start_handshake:
  "does runtime_error (client_sends server contents start sid) R
    (start_handshake n server sid start) (acceptance_arrived R server sid)"
proof (induction n)
  case (Suc n)
  have d: "serialize_packet (make_header START sid 0) (Some (serialize_start start))
      (length (serialize_start start)) = Inr (start_datagram start sid)"
    by (simp add: serialize_packet_layout serialize_start_layout start_datagram_def)
  show ?case
    unfolding start_handshake.simps Let_def
    by (rule does_bind [OF does_send_packet [where E = runtime_error, OF runtime_errorI]])
      (auto simp: d intro!: client_sendsI control_datagrams does_bind [OF does_receive_expected] does_throw
        does_return Suc acceptance_arrivedI split: option.splits)
qed (simp add: does_throw)

text \<open>A COMPLETE_ACK that reports success.\<close>

definition success_arrived :: "recv_result set \<Rightarrow> endpoint \<Rightarrow> u32 \<Rightarrow> complete_ack_payload \<Rightarrow> bool" where
  "success_arrived R server sid completed \<longleftrightarrow>
     (\<exists>packet. arrived R server COMPLETE_ACK sid packet \<and>
        deserialize_complete_ack (view_payload packet) (view_payload_size packet) = Some completed) \<and>
     ca_status completed = OK"

lemma success_arrivedI:
  "arrived R server COMPLETE_ACK sid packet \<Longrightarrow>
   deserialize_complete_ack (view_payload packet) (view_payload_size packet) = Some completed \<Longrightarrow>
   ca_status completed = OK \<Longrightarrow> success_arrived R server sid completed"
  by (auto simp: success_arrived_def)

lemma does_complete_handshake:
  "does runtime_error (client_sends server contents start sid) R
    (complete_handshake n server sid (sp_total_chunks start)) (success_arrived R server sid)"
proof (induction n)
  case (Suc n)
  have d: "serialize_packet (make_header COMPLETE sid (sp_total_chunks start)) None 0 =
      Inr (complete_datagram start sid)"
    by (simp add: serialize_packet_empty complete_datagram_def)
  show ?case
    unfolding complete_handshake.simps
    by (rule does_bind [OF does_send_packet [where E = runtime_error, OF runtime_errorI]])
      (auto simp: d intro!: client_sendsI control_datagrams does_bind [OF does_receive_expected] does_throw
        does_return Suc success_arrivedI split: option.splits)
qed (simp add: does_throw)

section \<open>The whole transfer\<close>

lemma make_window_throws:
  "make_sender_window n l c t = Inl e \<Longrightarrow> l = 0 \<or> c = 0 \<or> l > c"
  by (auto simp: make_sender_window_def split: if_splits)

definition pacing_error :: "frft_error \<Rightarrow> bool" where
  "pacing_error e \<longleftrightarrow> runtime_error e \<or> e = Invalid_argument ''pacing rate must be greater than zero''"

lemma does_weaken:
  assumes "does E P R m Q" and "\<And>e. E e \<Longrightarrow> E' e"
  shows "does E' P R m Q"
proof (rule doesI)
  fix w r w' assume "set (wd_recvs w) \<subseteq> R" "m w = (r, w')"
  from doesD [OF assms(1) this(2,1)] assms(2)
  show "set (wd_recvs w') \<subseteq> R \<and> sends_whole P (call_failed r) w w' \<and>
    (case r of Returned a \<Rightarrow> Q a | Thrown e \<Rightarrow> E' e | Blocked \<Rightarrow> True)"
    by (cases r) auto
qed

lemma pacing_weaken: "does runtime_error P R m Q \<Longrightarrow> does pacing_error P R m Q"
  by (erule does_weaken) (simp add: pacing_error_def)

lemma window_at_created:
  assumes "make_sender_window (cc_total_chunks cfg) (sa_accepted_window_chunks (cc_accepted cfg))
     (ucast (sa_accepted_bitmap_bits (cc_accepted cfg))) now = Inr w"
  shows "window_at cfg 0 w"
proof -
  have "sw_next_sequence w = 0" using assms by (auto simp: make_sender_window_def split: if_splits)
  with sender_reachable.created [OF assms] show ?thesis by (auto simp: window_at_def window_on_def launched_def)
qed

lemma init_client_ok: "window_at cfg 0 w \<Longrightarrow> client_ok cfg (init_client_state w p now)"
  by (auto simp: client_ok_def client_at_def init_client_state_def counted_def no_diagnostics_def intro!: exI [of _ 0])

text \<open>When every chunk is acknowledged, every chunk has been sent.\<close>

lemma client_ok_finished:
  assumes "client_ok cfg st" and "all_acked (cl_window st)"
  shows "sw_inv (cl_window st)" and "acked_set (cl_window st) = {..<unat (cc_total_chunks cfg)}"
    and "counted (cc_total_chunks cfg) st"
proof -
  obtain n where n: "window_at cfg n (cl_window st)" "counted n st" using assms(1) by (auto simp: client_ok_def client_at_def)
  note I = window_at_inv [OF n(1)]
  from I show "sw_inv (cl_window st)" by simp
  show "acked_set (cl_window st) = {..<unat (cc_total_chunks cfg)}"
    using all_acked_iff [OF I(1)] assms(2) I(2) by simp
  have "n = cc_total_chunks cfg"
    using sw.finished_all [OF I(1) assms(2) subset_refl] I(2,3) by (simp add: word_unat_eq_iff)
  with n(2) show "counted (cc_total_chunks cfg) st" by simp
qed

text \<open>What the client knows when the transfer has returned.\<close>

definition client_done :: "recv_result set \<Rightarrow> client_config \<Rightarrow> client_state \<times> complete_ack_payload \<Rightarrow> bool" where
  "client_done R cfg = (\<lambda>(st, completed).
     client_ok cfg st \<and> all_acked (cl_window st) \<and>
     success_arrived R (cc_server cfg) (cc_session_id cfg) completed \<and>
     ca_received_chunks completed = cc_total_chunks cfg \<and> ca_received_bytes completed = cc_size cfg)"

lemma does_client_exchange:
  assumes cfg: "config_ok contents cfg" and acc: "valid_acceptance (cc_accepted cfg)"
  shows "does pacing_error (client_sends (cc_server cfg) contents (request_of cfg) (cc_session_id cfg)) R
    (client_exchange options cfg) (\<lambda>(st, completed, end_time). client_done R cfg (st, completed))"
proof -
  let ?P = "client_sends (cc_server cfg) contents (request_of cfg) (cc_session_id cfg)"
  have E: "\<And>e. runtime_error e \<Longrightarrow> pacing_error e" by (simp add: pacing_error_def)
  have window: "does pacing_error ?P R (io_sum (make_sender_window (cc_total_chunks cfg)
         (sa_accepted_window_chunks (cc_accepted cfg)) (ucast (sa_accepted_bitmap_bits (cc_accepted cfg))) now))
      (window_at cfg 0)" for now
    using acc
    by (intro does_sum)
      (auto dest!: make_window_throws simp: valid_acceptance_def kDefaultAckBitmapBits_def intro: window_at_created)
  have pacer: "does pacing_error ?P R (io_sum (make_pacer rate now)) (\<lambda>_. True)" for rate now
    by (intro does_sum) (auto simp: make_pacer_def pacing_error_def split: if_splits)
  have final: "does pacing_error ?P R (complete_handshake kControlAttempts (cc_server cfg)
      (cc_session_id cfg) (cc_total_chunks cfg)) (success_arrived R (cc_server cfg) (cc_session_id cfg))"
    using pacing_weaken [OF does_complete_handshake [where start = "request_of cfg"]] by simp
  show ?thesis
    unfolding client_exchange_def Let_def
    apply (rule does_bind [OF does_clock])
    apply (rule does_bind [OF window])
    apply (rule does_bind [OF does_clock])
    apply (rule does_bind [OF pacer])
    apply (rule does_bind [OF does_clock])
    apply (rule does_bind [OF pacing_weaken [OF does_client_loop [OF cfg]]])
     apply (rule init_client_ok, assumption)
    apply (rule does_bind [OF does_clock])
    apply (rule does_bind [OF final])
    apply (rule does_if)
     apply (rule does_throw, simp add: E)
    apply (rule does_bind [OF does_clock])
    apply (rule does_return)
    apply (auto simp: client_done_def client_ok_def client_at_def counted_def)
    done
qed

lemma does_client_transfer:
  assumes "config_ok contents cfg" and "valid_acceptance (cc_accepted cfg)"
  shows "does pacing_error (client_sends (cc_server cfg) contents (request_of cfg) (cc_session_id cfg)) R
    (client_transfer options cfg) (client_done R cfg)"
  unfolding client_transfer_def
  by (rule does_bind [OF does_client_exchange [OF assms]])
    (auto intro!: does_bind [OF does_log(3)] does_return)

section \<open>The whole program\<close>

text \<open>The values the client computes before it sends anything.\<close>

definition client_plan ::
    "(string \<Rightarrow> u16 \<Rightarrow> string + endpoint) \<Rightarrow> file_kernel \<Rightarrow> bytes \<Rightarrow> (u32 \<times> u32) list \<Rightarrow> client_options \<Rightarrow>
      mapped_file \<Rightarrow> u32 \<Rightarrow> u32 \<Rightarrow> endpoint \<Rightarrow> u32 \<Rightarrow> bool" where
  "client_plan getaddrinfo k contents randoms options f chunk_size total_chunks server sid \<longleftrightarrow>
     fst (open_input k (co_file options)) = Inr f \<and> length contents = unat (mf_size f) \<and>
     chunk_size_for_mtu (co_mtu options) = Inr chunk_size \<and>
     chunk_count (mf_size f) chunk_size = Inr total_chunks \<and>
     resolve_server getaddrinfo options = Inr server \<and> random_session_id randoms = Some sid"

lemma open_input_mapped:
  "open_input k path = (Inr f, calls) \<Longrightarrow> mf_data f = None \<longleftrightarrow> mf_size f = 0"
  by (auto simp: file_op_defs split: if_splits option.splits prod.splits)

definition client_report_ok ::
    "recv_result set \<Rightarrow> u64 \<Rightarrow> u32 \<Rightarrow> endpoint \<Rightarrow> u32 \<Rightarrow> client_state \<times> complete_ack_payload \<Rightarrow> bool" where
  "client_report_ok R file_size total_chunks server sid = (\<lambda>(st, completed).
     sw_inv (cl_window st) \<and> acked_set (cl_window st) = {..<unat total_chunks} \<and> counted total_chunks st \<and>
     success_arrived R server sid completed \<and>
     ca_received_chunks completed = total_chunks \<and> ca_received_bytes completed = file_size)"

lemma does_run_client:
  assumes plan: "client_plan getaddrinfo k contents randoms options f c n server sid"
  shows "does pacing_error (client_sends server contents (start_request (mf_size f) c n) sid) R
    (run_client getaddrinfo k contents socket_fd discover_rc randoms options)
    (client_report_ok R (mf_size f) n server sid)"
proof -
  let ?P = "client_sends server contents (start_request (mf_size f) c n) sid"
  obtain calls where open_eq: "open_input k (co_file options) = (Inr f, calls)"
    using plan by (cases "open_input k (co_file options)") (simp add: client_plan_def)
  have p: "length contents = unat (mf_size f)" "chunk_size_for_mtu (co_mtu options) = Inr c"
    "chunk_count (mf_size f) c = Inr n" "resolve_server getaddrinfo options = Inr server"
    "random_session_id randoms = Some sid"
    using plan by (simp_all add: client_plan_def)
  have session: "does pacing_error ?P R (client_session discover_rc randoms options
      (map_option (\<lambda>_. contents) (mf_data f)) (mf_size f) c n server)
      (client_report_ok R (mf_size f) n server sid)"
  proof -
    have transfer: "does pacing_error ?P R (client_transfer options
        \<lparr>cc_server = server, cc_session_id = sid, cc_data = map_option (\<lambda>_. contents) (mf_data f),
         cc_size = mf_size f, cc_chunk_size = c, cc_total_chunks = n, cc_accepted = accepted\<rparr>)
        (client_report_ok R (mf_size f) n server sid)" if acc: "valid_acceptance accepted" for accepted
    proof -
      let ?cfg = "\<lparr>cc_server = server, cc_session_id = sid, cc_data = map_option (\<lambda>_. contents) (mf_data f),
         cc_size = mf_size f, cc_chunk_size = c, cc_total_chunks = n, cc_accepted = accepted\<rparr>"
      have "config_ok contents ?cfg"
        using p(1-3) open_input_mapped [OF open_eq] by (auto simp: config_ok_def chunk_size_for_mtu_Inr)
      from does_client_transfer [OF this, where options = options and R = R]
      have "does pacing_error ?P R (client_transfer options ?cfg) (client_done R ?cfg)"
        using acc by (simp add: request_of_def)
      then show ?thesis
      proof (rule does_mono)
        fix report assume "client_done R ?cfg report"
        then show "client_report_ok R (mf_size f) n server sid report"
          using client_ok_finished [of ?cfg] by (auto simp: client_done_def client_report_ok_def)
      qed
    qed
    show ?thesis
      unfolding client_session_def
      by (auto simp: p(5) pacing_error_def
          intro!: does_throw_errno does_throw transfer
            does_bind [OF pacing_weaken [OF does_start_handshake]])
  qed
  have "does pacing_error ?P R (send_file getaddrinfo contents socket_fd discover_rc randoms options f)
      (client_report_ok R (mf_size f) n server sid)"
    unfolding send_file_def
    by (auto simp: p(2-4) pacing_error_def
        intro!: does_throw_errno does_throw does_on_throw quiet_log does_return does_bind [OF session]
          does_bind [OF does_log(2)])
  then show ?thesis
    unfolding run_client_def Let_def
    by (auto simp: open_eq intro!: does_bind [OF does_log(1)] does_finally quiet_log)
qed

text \<open>A run that returns has made a plan.\<close>

lemma run_client_planned:
  assumes "run_client getaddrinfo k contents socket_fd discover_rc randoms options w = (Returned report, w')"
    and "\<And>f. fst (open_input k (co_file options)) = Inr f \<Longrightarrow> length contents = unat (mf_size f)"
  shows "\<exists>f c n server sid. client_plan getaddrinfo k contents randoms options f c n server sid"
proof -
  obtain f calls where o: "open_input k (co_file options) = (Inr f, calls)"
    and "\<exists>v v'. send_file getaddrinfo contents socket_fd discover_rc randoms options f v = (Returned report, v')"
    using assms(1)
    by (cases "open_input k (co_file options)")
      (auto simp: run_client_def Let_def io_bind_returned io_finally_returned split: sum.splits)
  then obtain c n server where "chunk_size_for_mtu (co_mtu options) = Inr c"
    "chunk_count (mf_size f) c = Inr n" "resolve_server getaddrinfo options = Inr server"
    and "\<exists>v v' x. client_session discover_rc randoms options (map_option (\<lambda>_. contents) (mf_data f))
      (mf_size f) c n server v = (Returned x, v')"
    unfolding send_file_def
    by (auto simp: io_bind_returned io_sum_returned io_on_throw_returned split: if_splits) blast
  moreover from this(4) have "\<exists>sid. random_session_id randoms = Some sid"
    by (auto simp: client_session_def split: if_splits option.splits)
  ultimately show ?thesis using o assms(2) by (auto simp: client_plan_def)
qed

section \<open>Resources of the client\<close>

context world_frame
begin

lemma keeps_client_loop:
  assumes "\<And>st. keeps (client_round cfg st)"
  shows "keeps (client_loop cfg st)"
proof (rule keepsI)
  fix w
  have "(\<And>st. keeps (client_round cfg st)) \<Longrightarrow> ok w (snd (client_loop cfg st w))"
  proof (induction cfg st w rule: client_loop.induct)
    case (1 cfg st w)
    obtain r v where round: "client_round cfg st w = (r, v)" by fastforce
    then have "ok w v" by (rule keepsD [OF 1(2)])
    with 1 round show ?case
      by (subst client_loop.simps) (auto split: outcome.splits intro: ok_trans ok_refl)
  qed
  then show "ok w (snd (client_loop cfg st w))" using assms by blast
qed

lemma keeps_start_handshake:
  assumes "keeps clock_now" and "\<And>t. keeps (poll_socket t)" and "keeps (recvfrom kReceiveBufferBytes)"
    and "\<And>dest d. keeps (sendto dest d)"
  shows "keeps (start_handshake m server sid start)"
  by (induction m)
    (auto intro!: keeps_intros keeps_receive_expected assms split: option.splits simp: Let_def)

lemma keeps_client_exchange:
  assumes "keeps clock_now" and "\<And>t. keeps (poll_socket t)" and "keeps (recvfrom kReceiveBufferBytes)"
    and "\<And>dest d. keeps (sendto dest d)"
  shows "keeps (client_exchange options cfg)"
proof -
  have data: "keeps (send_data_packet dest h p m)" for dest h p m
    unfolding send_data_packet_def by (intro keeps_intros keeps_send_loop assms)
  have drain: "keeps (client_drain cfg st)" for cfg st
    unfolding client_drain_def by (intro keeps_intros keeps_drain_acks assms)
  have "keeps (client_round cfg st)" for cfg st
    unfolding client_round_def sample_window_def Let_def case_prod_beta
    by (intro keeps_intros keeps_client_idle keeps_client_send drain data assms)
  then have loop: "keeps (client_loop cfg st)" for cfg st by (rule keeps_client_loop)
  have final: "keeps (complete_handshake m srv sid n)" for m srv sid n
    by (induction m) (auto intro!: keeps_intros keeps_receive_expected assms split: option.splits)
  show ?thesis
    unfolding client_exchange_def Let_def by (intro keeps_intros loop final assms)
qed

lemma keeps_client_session:
  assumes "keeps clock_now" and "\<And>t. keeps (poll_socket t)" and "keeps (recvfrom kReceiveBufferBytes)"
    and "\<And>dest d. keeps (sendto dest d)" and "\<And>ls. keeps (print_lines Cout ls)"
  shows "keeps (client_session discover_rc randoms options data file_size c n server)"
proof -
  have "keeps (\<lambda>w. (Blocked, w))" by (simp add: keeps_def ok_refl)
  then show ?thesis
    unfolding client_session_def client_transfer_def case_prod_beta
    by (intro keeps_intros keeps_start_handshake keeps_client_exchange assms)
qed

end

text \<open>Whether a run of the client opens the socket.\<close>

definition opens_socket ::
    "(string \<Rightarrow> u16 \<Rightarrow> string + endpoint) \<Rightarrow> file_kernel \<Rightarrow> client_options \<Rightarrow> int \<Rightarrow> bool" where
  "opens_socket getaddrinfo k options socket_fd \<longleftrightarrow>
     (\<exists>f c n server. fst (open_input k (co_file options)) = Inr f \<and>
        chunk_size_for_mtu (co_mtu options) = Inr c \<and> chunk_count (mf_size f) c = Inr n \<and>
        default_window_chunks c \<le> ucast kDefaultAckBitmapBits \<and>
        resolve_server getaddrinfo options = Inr server) \<and> 0 \<le> socket_fd"

lemma send_file_resources:
  assumes "send_file getaddrinfo contents fd rc randoms options f w = (r, w')" and "r \<noteq> Blocked"
    and "fst (open_input k (co_file options)) = Inr f"
  shows "wd_files w' = wd_files w"
    and "wd_closed w' = wd_closed w @ (if opens_socket getaddrinfo k options fd then [fd] else [])"
proof -
  have "wd_files w' = wd_files w \<and>
    wd_closed w' = wd_closed w @ (if opens_socket getaddrinfo k options fd then [fd] else [])"
  proof (cases "opens_socket getaddrinfo k options fd")
    case True
    then obtain c n server where p: "chunk_size_for_mtu (co_mtu options) = Inr c"
      "chunk_count (mf_size f) c = Inr n" "default_window_chunks c \<le> ucast kDefaultAckBitmapBits"
      "resolve_server getaddrinfo options = Inr server" "0 \<le> fd"
      using assms(3) by (auto simp: opens_socket_def)
    let ?session = "client_session rc randoms options (map_option (\<lambda>_. contents) (mf_data f)) (mf_size f) c n server"
    obtain s v where s: "?session w = (s, v)" by fastforce
    have "resources.keeps ?session" by (intro resources.keeps_client_session resources_keeps)
    have "send_file getaddrinfo contents fd rc randoms options f =
        io_on_throw (io_bind ?session (\<lambda>report. io_bind (close_socket fd) (\<lambda>_. io_return report)))
          (close_socket fd)"
      using p(1,2,4,5) p(3) [folded not_less] by (simp add: send_file_def)
    with resources.keepsD [OF \<open>resources.keeps ?session\<close> s] True assms(1,2) s show ?thesis
      by (cases s) (auto simp: io_on_throw_def io_bind_def io_return_def io_throw_def close_socket_def)
  next
    case False
    let ?send = "send_file getaddrinfo contents fd rc randoms options f"
    have "(\<exists>e. ?send = io_throw e) \<or> (\<exists>what. ?send = throw_errno what)"
    proof (cases "chunk_size_for_mtu (co_mtu options)")
      case c: (Inr c)
      show ?thesis
      proof (cases "chunk_count (mf_size f) c")
        case n: (Inr n)
        show ?thesis
        proof (cases "resolve_server getaddrinfo options")
          case (Inr server)
          then show ?thesis using False assms(3) c n
            by (auto simp: send_file_def opens_socket_def not_le not_less)
        qed (auto simp: send_file_def c n io_throw_bind)
      qed (auto simp: send_file_def c io_throw_bind)
    qed (auto simp: send_file_def io_throw_bind)
    with assms(1) False show ?thesis by (auto simp: io_throw_def throw_errno_def)
  qed
  then show "wd_files w' = wd_files w"
    "wd_closed w' = wd_closed w @ (if opens_socket getaddrinfo k options fd then [fd] else [])" by simp_all
qed

lemma open_input_held:
  assumes "open_input k path = (r, calls)"
  shows "case r of
      Inl e \<Rightarrow> held_after calls = ([], [])
    | Inr f \<Rightarrow> held_after (calls @ close_input f) = ([], [])"
  using assms by (auto simp: file_op_defs split: if_splits option.splits prod.splits)

lemma run_client_resources:
  assumes "run_client getaddrinfo k contents fd rc randoms options w = (r, w')" and "r \<noteq> Blocked"
  shows "(\<exists>calls. wd_files w' = wd_files w @ calls \<and> held_after calls = ([], [])) \<and>
    wd_closed w' = wd_closed w @ (if opens_socket getaddrinfo k options fd then [fd] else [])"
proof -
  obtain res calls where o: "open_input k (co_file options) = (res, calls)" by fastforce
  note H = open_input_held [OF o]
  let ?w = "w\<lparr>wd_files := wd_files w @ calls\<rparr>"
  show ?thesis
  proof (cases res)
    case (Inl e)
    then show ?thesis using assms(1) o H
      by (auto simp: run_client_def io_bind_def log_files_def io_throw_def opens_socket_def)
  next
    case (Inr f)
    obtain s v where s: "send_file getaddrinfo contents fd rc randoms options f ?w = (s, v)" by fastforce
    have r: "s \<noteq> Blocked" "w' = v\<lparr>wd_files := wd_files v @ close_input f\<rparr>"
      using assms o Inr s
      by (auto simp: run_client_def io_bind_def log_files_def io_finally_def io_return_def io_throw_def
          split: outcome.splits)
    have "fst (open_input k (co_file options)) = Inr f" using o Inr by simp
    note F = send_file_resources [OF s r(1) this]
    have "wd_files w' = wd_files w @ (calls @ close_input f)" using F r(2) by simp
    with F H Inr r(2) show ?thesis by auto
  qed
qed

end
