(* ===== verification/Io_Traces.thy ===== *)
theory Io_Traces
  imports Io_Rules
begin

text \<open>
  What exactly a step sends when it returns: a judgement on the list of datagrams that it adds to the
  log of the world.
\<close>

section \<open>The trace of a step\<close>

definition traces :: "'a io \<Rightarrow> ('a \<Rightarrow> (endpoint \<times> bytes) list \<Rightarrow> bool) \<Rightarrow> bool" where
  "traces m Q \<longleftrightarrow> (\<forall>w a w'. m w = (Returned a, w') \<longrightarrow> (\<exists>ds. wd_sent w' = wd_sent w @ ds \<and> Q a ds))"

lemma tracesI:
  "(\<And>w a w'. m w = (Returned a, w') \<Longrightarrow> \<exists>ds. wd_sent w' = wd_sent w @ ds \<and> Q a ds) \<Longrightarrow> traces m Q"
  by (simp add: traces_def)

lemma tracesD:
  "traces m Q \<Longrightarrow> m w = (Returned a, w') \<Longrightarrow> \<exists>ds. wd_sent w' = wd_sent w @ ds \<and> Q a ds"
  by (simp add: traces_def)

lemma traces_mono: "traces m Q \<Longrightarrow> (\<And>a ds. Q a ds \<Longrightarrow> Q' a ds) \<Longrightarrow> traces m Q'"
  unfolding traces_def by blast

lemma traces_return: "Q a [] \<Longrightarrow> traces (io_return a) Q"
  by (simp add: traces_def)

lemma traces_throw: "traces (io_throw e) Q" "traces (throw_errno what) Q"
  by (simp_all add: traces_def)

lemma traces_sum: "(\<And>a. r = Inr a \<Longrightarrow> Q a []) \<Longrightarrow> traces (io_sum r) Q"
  by (simp add: traces_def io_sum_returned)

lemma traces_bind:
  assumes m: "traces m S" and f: "\<And>a xs. S a xs \<Longrightarrow> traces (f a) (\<lambda>b ys. Q b (xs @ ys))"
  shows "traces (io_bind m f) Q"
proof (rule tracesI)
  fix w b w' assume "io_bind m f w = (Returned b, w')"
  then obtain a v where a: "m w = (Returned a, v)" "f a v = (Returned b, w')" by (auto simp: io_bind_returned)
  obtain xs where xs: "wd_sent v = wd_sent w @ xs" "S a xs" using tracesD [OF m a(1)] by blast
  from tracesD [OF f [OF xs(2)] a(2)] xs(1) show "\<exists>ds. wd_sent w' = wd_sent w @ ds \<and> Q b ds" by auto
qed

text \<open>A silent step, with what is known of its value.\<close>

lemma traces_silent:
  assumes "sent.keeps m" and "\<And>w a w'. m w = (Returned a, w') \<Longrightarrow> Q a []"
  shows "traces m Q"
proof (rule tracesI)
  fix w a w' assume "m w = (Returned a, w')"
  with sent.keepsD [OF assms(1) this] assms(2) show "\<exists>ds. wd_sent w' = wd_sent w @ ds \<and> Q a ds" by auto
qed

text \<open>What every return value is known to satisfy can be added.\<close>

lemma traces_does:
  assumes "does E P UNIV m R" and "traces m Q"
  shows "traces m (\<lambda>a ds. R a \<and> Q a ds)"
proof (rule tracesI)
  fix w a w' assume "m w = (Returned a, w')"
  with doesD(3) [OF assms(1) this] tracesD [OF assms(2) this]
  show "\<exists>ds. wd_sent w' = wd_sent w @ ds \<and> R a \<and> Q a ds" by auto
qed

lemma traces_on_throw: "traces m Q \<Longrightarrow> traces (io_on_throw m h) Q"
  by (simp add: traces_def io_on_throw_returned)

lemma traces_finally: "traces m Q \<Longrightarrow> sent.keeps c \<Longrightarrow> traces (io_finally m c) Q"
  unfolding traces_def by (auto simp: io_finally_returned dest!: sent.keepsD)

lemma traces_clock: "traces clock_now (\<lambda>_ ds. ds = [])"
  by (rule traces_silent) (auto intro: sent_keeps)

lemma traces_log: "traces (log_files calls) (\<lambda>_ ds. ds = [])" "traces (close_socket fd) (\<lambda>_ ds. ds = [])"
  "traces (print_lines stream ls) (\<lambda>_ ds. ds = [])"
  by (rule traces_silent; auto intro: sent_keeps)+

lemma traces_if: "(b \<Longrightarrow> traces m Q) \<Longrightarrow> (\<not> b \<Longrightarrow> traces m' Q) \<Longrightarrow> traces (if b then m else m') Q"
  by simp

lemma traces_send_loop: "Q () [(dest, d)] \<Longrightarrow> traces (send_loop what dest d) Q"
  by (auto simp: traces_def dest!: send_loop_returned)

lemma traces_send_packet:
  "serialize_packet h p n = Inr d \<Longrightarrow> Q () [(dest, d)] \<Longrightarrow> traces (send_packet dest h p n) Q"
  by (simp add: send_packet_def traces_send_loop)

end
