(* ===== verification/Client_Trace.thy ===== *)
theory Client_Trace
  imports Client_Invariant Io_Traces
begin

text \<open>
  The datagrams of a run of the client that returns, in order: copies of the START, the DATA packets,
  copies of the COMPLETE.  The DATA packets follow an abstract schedule: new chunks are taken in order
  and only chunks sent before are sent again, with the retransmission flag.  The lines the client
  prints are determined here, too.
\<close>

section \<open>The schedule of DATA packets\<close>

text \<open>
  A schedule lists chunk numbers with whether each is a retransmission; from \<open>n\<close> chunks sent before it
  leads to the number sent after it, if it is a legal one.
\<close>

fun schedule :: "u32 \<Rightarrow> (u32 \<times> bool) list \<Rightarrow> u32 option" where
  "schedule n [] = Some n"
| "schedule n ((s, again) # ks) =
     (if again then if s < n then schedule n ks else None
      else if s = n then schedule (n + 1) ks else None)"

lemma schedule_append:
  "schedule n (ks @ ls) = (case schedule n ks of None \<Rightarrow> None | Some m \<Rightarrow> schedule m ls)"
  by (induction n ks rule: schedule.induct) auto

definition scheduled :: "endpoint \<Rightarrow> bytes \<Rightarrow> start_payload \<Rightarrow> u32 \<Rightarrow> u32 \<times> bool \<Rightarrow> endpoint \<times> bytes" where
  "scheduled server contents start sid = (\<lambda>(s, again).
     (server, data_datagram contents start sid (if again then FLAG_RETRANSMITTED else 0) s))"

section \<open>One iteration\<close>

definition same_counts :: "client_state \<Rightarrow> client_state \<Rightarrow> bool" where
  "same_counts st st' \<longleftrightarrow> cl_sent_data_packets st' = cl_sent_data_packets st \<and>
     cl_retransmitted_packets st' = cl_retransmitted_packets st"

text \<open>A silent step keeps the number of chunks sent and the counters.\<close>

definition idles :: "client_config \<Rightarrow> u32 \<Rightarrow> client_state \<Rightarrow> client_state \<Rightarrow> (endpoint \<times> bytes) list \<Rightarrow> bool" where
  "idles cfg n st st' ds \<longleftrightarrow> ds = [] \<and> window_at cfg n (cl_window st') \<and> same_counts st st'"

lemma sent_client_drain: "sent.keeps (client_drain cfg st)"
  unfolding client_drain_def by (intro sent.keeps_intros sent.keeps_drain_acks sent_keeps)

lemma traces_client_drain:
  assumes "window_at cfg n (cl_window st)"
  shows "traces (client_drain cfg st) (idles cfg n st)"
proof -
  have "traces (client_drain cfg st) (\<lambda>st' ds. window_at cfg n (cl_window st') \<and> ds = [] \<and> same_counts st st')"
    by (rule traces_does [where E = runtime_error and P = "\<lambda>_. True"])
      (auto simp: client_drain_def same_counts_def io_bind_returned assms
        intro!: does_bind [OF does_drain_acks] does_return traces_silent [OF sent_client_drain [unfolded client_drain_def]])
  then show ?thesis by (rule traces_mono) (simp add: idles_def)
qed

lemma sent_client_idle: "sent.keeps (client_idle cfg st)"
  by (intro sent.keeps_client_idle sent_keeps)

lemma traces_client_idle:
  assumes "client_at cfg n st"
  shows "traces (client_idle cfg st) (idles cfg n st)"
proof -
  have "traces (client_idle cfg st) (\<lambda>st' ds. client_at cfg n st' \<and> ds = [] \<and> same_counts st st')"
    by (rule traces_does [OF does_client_idle [OF assms, where P = "\<lambda>_. True"]], rule traces_silent [OF sent_client_idle])
      (auto simp: client_idle_def Let_def io_bind_returned same_counts_def)
  then show ?thesis by (rule traces_mono) (simp add: idles_def client_at_def)
qed

text \<open>What an iteration sends, as a schedule.\<close>

definition follows ::
    "bytes \<Rightarrow> client_config \<Rightarrow> u32 \<Rightarrow> client_state \<Rightarrow> client_state \<Rightarrow> (endpoint \<times> bytes) list \<Rightarrow> bool" where
  "follows contents cfg n st st' ds \<longleftrightarrow> (\<exists>ks m.
     ds = map (scheduled (cc_server cfg) contents (request_of cfg) (cc_session_id cfg)) ks \<and>
     schedule n ks = Some m \<and> window_at cfg m (cl_window st') \<and>
     cl_sent_data_packets st' = cl_sent_data_packets st + of_nat (length ks) \<and>
     cl_retransmitted_packets st' = cl_retransmitted_packets st + of_nat (length (filter snd ks)))"

lemma idles_follows: "idles cfg n st st' ds \<Longrightarrow> follows contents cfg n st st' ds"
  unfolding idles_def follows_def same_counts_def
  by (intro exI [of _ "[]"] exI [of _ n]) simp

lemma follows_counts:
  "same_counts st0 st \<Longrightarrow> follows contents cfg n st st' ds \<Longrightarrow> follows contents cfg n st0 st' ds"
  unfolding follows_def same_counts_def by simp

lemma follows_trans:
  assumes "follows contents cfg n st st1 xs" and "window_at cfg m (cl_window st1)"
    and "follows contents cfg m st1 st2 ys"
  shows "follows contents cfg n st st2 (xs @ ys)"
proof -
  obtain ks m' where ks: "xs = map (scheduled (cc_server cfg) contents (request_of cfg) (cc_session_id cfg)) ks"
    "schedule n ks = Some m'" "window_at cfg m' (cl_window st1)"
    "cl_sent_data_packets st1 = cl_sent_data_packets st + of_nat (length ks)"
    "cl_retransmitted_packets st1 = cl_retransmitted_packets st + of_nat (length (filter snd ks))"
    using assms(1) by (auto simp: follows_def)
  have m: "m' = m" using window_at_inv(3) assms(2) ks(3) by blast
  obtain ls l where ls: "ys = map (scheduled (cc_server cfg) contents (request_of cfg) (cc_session_id cfg)) ls"
    "schedule m ls = Some l" "window_at cfg l (cl_window st2)"
    "cl_sent_data_packets st2 = cl_sent_data_packets st1 + of_nat (length ls)"
    "cl_retransmitted_packets st2 = cl_retransmitted_packets st1 + of_nat (length (filter snd ls))"
    using assms(3) by (auto simp: follows_def)
  show ?thesis
    unfolding follows_def using ks ls m
    by (intro exI [of _ "ks @ ls"] exI [of _ l]) (simp add: schedule_append)
qed

lemma sent_client_pace: "sent.keeps (client_pace b st)"
  unfolding client_pace_def Let_def by (intro sent.keeps_intros sent.keeps_pacer_wait sent_keeps)

lemma sent_note_first_data: "sent.keeps (note_first_data st)"
  unfolding note_first_data_def by (intro sent.keeps_intros sent_keeps)

lemma count_sent_counts:
  "cl_sent_data_packets (count_sent d st) = cl_sent_data_packets st + 1"
  "cl_retransmitted_packets (count_sent d st) =
     cl_retransmitted_packets st + (if retransmission d then 1 else 0)"
  by (simp_all add: count_sent_def Let_def)

text \<open>The steps of a send that come before the datagram.\<close>

lemma traces_prepare:
  assumes "\<And>st'. cl_window st' = cl_window st \<Longrightarrow> same_counts st st' \<Longrightarrow> traces (f st') Q"
  shows "traces (io_bind (client_pace b st) (\<lambda>st. io_bind (note_first_data st) f)) Q"
proof (rule traces_bind [OF traces_silent [OF sent_client_pace, where Q = "\<lambda>st' ds. ds = [] \<and>
    cl_window st' = cl_window st \<and> same_counts st st'"]])
  show "[] = [] \<and> cl_window st' = cl_window st \<and> same_counts st st'"
    if "client_pace b st w = (Returned st', w')" for w st' w'
    using that by (auto simp: client_pace_def Let_def io_bind_returned same_counts_def)
next
  fix st1 and xs :: "(endpoint \<times> bytes) list"
  assume st1: "xs = [] \<and> cl_window st1 = cl_window st \<and> same_counts st st1"
  show "traces (io_bind (note_first_data st1) f) (\<lambda>b ys. Q b (xs @ ys))"
  proof (rule traces_bind [OF traces_silent [OF sent_note_first_data, where Q = "\<lambda>st' ds. ds = [] \<and>
      cl_window st' = cl_window st1 \<and> same_counts st1 st'"]])
    show "[] = [] \<and> cl_window st' = cl_window st1 \<and> same_counts st1 st'"
      if "note_first_data st1 w = (Returned st', w')" for w st' w'
      using that by (auto simp: note_first_data_def io_bind_returned same_counts_def split: if_splits)
    show "traces (f st2) (\<lambda>b zs. Q b (xs @ (ys @ zs)))"
      if "ys = [] \<and> cl_window st2 = cl_window st1 \<and> same_counts st1 st2" for st2 and ys :: "(endpoint \<times> bytes) list"
      using assms [of st2] st1 that by (simp add: same_counts_def)
  qed
qed

lemma traces_client_send_one:
  assumes cfg: "config_ok contents cfg"
    and sel: "select_next_packet w0 = (Some d, cl_window st)" and at: "window_at cfg n w0"
  shows "traces (client_send cfg d st) (\<lambda>st' ds.
    ds = [scheduled (cc_server cfg) contents (request_of cfg) (cc_session_id cfg) (sequence d, retransmission d)] \<and>
    window_at cfg (if retransmission d then n else n + 1) (cl_window st') \<and>
    cl_sent_data_packets st' = cl_sent_data_packets st + 1 \<and>
    cl_retransmitted_packets st' = cl_retransmitted_packets st + (if retransmission d then 1 else 0))"
    (is "traces _ ?Q")
proof -
  let ?n = "if retransmission d then n else n + 1"
  let ?ds = "[scheduled (cc_server cfg) contents (request_of cfg) (cc_session_id cfg) (sequence d, retransmission d)]"
  note C = chosen_sequence [OF sel at]
  have final: "traces (client_drain cfg (count_sent d (st1\<lparr>cl_window := w\<rparr>))) (\<lambda>st' ds. ?Q st' (?ds @ ds))"
    if "window_at cfg ?n w" and same: "same_counts st st1" for st1 w
  proof (rule traces_mono [OF traces_client_drain [where n = ?n]])
    show "window_at cfg ?n (cl_window (count_sent d (st1\<lparr>cl_window := w\<rparr>)))"
      using that by (simp add: count_sent_counted(2))
    show "?Q st' (?ds @ ds)" if "idles cfg ?n (count_sent d (st1\<lparr>cl_window := w\<rparr>)) st' ds" for st' ds
      using that same by (simp add: idles_def same_counts_def count_sent_counts)
  qed
  have data: "traces (send_data_packet (cc_server cfg) (data_header cfg d) (data_from cfg (sequence d))
      (chunk_length (cc_size cfg) (cc_chunk_size cfg) (sequence d))) (\<lambda>_ ds. ds = ?ds)"
    unfolding send_data_datagram [OF cfg C(1)] by (rule traces_send_loop) (simp add: scheduled_def)
  have mark: "traces (io_sum (mark_sent (cl_window st1) (sequence d) now))
      (\<lambda>w ds. ds = [] \<and> window_at cfg ?n w)" if "cl_window st1 = cl_window st" for st1 now
    using C(4) [of now] that by (intro traces_sum) auto
  show ?thesis
    unfolding client_send_def Let_def
    apply (rule traces_bind [OF traces_clock], rule traces_prepare)
    apply (rule traces_bind [OF data], rule traces_bind [OF traces_clock], rule traces_bind [OF mark], simp)
    subgoal for _ _ st1 _ _ _ _ w
      using final [of w st1] by (simp add: same_counts_def)
    done
qed

lemma traces_client_send:
  assumes cfg: "config_ok contents cfg"
    and sel: "select_next_packet w0 = (Some d, cl_window st)" and at: "window_at cfg n w0"
  shows "traces (client_send cfg d st) (follows contents cfg n st)"
proof (rule traces_mono [OF traces_client_send_one [OF assms]])
  have "schedule n [(sequence d, retransmission d)] = Some (if retransmission d then n else n + 1)"
    using chosen_sequence(2,3) [OF sel at] by auto
  then show "follows contents cfg n st st' ds"
    if "ds = [scheduled (cc_server cfg) contents (request_of cfg) (cc_session_id cfg) (sequence d, retransmission d)] \<and>
      window_at cfg (if retransmission d then n else n + 1) (cl_window st') \<and>
      cl_sent_data_packets st' = cl_sent_data_packets st + 1 \<and>
      cl_retransmitted_packets st' = cl_retransmitted_packets st + (if retransmission d then 1 else 0)" for st' ds
    unfolding follows_def using that
    by (intro exI [of _ "[(sequence d, retransmission d)]"]) simp
qed

lemma traces_client_choose:
  assumes cfg: "config_ok contents cfg" and at: "client_at cfg n st"
  shows "traces (case select_next_packet (cl_window st) of
       (None, window) \<Rightarrow> client_idle cfg (st\<lparr>cl_window := window\<rparr>)
     | (Some decision, window) \<Rightarrow> client_send cfg decision (st\<lparr>cl_window := window\<rparr>))
    (follows contents cfg n st)"
proof -
  have n: "window_at cfg n (cl_window st)" "counted n st" using at by (auto simp: client_at_def)
  obtain choice window where sel: "select_next_packet (cl_window st) = (choice, window)" by fastforce
  have same: "same_counts st (st\<lparr>cl_window := window\<rparr>)" by (simp add: same_counts_def)
  show ?thesis
  proof (cases choice)
    case None
    have "client_at cfg n (st\<lparr>cl_window := window\<rparr>)"
      using window_at_steps(3) [OF n(1) sel [unfolded None]] n(2) by (auto simp: client_at_def)
    from traces_client_idle [OF this] show ?thesis
      by (simp add: sel None) (erule traces_mono, blast intro: follows_counts [OF same] idles_follows)
  next
    case (Some d)
    have "select_next_packet (cl_window st) = (Some d, cl_window (st\<lparr>cl_window := window\<rparr>))"
      using sel Some by simp
    from traces_client_send [OF cfg this n(1)] show ?thesis
      by (simp add: sel Some) (erule traces_mono, blast intro: follows_counts [OF same])
  qed
qed

lemma traces_client_round:
  assumes cfg: "config_ok contents cfg" and at: "client_at cfg n st"
  shows "traces (client_round cfg st) (follows contents cfg n st)"
proof -
  have drain: "traces (client_drain cfg st) (\<lambda>st' ds. client_at cfg n st' \<and> idles cfg n st st' ds)"
    by (rule traces_does [OF does_client_drain [OF at, where P = "\<lambda>_. True"]])
      (use at in \<open>auto intro: traces_client_drain simp: client_at_def\<close>)
  have sample: "traces (sample_window t st1) (\<lambda>st2 ds. client_at cfg n st2 \<and> ds = [] \<and> same_counts st1 st2)"
    if "client_at cfg n st1" for t st1
  proof (rule traces_does [OF does_sample_window [OF that, where P = "\<lambda>_. True"]], rule traces_silent)
    show "sent.keeps (sample_window t st1)" unfolding sample_window_def by (intro sent.keeps_intros)
    show "[] = [] \<and> same_counts st1 st2" if "sample_window t st1 w = (Returned st2, w')" for w st2 w'
      using that by (auto simp: sample_window_def io_bind_returned same_counts_def split: if_splits)
  qed
  show ?thesis
    unfolding client_round_def Let_def
    apply (rule traces_bind [OF drain], rule traces_bind [OF traces_clock], rule traces_bind [OF traces_clock])
    apply (rule traces_bind [OF sample], rule client_at_timeouts, simp)
    apply (rule traces_mono [OF traces_client_choose [OF cfg]], simp)
    apply (auto simp: idles_def same_counts_def elim!: follows_counts [rotated])
    done
qed

lemma traces_client_loop:
  assumes cfg: "config_ok contents cfg"
  shows "client_at cfg n st \<Longrightarrow> traces (client_loop cfg st) (follows contents cfg n st)"
proof (rule tracesI)
  fix w st' w'
  show "client_at cfg n st \<Longrightarrow> client_loop cfg st w = (Returned st', w') \<Longrightarrow>
      \<exists>ds. wd_sent w' = wd_sent w @ ds \<and> follows contents cfg n st st' ds"
    using cfg
  proof (induction cfg st w arbitrary: n rule: client_loop.induct)
    case (1 cfg st w)
    show ?case
    proof (cases "all_acked (cl_window st)")
      case True
      have "idles cfg n st st []" using 1(2) by (simp add: idles_def client_at_def same_counts_def)
      then show ?thesis using 1(3) True idles_follows by (force simp: client_loop.simps [of cfg st w])
    next
      case False
      then obtain st1 w1 where round: "client_round cfg st w = (Returned st1, w1)"
        and rest: "client_loop cfg st1 w1 = (Returned st', w')"
        using 1(3) by (auto simp: client_loop.simps [of cfg st w] split: prod.splits outcome.splits)
      have "client_ok cfg st" using 1(2) by (auto simp: client_ok_def)
      from doesD(3) [OF does_client_round [OF 1(4) this] round subset_refl]
      obtain m where m: "client_at cfg m st1" by (auto simp: client_ok_def)
      obtain xs where xs: "wd_sent w1 = wd_sent w @ xs" "follows contents cfg n st st1 xs"
        using tracesD [OF traces_client_round [OF 1(4,2)] round] by blast
      obtain ys where ys: "wd_sent w' = wd_sent w1 @ ys" "follows contents cfg m st1 st' ys"
        using 1(1) [OF False round [symmetric] refl m rest 1(4)] by blast
      have "follows contents cfg n st st' (xs @ ys)"
        using follows_trans [OF xs(2) _ ys(2)] m by (simp add: client_at_def)
      then show ?thesis using xs ys by auto
    qed
  qed
qed

section \<open>The handshakes\<close>

text \<open>One to \<open>n\<close> copies of a datagram.\<close>

definition copies :: "nat \<Rightarrow> endpoint \<times> bytes \<Rightarrow> (endpoint \<times> bytes) list \<Rightarrow> bool" where
  "copies n d ds \<longleftrightarrow> (\<exists>k. 1 \<le> k \<and> k \<le> n \<and> ds = replicate k d)"

lemma copies_once: "copies (Suc n) d [d]"
  unfolding copies_def by (rule exI [of _ 1]) simp

lemma copies_Cons: "copies n d ds \<Longrightarrow> copies (Suc n) d (d # ds)"
  unfolding copies_def
proof (elim exE)
  fix k assume "1 \<le> k \<and> k \<le> n \<and> ds = replicate k d"
  then show "\<exists>k. 1 \<le> k \<and> k \<le> Suc n \<and> d # ds = replicate k d" by (intro exI [of _ "Suc k"]) simp
qed

lemma sent_receive_expected: "sent.keeps (receive_expected server t sid timeout stats)"
  by (intro sent.keeps_receive_expected sent_keeps)

lemma traces_start_handshake:
  "traces (start_handshake n server sid start) (\<lambda>_. copies n (server, start_datagram start sid))"
proof (induction n)
  case (Suc n)
  have d: "serialize_packet (make_header START sid 0) (Some (serialize_start start))
      (length (serialize_start start)) = Inr (start_datagram start sid)"
    by (simp add: serialize_packet_layout serialize_start_layout start_datagram_def)
  have recv: "traces (receive_expected server START_ACK sid kControlTimeoutMs None) (\<lambda>_ ds. ds = [])"
    by (rule traces_silent [OF sent_receive_expected]) simp
  show ?case
    unfolding start_handshake.simps Let_def
    apply (rule traces_bind [OF traces_send_packet [OF d, where Q = "\<lambda>_ ds. ds = [(server, start_datagram start sid)]"]], simp)
    apply (rule traces_bind [OF recv])
    apply (auto split: option.splits intro!: traces_throw traces_return copies_once
        traces_mono [OF Suc] copies_Cons)
    done
qed (simp add: traces_throw)

lemma traces_complete_handshake:
  "traces (complete_handshake n server sid (sp_total_chunks start))
    (\<lambda>_. copies n (server, complete_datagram start sid))"
proof (induction n)
  case (Suc n)
  have d: "serialize_packet (make_header COMPLETE sid (sp_total_chunks start)) None 0 =
      Inr (complete_datagram start sid)"
    by (simp add: serialize_packet_empty complete_datagram_def)
  have recv: "traces (receive_expected server COMPLETE_ACK sid kControlTimeoutMs None) (\<lambda>_ ds. ds = [])"
    by (rule traces_silent [OF sent_receive_expected]) simp
  show ?case
    unfolding complete_handshake.simps
    apply (rule traces_bind [OF traces_send_packet [OF d, where Q = "\<lambda>_ ds. ds = [(server, complete_datagram start sid)]"]], simp)
    apply (rule traces_bind [OF recv])
    apply (auto split: option.splits intro!: traces_throw traces_return copies_once
        traces_mono [OF Suc] copies_Cons)
    done
qed (simp add: traces_throw)

section \<open>The whole run\<close>

text \<open>The trace of a transfer, without the STARTs: the schedule and the COMPLETEs.\<close>

definition transfer_trace ::
    "bytes \<Rightarrow> client_config \<Rightarrow> client_state \<Rightarrow> (endpoint \<times> bytes) list \<Rightarrow> bool" where
  "transfer_trace contents cfg st ds \<longleftrightarrow> (\<exists>ks finals.
     ds = map (scheduled (cc_server cfg) contents (request_of cfg) (cc_session_id cfg)) ks @ finals \<and>
     copies kControlAttempts (cc_server cfg, complete_datagram (request_of cfg) (cc_session_id cfg)) finals \<and>
     schedule 0 ks = Some (cc_total_chunks cfg) \<and>
     cl_sent_data_packets st = of_nat (length ks) \<and>
     cl_retransmitted_packets st = of_nat (length (filter snd ks)))"

lemma follows_finished:
  assumes "follows contents cfg 0 (init_client_state w0 p t) st xs" and "client_ok cfg st"
    and "all_acked (cl_window st)"
  shows "\<exists>ks. xs = map (scheduled (cc_server cfg) contents (request_of cfg) (cc_session_id cfg)) ks \<and>
     schedule 0 ks = Some (cc_total_chunks cfg) \<and> cl_sent_data_packets st = of_nat (length ks) \<and>
     cl_retransmitted_packets st = of_nat (length (filter snd ks))"
proof -
  obtain ks m where ks: "xs = map (scheduled (cc_server cfg) contents (request_of cfg) (cc_session_id cfg)) ks"
    "schedule 0 ks = Some m" "window_at cfg m (cl_window st)"
    "cl_sent_data_packets st = of_nat (length ks)"
    "cl_retransmitted_packets st = of_nat (length (filter snd ks))"
    using assms(1) by (auto simp: follows_def init_client_state_def)
  note I = window_at_inv [OF ks(3)]
  have "m = cc_total_chunks cfg"
    using sw.finished_all [OF I(1) assms(3) subset_refl] I(2,3) by (simp add: word_unat_eq_iff)
  with ks show ?thesis by blast
qed

lemma traces_client_exchange:
  assumes cfg: "config_ok contents cfg"
  shows "traces (client_exchange options cfg) (\<lambda>(st, _, _). transfer_trace contents cfg st)"
proof -
  have window: "traces (io_sum (make_sender_window (cc_total_chunks cfg)
         (sa_accepted_window_chunks (cc_accepted cfg)) (ucast (sa_accepted_bitmap_bits (cc_accepted cfg))) now))
      (\<lambda>w ds. window_at cfg 0 w \<and> ds = [])" for now
    by (rule traces_sum) (auto intro: window_at_created)
  have pacer: "traces (io_sum (make_pacer rate now)) (\<lambda>_ ds. ds = [])" for rate now
    by (rule traces_sum) simp
  have loop: "traces (client_loop cfg (init_client_state w p t)) (\<lambda>st ds.
      (client_ok cfg st \<and> all_acked (cl_window st)) \<and> follows contents cfg 0 (init_client_state w p t) st ds)"
    if "window_at cfg 0 w" for w p t
  proof -
    have "client_at cfg 0 (init_client_state w p t)"
      using that by (auto simp: client_at_def init_client_state_def counted_def no_diagnostics_def)
    then show ?thesis
      by (intro traces_does [OF does_client_loop [OF cfg]] traces_client_loop [OF cfg] init_client_ok [OF that])
  qed
  have final: "traces (complete_handshake kControlAttempts (cc_server cfg) (cc_session_id cfg) (cc_total_chunks cfg))
    (\<lambda>_. copies kControlAttempts (cc_server cfg, complete_datagram (request_of cfg) (cc_session_id cfg)))"
    using traces_complete_handshake [where start = "request_of cfg"] by simp
  show ?thesis
    unfolding client_exchange_def Let_def
    apply (rule traces_bind [OF traces_clock], rule traces_bind [OF window], rule traces_bind [OF traces_clock])
    apply (rule traces_bind [OF pacer], rule traces_bind [OF traces_clock], rule traces_bind [OF loop], simp)
    apply (rule traces_bind [OF traces_clock], rule traces_bind [OF final], rule traces_if, rule traces_throw)
    apply (rule traces_bind [OF traces_clock], rule traces_return)
    apply (auto simp: transfer_trace_def dest!: follows_finished)
    done
qed

lemma traces_client_transfer:
  assumes "config_ok contents cfg"
  shows "traces (client_transfer options cfg) (\<lambda>(st, _). transfer_trace contents cfg st)"
  unfolding client_transfer_def
  by (rule traces_bind [OF traces_client_exchange [OF assms]])
    (auto intro!: traces_bind [OF traces_log(3)] traces_return)

definition run_trace ::
    "bytes \<Rightarrow> u64 \<Rightarrow> u32 \<Rightarrow> u32 \<Rightarrow> endpoint \<Rightarrow> u32 \<Rightarrow> client_state \<Rightarrow> (endpoint \<times> bytes) list \<Rightarrow> bool" where
  "run_trace contents file_size c n server sid st ds \<longleftrightarrow> (\<exists>starts ks finals.
     ds = starts @ map (scheduled server contents (start_request file_size c n) sid) ks @ finals \<and>
     copies 10 (server, start_datagram (start_request file_size c n) sid) starts \<and>
     copies 10 (server, complete_datagram (start_request file_size c n) sid) finals \<and>
     schedule 0 ks = Some n \<and>
     cl_sent_data_packets st = of_nat (length ks) \<and>
     cl_retransmitted_packets st = of_nat (length (filter snd ks)))"

lemma traces_run_client:
  assumes plan: "client_plan getaddrinfo k contents randoms options f c n server sid"
  shows "traces (run_client getaddrinfo k contents socket_fd discover_rc randoms options)
    (\<lambda>(st, _). run_trace contents (mf_size f) c n server sid st)"
proof -
  obtain calls where open_eq: "open_input k (co_file options) = (Inr f, calls)"
    using plan by (cases "open_input k (co_file options)") (simp add: client_plan_def)
  have p: "length contents = unat (mf_size f)" "chunk_size_for_mtu (co_mtu options) = Inr c"
    "chunk_count (mf_size f) c = Inr n" "resolve_server getaddrinfo options = Inr server"
    "random_session_id randoms = Some sid"
    using plan by (simp_all add: client_plan_def)
  have session: "traces (client_session discover_rc randoms options
      (map_option (\<lambda>_. contents) (mf_data f)) (mf_size f) c n server)
      (\<lambda>(st, _). run_trace contents (mf_size f) c n server sid st)"
    unfolding client_session_def p(5) option.case
  proof (rule traces_if [OF traces_throw(2)], rule traces_bind [OF traces_start_handshake],
      rule traces_if [OF traces_throw(1)])
    fix accepted starts
    assume starts: "copies kControlAttempts (server, start_datagram (start_request (mf_size f) c n) sid) starts"
    let ?cfg = "\<lparr>cc_server = server, cc_session_id = sid, cc_data = map_option (\<lambda>_. contents) (mf_data f),
         cc_size = mf_size f, cc_chunk_size = c, cc_total_chunks = n, cc_accepted = accepted\<rparr>"
    have cfg: "config_ok contents ?cfg"
      using p(1-3) open_input_mapped [OF open_eq] by (auto simp: config_ok_def chunk_size_for_mtu_Inr)
    show "traces (client_transfer options ?cfg) (\<lambda>report ys.
        (case report of (st, _) \<Rightarrow> run_trace contents (mf_size f) c n server sid st) (starts @ ys))"
      by (rule traces_mono [OF traces_client_transfer [OF cfg]])
        (use starts in \<open>auto simp: run_trace_def transfer_trace_def request_of_def kControlAttempts_def, blast\<close>)
  qed
  have "traces (send_file getaddrinfo contents socket_fd discover_rc randoms options f)
      (\<lambda>(st, _). run_trace contents (mf_size f) c n server sid st)"
    unfolding send_file_def
    by (auto simp: p(2-4) intro!: traces_throw traces_on_throw traces_return traces_bind [OF session]
        traces_bind [OF traces_log(2)])
  then show ?thesis
    unfolding run_client_def Let_def
    by (auto simp: open_eq intro!: traces_bind [OF traces_log(1)] traces_finally sent_keeps)
qed

end
