(* ===== verification/Receiver_Tracker.thy ===== *)
theory Receiver_Tracker
  imports Control_Payloads Ack_Bitmap
begin

text \<open>
  \<^verbatim>\<open>ReceiverTracker\<close> of \<^verbatim>\<open>src/reliability.cpp\<close>: which chunks have arrived, the cumulative ACK, and the
  SACK snapshot sent back to the client.  The abstract view is the set of received chunk numbers;
  the locale \<open>receipt_tracker\<close> states what the server relies on in terms of that set, and the tracker
  is an interpretation of it.
\<close>

section \<open>State and operations\<close>

record receiver_tracker =
  rt_received :: bytes
  rt_received_count :: u32
  rt_cumulative_ack :: u32
  rt_largest_received_plus_one :: u32

definition make_tracker :: "u32 \<Rightarrow> receiver_tracker" where
  "make_tracker total_chunks =
     \<lparr>rt_received = replicate (unat total_chunks) 0, rt_received_count = 0,
      rt_cumulative_ack = 0, rt_largest_received_plus_one = 0\<rparr>"

definition has_received :: "receiver_tracker \<Rightarrow> u32 \<Rightarrow> bool" where
  "has_received t sequence \<longleftrightarrow>
     unat sequence < length (rt_received t) \<and> rt_received t ! unat sequence \<noteq> 0"

text \<open>
  \<^verbatim>\<open>while (cumulative_ack_ < received_.size() && received_[cumulative_ack_] != 0) ++cumulative_ack_\<close>,
  over the index as a natural number: it never exceeds the size, which is a 32-bit chunk count.
\<close>

function skip_received :: "bytes \<Rightarrow> nat \<Rightarrow> nat" where
  "skip_received received c =
     (if c < length received \<and> received ! c \<noteq> 0 then skip_received received (Suc c) else c)"
  by pat_completeness auto
termination
  by (relation "measure (\<lambda>(received, c). length received - c)") auto

declare skip_received.simps [simp del]

definition mark_received :: "receiver_tracker \<Rightarrow> u32 \<Rightarrow> bool \<times> receiver_tracker" where
  "mark_received t sequence =
     (if unat sequence \<ge> length (rt_received t) \<or> rt_received t ! unat sequence \<noteq> 0
      then (False, t)
      else
        let received = (rt_received t)[unat sequence := 1]
        in (True,
            \<lparr>rt_received = received,
             rt_received_count = rt_received_count t + 1,
             rt_cumulative_ack =
               of_nat (skip_received received (unat (rt_cumulative_ack t))),
             rt_largest_received_plus_one =
               max (rt_largest_received_plus_one t) (sequence + 1)\<rparr>))"

definition complete :: "receiver_tracker \<Rightarrow> bool" where
  "complete t \<longleftrightarrow> unat (rt_received_count t) = length (rt_received t)"

definition make_ack_snapshot :: "receiver_tracker \<Rightarrow> u16 \<Rightarrow> ack_payload" where
  "make_ack_snapshot t bitmap_bits =
     (let base = rt_cumulative_ack t;
          sequence_limit =
            min (unat (rt_largest_received_plus_one t)) (length (rt_received t));
          bits_to_scan =
            (if unat base < sequence_limit
             then min (unat bitmap_bits) (sequence_limit - unat base) else 0);
          bitmap =
            fold (\<lambda>b bitmap.
                let sequence = unat base + b
                in if rt_received t ! sequence \<noteq> 0 then set_ack_bit bitmap b else bitmap)
              [0..<bits_to_scan] (replicate (bitmap_bytes bitmap_bits) 0)
      in \<lparr>ak_cumulative_ack = rt_cumulative_ack t,
          ak_largest_received_plus_one = rt_largest_received_plus_one t,
          ak_bitmap_base = base, ak_bitmap_bits = bitmap_bits, ak_bitmap = bitmap\<rparr>)"

section \<open>The abstract view: the set of received chunks\<close>

definition received_set :: "receiver_tracker \<Rightarrow> nat set" where
  "received_set t = {i. i < length (rt_received t) \<and> rt_received t ! i \<noteq> 0}"

text \<open>
  The tracker that represents a set: every field is determined by the set and the total.
\<close>

definition tracker_of :: "nat \<Rightarrow> nat set \<Rightarrow> receiver_tracker" where
  "tracker_of n R =
     \<lparr>rt_received = map (\<lambda>i. if i \<in> R then 1 else 0) [0..<n],
      rt_received_count = of_nat (card R),
      rt_cumulative_ack = of_nat (first_gap R),
      rt_largest_received_plus_one = of_nat (upper_end R)\<rparr>"

definition tracker_inv :: "receiver_tracker \<Rightarrow> bool" where
  "tracker_inv t \<longleftrightarrow>
     length (rt_received t) < 2 ^ 32 \<and>
     t = tracker_of (length (rt_received t)) (received_set t)"

section \<open>Lemmas\<close>

lemma finite_received_set [simp]: "finite (received_set t)"
  by (simp add: received_set_def)

lemma received_set_tracker_of: "R \<subseteq> {..<n} \<Longrightarrow> received_set (tracker_of n R) = R"
  by (auto simp: received_set_def tracker_of_def split: if_splits)

lemma skip_received_bounds:
  "c \<le> length r \<Longrightarrow> c \<le> skip_received r c \<and> skip_received r c \<le> length r \<and>
     (skip_received r c < length r \<longrightarrow> r ! skip_received r c = 0) \<and>
     (\<forall>i. c \<le> i \<and> i < skip_received r c \<longrightarrow> r ! i \<noteq> 0)"
proof (induction r c rule: skip_received.induct)
  case (1 r c)
  show ?case
  proof (cases "c < length r \<and> r ! c \<noteq> 0")
    case True
    with 1 have IH: "Suc c \<le> skip_received r (Suc c) \<and> skip_received r (Suc c) \<le> length r \<and>
       (skip_received r (Suc c) < length r \<longrightarrow> r ! skip_received r (Suc c) = 0) \<and>
       (\<forall>i. Suc c \<le> i \<and> i < skip_received r (Suc c) \<longrightarrow> r ! i \<noteq> 0)" by simp
    have "skip_received r c = skip_received r (Suc c)"
      using True by (subst skip_received.simps) simp
    with IH True show ?thesis by (auto simp: le_eq_less_or_eq [of c] Suc_le_eq)
  next
    case False
    then have "skip_received r c = c" by (subst skip_received.simps) auto
    with False 1 show ?thesis by auto
  qed
qed

lemma tracker_of_simps:
  "length (rt_received (tracker_of n R)) = n"
  "i < n \<Longrightarrow> rt_received (tracker_of n R) ! i = (if i \<in> R then 1 else 0)"
  "rt_received_count (tracker_of n R) = of_nat (card R)"
  "rt_cumulative_ack (tracker_of n R) = of_nat (first_gap R)"
  "rt_largest_received_plus_one (tracker_of n R) = of_nat (upper_end R)"
  by (simp_all add: tracker_of_def)

lemma subset_finite_card:
  "R \<subseteq> {..<n} \<Longrightarrow> finite R" "R \<subseteq> {..<n} \<Longrightarrow> card R \<le> n"
  using finite_subset card_mono [of "{..<n}" R] by auto

lemma make_tracker_eq: "make_tracker n = tracker_of (unat n) {}"
  by (simp add: make_tracker_def tracker_of_def first_gap_def upper_end_def map_replicate_const
      Least_equality)

lemma first_gap_insert:
  assumes "R \<subseteq> {..<n}" and "s < n"
  shows "skip_received (map (\<lambda>i. if i \<in> insert s R then 1 else 0) [0..<n]) (first_gap R) =
    first_gap (insert s R)"
proof -
  define r where "r = map (\<lambda>i. if i \<in> insert s R then 1 else 0 :: u8) [0..<n]"
  define g where "g = skip_received r (first_gap R)"
  have r: "length r = n" "\<And>i. i < n \<Longrightarrow> r ! i \<noteq> 0 \<longleftrightarrow> i \<in> insert s R"
    by (simp_all add: r_def)
  have "first_gap R \<le> length r" using first_gap_le [OF assms(1)] r by simp
  from skip_received_bounds [OF this, folded g_def]
  have g: "g \<le> n" "g < n \<Longrightarrow> r ! g = 0"
    "\<And>i. first_gap R \<le> i \<Longrightarrow> i < g \<Longrightarrow> r ! i \<noteq> 0" by (simp_all add: r)
  have "first_gap (insert s R) = g"
  proof (rule first_gap_eqI)
    show "g \<notin> insert s R"
      using g(2) r(2) [of g] assms by (cases "g < n") auto
    show "i \<in> insert s R" if "i < g" for i
      using g(1) g(3) [of i] r(2) [of i] below_first_gap [of i R] that
      by (cases "i < first_gap R") auto
  qed
  then show ?thesis by (simp add: g_def r_def)
qed

text \<open>On a tracker that represents a set, marking a chunk is insertion into the set.\<close>

lemma mark_received_tracker_of:
  assumes R: "R \<subseteq> {..<n}" and n: "n < 2 ^ 32"
  shows "mark_received (tracker_of n R) s =
    (if unat s < n \<and> unat s \<notin> R then (True, tracker_of n (insert (unat s) R))
     else (False, tracker_of n R))"
proof (cases "unat s < n \<and> unat s \<notin> R")
  case True
  have fin: "finite R" by (rule subset_finite_card [OF R])
  have recv: "(rt_received (tracker_of n R))[unat s := 1] =
      map (\<lambda>i. if i \<in> insert (unat s) R then 1 else 0) [0..<n]"
    using True by (intro nth_equalityI) (auto simp: tracker_of_simps nth_list_update)
  have gap: "unat (of_nat (first_gap R) :: u32) = first_gap R"
    using first_gap_le [OF R] n by simp
  have "unat (s + 1) = Suc (unat s)"
    using True n by (simp add: unat_word_ariths)
  then have "max (of_nat (upper_end R)) (s + 1) = (of_nat (max (upper_end R) (Suc (unat s))) :: u32)"
    using upper_end_le [OF fin R] n True
    by (simp add: max_def word_le_nat_alt word_unat_eq_iff)
  with True fin gap recv first_gap_insert [OF R, of "unat s"] show ?thesis
    by (simp add: mark_received_def tracker_of_simps Let_def tracker_of_def upper_end_insert)
next
  case False
  then show ?thesis
    by (auto simp: mark_received_def tracker_of_simps)
qed

lemma tracker_invE:
  assumes "tracker_inv t"
  obtains n R where "t = tracker_of n R" "R \<subseteq> {..<n}" "n < 2 ^ 32" "n = length (rt_received t)"
    "R = received_set t"
  using assms by (auto simp: tracker_inv_def received_set_def)

lemma tracker_inv_of: "R \<subseteq> {..<n} \<Longrightarrow> n < 2 ^ 32 \<Longrightarrow> tracker_inv (tracker_of n R)"
  by (simp add: tracker_inv_def received_set_tracker_of tracker_of_simps)

section \<open>The contract of a receipt tracker\<close>

text \<open>
  What the server and the transfer proofs use: an abstract set of received chunk numbers below a
  fixed total, insertion, membership, the derived counters and the SACK snapshot.
\<close>

locale receipt_tracker =
  fixes mk :: "u32 \<Rightarrow> 't"
    and has :: "'t \<Rightarrow> u32 \<Rightarrow> bool"
    and mark :: "'t \<Rightarrow> u32 \<Rightarrow> bool \<times> 't"
    and full :: "'t \<Rightarrow> bool"
    and cum :: "'t \<Rightarrow> u32"
    and count :: "'t \<Rightarrow> u32"
    and total :: "'t \<Rightarrow> nat"
    and rset :: "'t \<Rightarrow> nat set"
    and inv :: "'t \<Rightarrow> bool"
  assumes inv_mk: "inv (mk n)"
    and total_mk: "total (mk n) = unat n"
    and rset_mk: "rset (mk n) = {}"
    and inv_mark: "inv t \<Longrightarrow> inv (snd (mark t s))"
    and total_mark: "inv t \<Longrightarrow> total (snd (mark t s)) = total t"
    and rset_mark: "inv t \<Longrightarrow>
      rset (snd (mark t s)) = (if unat s < total t then insert (unat s) (rset t) else rset t)"
    and fst_mark: "inv t \<Longrightarrow> fst (mark t s) \<longleftrightarrow> unat s < total t \<and> unat s \<notin> rset t"
    and has_iff: "inv t \<Longrightarrow> has t s \<longleftrightarrow> unat s \<in> rset t"
    and rset_bound: "inv t \<Longrightarrow> rset t \<subseteq> {..<total t}"
    and total_bound: "inv t \<Longrightarrow> total t < 2 ^ 32"
    and full_iff: "inv t \<Longrightarrow> full t \<longleftrightarrow> rset t = {..<total t}"
    and unat_cum: "inv t \<Longrightarrow> unat (cum t) = first_gap (rset t)"
    and unat_count: "inv t \<Longrightarrow> unat (count t) = card (rset t)"
    and determined: "inv t \<Longrightarrow> inv u \<Longrightarrow> total t = total u \<Longrightarrow> rset t = rset u \<Longrightarrow> t = u"
begin

text \<open>A run of arrivals.\<close>

lemma marks_run:
  "inv t \<Longrightarrow> inv (fold (\<lambda>s t. snd (mark t s)) ss t) \<and>
     total (fold (\<lambda>s t. snd (mark t s)) ss t) = total t \<and>
     rset (fold (\<lambda>s t. snd (mark t s)) ss t) =
       rset t \<union> {unat s | s. s \<in> set ss \<and> unat s < total t}"
  by (induction ss arbitrary: t) (auto simp: inv_mark total_mark rset_mark)

lemma marks_order_irrelevant:
  "inv t \<Longrightarrow> set ss = set ss' \<Longrightarrow>
     fold (\<lambda>s t. snd (mark t s)) ss t = fold (\<lambda>s t. snd (mark t s)) ss' t"
  by (rule determined) (simp_all add: marks_run)

lemma cum_le_total: "inv t \<Longrightarrow> unat (cum t) \<le> total t"
  by (simp add: unat_cum first_gap_le rset_bound)

lemma full_cum: "inv t \<Longrightarrow> full t \<longleftrightarrow> unat (cum t) = total t"
  using rset_bound [of t] first_gap_notin [of "rset t"] below_first_gap [of _ "rset t"]
  by (auto simp: full_iff unat_cum intro: first_gap_eqI)

lemma mark_again: "inv t \<Longrightarrow> mark (snd (mark t s)) s = (False, snd (mark t s))"
  by (intro prod_eqI determined) (auto simp: fst_mark inv_mark total_mark rset_mark)

end

interpretation rt: receipt_tracker make_tracker has_received mark_received complete
  rt_cumulative_ack rt_received_count "\<lambda>t. length (rt_received t)" received_set tracker_inv
proof
  fix t u :: receiver_tracker and s n :: u32
  show "tracker_inv (make_tracker n)"
    using unat_u32_less [of n] by (simp add: make_tracker_eq tracker_inv_of)
  show "length (rt_received (make_tracker n)) = unat n"
    by (simp add: make_tracker_def)
  show "received_set (make_tracker n) = {}"
    by (simp add: make_tracker_eq received_set_tracker_of)
  show "tracker_inv t \<Longrightarrow> tracker_inv u \<Longrightarrow> length (rt_received t) = length (rt_received u) \<Longrightarrow>
      received_set t = received_set u \<Longrightarrow> t = u"
    by (metis tracker_inv_def)
  assume inv: "tracker_inv t"
  then obtain m R where t: "t = tracker_of m R" "R \<subseteq> {..<m}" "m < 2 ^ 32"
    "m = length (rt_received t)" "R = received_set t"
    by (rule tracker_invE)
  have R': "insert (unat s) R \<subseteq> {..<m}" if "unat s < m" using t(2) that by simp
  note mark = mark_received_tracker_of [OF t(2,3), of s, folded t(1)]
  show "tracker_inv (snd (mark_received t s))"
    using inv tracker_inv_of [OF R' t(3)] by (cases "unat s < m \<and> unat s \<notin> R") (simp_all add: mark)
  show "length (rt_received (snd (mark_received t s))) = length (rt_received t)"
    using t(4) by (auto simp: mark tracker_of_simps)
  show "received_set (snd (mark_received t s)) =
      (if unat s < length (rt_received t) then insert (unat s) (received_set t) else received_set t)"
    using received_set_tracker_of [OF R'] t(4,5) by (auto simp: mark)
  show "fst (mark_received t s) \<longleftrightarrow> unat s < length (rt_received t) \<and> unat s \<notin> received_set t"
    using t(4,5) by (auto simp: mark)
  show "has_received t s \<longleftrightarrow> unat s \<in> received_set t"
    by (simp add: has_received_def received_set_def)
  show "received_set t \<subseteq> {..<length (rt_received t)}" using t by simp
  show "length (rt_received t) < 2 ^ 32" using t by simp
  show *: "unat (rt_received_count t) = card (received_set t)"
    using tracker_of_simps(3) [of m R, folded t(1)] t(3,5) subset_finite_card(2) [OF t(2)] by simp
  show "unat (rt_cumulative_ack t) = first_gap (received_set t)"
    using tracker_of_simps(4) [of m R, folded t(1)] t(3,5) first_gap_le [OF t(2)] by simp
  have "complete t \<longleftrightarrow> card R = m"
    unfolding complete_def * t(4,5) ..
  also have "\<dots> \<longleftrightarrow> R = {..<m}"
    using card_subset_eq [OF finite_lessThan t(2)] by auto
  finally show "complete t \<longleftrightarrow> received_set t = {..<length (rt_received t)}"
    unfolding t(4,5) .
qed

section \<open>The SACK snapshot\<close>

lemma snapshot_simps [simp]:
  "ak_cumulative_ack (make_ack_snapshot t bits) = rt_cumulative_ack t"
  "ak_largest_received_plus_one (make_ack_snapshot t bits) = rt_largest_received_plus_one t"
  "ak_bitmap_base (make_ack_snapshot t bits) = rt_cumulative_ack t"
  "ak_bitmap_bits (make_ack_snapshot t bits) = bits"
  by (simp_all add: make_ack_snapshot_def Let_def)

lemma unat_largest:
  "tracker_inv t \<Longrightarrow> unat (rt_largest_received_plus_one t) = upper_end (received_set t)"
proof (erule tracker_invE)
  fix n R
  assume t: "t = tracker_of n R" "R \<subseteq> {..<n}" "n < 2 ^ 32" "R = received_set t"
  have "upper_end R \<le> n"
    using t(2) subset_finite_card(1) [OF t(2)] by (rule_tac upper_end_le)
  then show "unat (rt_largest_received_plus_one t) = upper_end (received_set t)"
    using tracker_of_simps(5) [of n R, folded t(1)] t(3,4) by simp
qed

lemma snapshot_bitmap:
  assumes inv: "tracker_inv t"
  shows "length (ak_bitmap (make_ack_snapshot t bits)) = bitmap_bytes bits"
    and "j < 8 * bitmap_bytes bits \<Longrightarrow>
      test_ack_bit (ak_bitmap (make_ack_snapshot t bits)) j \<longleftrightarrow>
        j < unat bits \<and> first_gap (received_set t) + j \<in> received_set t"
proof -
  let ?R = "received_set t" and ?g = "first_gap (received_set t)"
  let ?P = "\<lambda>b. rt_received t ! (?g + b) \<noteq> 0"
  define k where "k = (if ?g < min (upper_end ?R) (length (rt_received t))
    then min (unat bits) (min (upper_end ?R) (length (rt_received t)) - ?g) else 0)"
  define z where "z = replicate (bitmap_bytes bits) (0 :: u8)"
  have mem: "i \<in> ?R \<longleftrightarrow> i < length (rt_received t) \<and> rt_received t ! i \<noteq> 0" for i
    by (simp add: received_set_def)
  have bm: "ak_bitmap (make_ack_snapshot t bits) =
      fold (\<lambda>b bm. if ?P b then set_ack_bit bm b else bm) [0..<k] z"
    using rt.unat_cum [OF inv] unat_largest [OF inv]
    by (simp add: make_ack_snapshot_def Let_def k_def z_def)
  have "unat bits \<le> 8 * bitmap_bytes bits"
    by (simp add: bitmap_bytes_def)
  then have k: "k \<le> 8 * length z" by (auto simp: k_def z_def)
  show "length (ak_bitmap (make_ack_snapshot t bits)) = bitmap_bytes bits"
    using ack_bits.fill_range(1) [OF k, of ?P] by (simp add: bm z_def)
  assume j: "j < 8 * bitmap_bytes bits"
  have "test_ack_bit (ak_bitmap (make_ack_snapshot t bits)) j \<longleftrightarrow> j < k \<and> ?P j"
    using ack_bits.fill_range(2) [OF k, of ?P j] test_zero_bitmap [OF j] by (simp add: bm z_def)
  also have "\<dots> \<longleftrightarrow> j < unat bits \<and> ?g + j \<in> ?R"
    using less_upper_end [OF finite_received_set, of "?g + j" t] mem [of "?g + j"]
    by (auto simp: k_def split: if_splits)
  finally show "test_ack_bit (ak_bitmap (make_ack_snapshot t bits)) j \<longleftrightarrow>
      j < unat bits \<and> ?g + j \<in> ?R" .
qed

section \<open>Properties\<close>

text \<open>C24: \<^verbatim>\<open>mark_received\<close> refines insertion into a set: it keeps the tracker's invariant, adds the
  chunk if its number is in range and nothing otherwise, returns true exactly for a new chunk, and
  afterwards the count is the size of the set, the cumulative ACK its first gap, the largest-plus-one
  its upper end, and \<^verbatim>\<open>complete\<close> says whether every chunk is there.\<close>

theorem mark_received_refines_insert:
  assumes "tracker_inv t" and "mark_received t s = (fresh, t')"
  shows "tracker_inv t' \<and> length (rt_received t') = length (rt_received t) \<and>
    received_set t' =
      (if unat s < length (rt_received t) then insert (unat s) (received_set t)
       else received_set t) \<and>
    fresh = (unat s < length (rt_received t) \<and> \<not> has_received t s) \<and>
    unat (rt_received_count t') = card (received_set t') \<and>
    unat (rt_cumulative_ack t') = first_gap (received_set t') \<and>
    unat (rt_largest_received_plus_one t') = upper_end (received_set t') \<and>
    complete t' = (received_set t' = {..<length (rt_received t')})"
proof -
  have t': "t' = snd (mark_received t s)" and f: "fresh = fst (mark_received t s)"
    using assms(2) by simp_all
  have inv': "tracker_inv t'" using rt.inv_mark [OF assms(1)] t' by simp
  note rt.unat_count [OF inv'] rt.unat_cum [OF inv'] unat_largest [OF inv'] rt.full_iff [OF inv']
  moreover note rt.total_mark [OF assms(1), of s, folded t'] rt.rset_mark [OF assms(1), of s, folded t']
  moreover note rt.fst_mark [OF assms(1), of s, folded f] rt.has_iff [OF assms(1), of s]
  ultimately show ?thesis using inv' by blast
qed

theorem mark_received_refines_insert_witness:
  "received_set (snd (mark_received (make_tracker 4) 2)) = {2} \<and>
   rt_received_count (snd (mark_received (make_tracker 4) 2)) = 1"
  using mark_received_refines_insert [OF rt.inv_mk, of 4 2 "fst (mark_received (make_tracker 4) 2)"
      "snd (mark_received (make_tracker 4) 2)"]
  by (simp add: rt.total_mk rt.rset_mk word_unat_eq_iff)

text \<open>C25: Arrival order, duplicates and out-of-range numbers do not matter: two runs of arrivals
  with the same set of chunk numbers leave a fresh tracker in the same state, field for field.\<close>

theorem arrival_order_irrelevant:
  assumes "set ss = set ss'"
  shows "fold (\<lambda>s t. snd (mark_received t s)) ss (make_tracker n) =
    fold (\<lambda>s t. snd (mark_received t s)) ss' (make_tracker n)"
  by (rule rt.marks_order_irrelevant [OF rt.inv_mk assms])

theorem arrival_order_irrelevant_witness:
  "fold (\<lambda>s t. snd (mark_received t s)) [3, 1, 3, 0] (make_tracker 8) =
   fold (\<lambda>s t. snd (mark_received t s)) [0, 1, 3] (make_tracker 8)"
  by (rule arrival_order_irrelevant) auto

text \<open>A SACK snapshot tells exactly what has been received: its cumulative ACK and its bitmap
  base are the first missing chunk, its bitmap has the size \<^verbatim>\<open>serialize_ack\<close> asks for (so encoding
  it never throws), and bit \<open>j\<close> is set if and only if \<open>j\<close> is below the bit count and chunk
  \<open>base + j\<close> has been received.\<close>

lemma snapshot_reports_received:
  assumes "tracker_inv t"
  shows "unat (ak_cumulative_ack (make_ack_snapshot t bits)) = first_gap (received_set t) \<and>
    ak_bitmap_base (make_ack_snapshot t bits) = ak_cumulative_ack (make_ack_snapshot t bits) \<and>
    (\<exists>bs. serialize_ack (make_ack_snapshot t bits) = Inr bs) \<and>
    (\<forall>j < 8 * bitmap_bytes bits.
      test_ack_bit (ak_bitmap (make_ack_snapshot t bits)) j =
        (j < unat bits \<and> first_gap (received_set t) + j \<in> received_set t))"
  using snapshot_bitmap [OF assms, where bits = bits] rt.unat_cum [OF assms]
  by (simp add: serialize_ack_layout)

end
