(* ===== verification/Server.thy ===== *)
theory Server
  imports Socket_Io Receiver_Tracker Options
begin

unbundle bit_operations_syntax

text \<open>
  \<^verbatim>\<open>src/server.cpp\<close>: the START handshake, the main loop that stores DATA packets and answers with
  ACKs, the COMPLETE handshake and the time-wait phase.  The local variables of \<^verbatim>\<open>run_server\<close> are split
  in two records: \<open>session\<close>, fixed once a START is accepted, and \<open>server_state\<close>, which the main loop
  changes.  \<open>sv_output\<close> is the mapped output file.
\<close>

section \<open>State\<close>

definition kAckPacketThreshold :: u32 where
  "kAckPacketThreshold = 32"

record session =
  ss_client :: endpoint
  ss_session_id :: u32
  ss_start :: start_payload
  ss_accepted :: start_ack_payload

record server_state =
  sv_tracker :: receiver_tracker
  sv_output :: bytes
  sv_ack_pending :: bool
  sv_packets_since_ack :: u32
  sv_next_ack_time :: time_ns
  sv_ack_number :: u32
  sv_duplicate_packets :: u64
  sv_received_first_data :: bool
  sv_first_data_time :: time_ns
  sv_last_data_time :: time_ns

text \<open>How an iteration of the main loop ends.\<close>

datatype server_signal = Continue server_state | Completed server_state bytes

section \<open>Receiving and sending\<close>

text \<open>\<^verbatim>\<open>receive_packet\<close>: wait for a datagram that parses; the loop retries interrupted calls and drops
  malformed datagrams.\<close>

function receive_packet :: "(endpoint \<times> packet_view) io" where
  "receive_packet w =
     (case recvfrom kReceiveBufferBytes w of
        (Returned Recv_interrupted, w') \<Rightarrow> receive_packet w'
      | (Returned (Datagram source buffer), w') \<Rightarrow>
          (case deserialize_packet_view (Some buffer) (length buffer) of
             Inl _ \<Rightarrow> receive_packet w'
           | Inr packet \<Rightarrow> (Returned (source, packet), w'))
      | (Returned _, w') \<Rightarrow> throw_errno ''recvfrom failed: '' w'
      | (Thrown e, w') \<Rightarrow> (Thrown e, w')
      | (Blocked, w') \<Rightarrow> (Blocked, w'))"
  by pat_completeness auto
termination
  by (relation "measure (\<lambda>w. length (wd_recvs w))")
    (auto simp: recvfrom_def split: list.splits recv_result.splits)

declare receive_packet.simps [simp del]

definition send_start_ack :: "endpoint \<Rightarrow> u32 \<Rightarrow> start_ack_payload \<Rightarrow> unit io" where
  "send_start_ack client sid response =
     (let payload = serialize_start_ack response
      in send_packet client (make_header START_ACK sid 0) (Some payload) (length payload))"

definition send_ack :: "endpoint \<Rightarrow> u32 \<Rightarrow> u32 \<Rightarrow> receiver_tracker \<Rightarrow> u16 \<Rightarrow> unit io" where
  "send_ack client sid ack_number tracker bitmap_bits =
     io_bind (io_sum (serialize_ack (make_ack_snapshot tracker bitmap_bits)))
       (\<lambda>payload. send_packet client ((make_header ACK sid ack_number)\<lparr>flags := FLAG_SACK\<rparr>)
          (Some payload) (length payload))"

section \<open>The START handshake\<close>

text \<open>The \<^verbatim>\<open>valid\<close> conjunction: it stops at the first false conjunct and may throw.\<close>

definition valid_start :: "u32 \<Rightarrow> start_payload \<Rightarrow> frft_error + bool" where
  "valid_start mtu start =
     (case chunk_size_for_mtu mtu of
        Inl e \<Rightarrow> Inl e
      | Inr size_for_mtu \<Rightarrow>
          if sp_chunk_size start \<noteq> size_for_mtu then Inr False
          else
            case chunk_count (sp_file_size start) (sp_chunk_size start) of
              Inl e \<Rightarrow> Inl e
            | Inr count \<Rightarrow>
                Inr (sp_total_chunks start = count \<and> sp_window_chunks start > 0 \<and>
                     sp_ack_bitmap_bits start = kDefaultAckBitmapBits))"

definition rejection :: "status_code \<Rightarrow> start_ack_payload" where
  "rejection code =
     \<lparr>sa_status = code, sa_accepted_window_chunks = 0, sa_accepted_bitmap_bits = 0,
      sa_accepted_ack_interval_ms = 0\<rparr>"

text \<open>The test of the received packet before validation.\<close>

definition start_of :: "packet_view \<Rightarrow> start_payload option" where
  "start_of packet =
     (let header = view_header packet
      in if ptype header \<noteq> START \<or> session_id header = 0 \<or> number header \<noteq> 0 then None
         else deserialize_start (view_payload packet) (view_payload_size packet))"

lemma receive_packet_consumes:
  "receive_packet w = (r, w') \<Longrightarrow> length (wd_recvs w') \<le> length (wd_recvs w) \<and>
     (\<forall>x. r = Returned x \<longrightarrow> length (wd_recvs w') < length (wd_recvs w))"
proof (induction "length (wd_recvs w)" arbitrary: w r w' rule: less_induct)
  case less
  show ?case
  proof (cases "wd_recvs w")
    case Nil
    then show ?thesis using less(2) by (subst (asm) receive_packet.simps) (auto simp: recvfrom_def)
  next
    case (Cons x xs)
    let ?w = "w\<lparr>wd_recvs := xs\<rparr>"
    have rf: "recvfrom kReceiveBufferBytes w = (Returned (case x of
        Datagram src bs \<Rightarrow> Datagram src (take kReceiveBufferBytes bs) | _ \<Rightarrow> x), ?w)"
      by (simp add: recvfrom_def Cons)
    have again: ?thesis if "receive_packet ?w = (r, w')"
      using less(1) [OF _ that] Cons by force
    show ?thesis
    proof (cases x)
      case (Datagram src bs)
      let ?bs = "take kReceiveBufferBytes bs"
      show ?thesis
      proof (cases "deserialize_packet_view (Some ?bs) (length ?bs)")
        case (Inl e)
        with less(2) show ?thesis
          by (intro again, subst (asm) receive_packet.simps) (simp add: rf Datagram del: length_take)
      next
        case (Inr b)
        with less(2) show ?thesis
          by (subst (asm) receive_packet.simps) (auto simp: rf Datagram Cons simp del: length_take)
      qed
    next
      case Recv_interrupted
      with less(2) show ?thesis
        by (intro again, subst (asm) receive_packet.simps) (simp add: rf)
    qed (use less(2) in \<open>subst (asm) receive_packet.simps, auto simp: rf Cons throw_errno_def\<close>)+
  qed
qed

lemma receive_packet_less:
  "(Returned x, w') = receive_packet w \<Longrightarrow> length (wd_recvs w') < length (wd_recvs w)"
  using receive_packet_consumes [of w "Returned x" w'] by simp

lemma recvs_send_packet: "recvs.keeps (send_packet dest header payload n)"
  by (intro recvs.keeps_send_packet recvs_keeps)

lemma recvs_server_sends:
  "recvs.keeps (send_start_ack client sid response)"
  "recvs.keeps (send_ack client sid k tracker bits)"
  unfolding send_start_ack_def send_ack_def Let_def
  by (intro recvs.keeps_intros recvs_send_packet)+

text \<open>The first loop of \<^verbatim>\<open>run_server\<close>.\<close>

function await_start :: "u32 \<Rightarrow> (endpoint \<times> u32 \<times> start_payload) io" where
  "await_start mtu w =
     (case receive_packet w of
        (Returned (client, packet), w1) \<Rightarrow>
          (case start_of packet of
             None \<Rightarrow> await_start mtu w1
           | Some start \<Rightarrow>
               (case valid_start mtu start of
                  Inl e \<Rightarrow> (Thrown e, w1)
                | Inr valid \<Rightarrow>
                    if valid
                    then (Returned (client, session_id (view_header packet), start), w1)
                    else
                      (case send_start_ack client (session_id (view_header packet))
                              (rejection INVALID_REQUEST) w1 of
                         (Returned _, w2) \<Rightarrow> await_start mtu w2
                       | (Thrown e, w2) \<Rightarrow> (Thrown e, w2)
                       | (Blocked, w2) \<Rightarrow> (Blocked, w2))))
      | (Thrown e, w1) \<Rightarrow> (Thrown e, w1)
      | (Blocked, w1) \<Rightarrow> (Blocked, w1))"
  by pat_completeness auto
termination
  by (relation "measure (\<lambda>(mtu, w). length (wd_recvs w))")
    (auto dest!: receive_packet_less recvs.keepsD [OF recvs_server_sends(1) sym])

declare await_start.simps [simp del]

definition acceptance :: "start_payload \<Rightarrow> start_ack_payload" where
  "acceptance start =
     \<lparr>sa_status = OK,
      sa_accepted_window_chunks = min (sp_window_chunks start) (ucast kDefaultAckBitmapBits),
      sa_accepted_bitmap_bits = kDefaultAckBitmapBits,
      sa_accepted_ack_interval_ms = sp_ack_interval_ms start\<rparr>"

definition ack_interval :: "session \<Rightarrow> time_ns" where
  "ack_interval sess = ms (uint (max 1 (sa_accepted_ack_interval_ms (ss_accepted sess))))"

text \<open>The initial values of the local variables; the file has just been created and is all zero.\<close>

definition init_server_state :: "session \<Rightarrow> time_ns \<Rightarrow> server_state" where
  "init_server_state sess now =
     \<lparr>sv_tracker = make_tracker (sp_total_chunks (ss_start sess)),
      sv_output = replicate (unat (sp_file_size (ss_start sess))) 0,
      sv_ack_pending = False, sv_packets_since_ack = 0,
      sv_next_ack_time = now + ack_interval sess, sv_ack_number = 0,
      sv_duplicate_packets = 0, sv_received_first_data = False,
      sv_first_data_time = 0, sv_last_data_time = 0\<rparr>"

section \<open>One iteration of the main loop\<close>

definition answer_start :: "session \<Rightarrow> endpoint \<Rightarrow> packet_view \<Rightarrow> unit io" where
  "answer_start sess source packet =
     (if same_endpoint source (ss_client sess) \<and>
         session_id (view_header packet) = ss_session_id sess
      then send_start_ack (ss_client sess) (ss_session_id sess) (ss_accepted sess)
      else send_start_ack source (session_id (view_header packet)) (rejection BUSY))"

text \<open>The branch for a chunk that is not a duplicate.\<close>

definition store_chunk ::
    "session \<Rightarrow> u32 \<Rightarrow> packet_view \<Rightarrow> time_ns \<Rightarrow> server_state \<Rightarrow> server_state" where
  "store_chunk sess s packet now st =
     (let start = ss_start sess;
          offset = chunk_offset s (sp_chunk_size start);
          expected_size = chunk_length (sp_file_size start) (sp_chunk_size start) s;
          st1 = (if expected_size \<noteq> 0
                 then st\<lparr>sv_output := memcpy_at (sv_output st) (unat offset)
                            (take expected_size (the (view_payload packet)))\<rparr>
                 else st);
          st2 = st1\<lparr>sv_tracker := snd (mark_received (sv_tracker st1) s)\<rparr>;
          st3 = (if \<not> sv_received_first_data st2
                 then st2\<lparr>sv_first_data_time := now, sv_received_first_data := True\<rparr> else st2)
      in st3\<lparr>sv_last_data_time := now\<rparr>)"

definition start_ack_timer :: "session \<Rightarrow> time_ns \<Rightarrow> server_state \<Rightarrow> server_state" where
  "start_ack_timer sess now st =
     (if \<not> sv_ack_pending st
      then st\<lparr>sv_ack_pending := True, sv_next_ack_time := now + ack_interval sess\<rparr> else st)"

definition should_send_ack :: "bool \<Rightarrow> packet_view \<Rightarrow> time_ns \<Rightarrow> server_state \<Rightarrow> bool" where
  "should_send_ack duplicate packet now st \<longleftrightarrow>
     duplicate \<or>
     flags (view_header packet) AND FLAG_RETRANSMITTED \<noteq> 0 \<or>
     complete (sv_tracker st) \<or>
     sv_packets_since_ack st \<ge> kAckPacketThreshold \<or>
     now \<ge> sv_next_ack_time st"

definition send_state_ack :: "session \<Rightarrow> server_state \<Rightarrow> unit io" where
  "send_state_ack sess st =
     send_ack (ss_client sess) (ss_session_id sess) (sv_ack_number st) (sv_tracker st)
       (sa_accepted_bitmap_bits (ss_accepted sess))"

definition handle_data :: "session \<Rightarrow> packet_view \<Rightarrow> server_state \<Rightarrow> server_state io" where
  "handle_data sess packet st =
     (let s = number (view_header packet);
          start = ss_start sess
      in if s \<ge> sp_total_chunks start then io_return st
      else if view_payload_size packet \<noteq>
              chunk_length (sp_file_size start) (sp_chunk_size start) s then io_return st
      else
        let duplicate = has_received (sv_tracker st) s
        in io_bind
          (if duplicate
           then io_return (st\<lparr>sv_duplicate_packets := sv_duplicate_packets st + 1\<rparr>)
           else io_bind clock_now (\<lambda>now. io_return (store_chunk sess s packet now st)))
          (\<lambda>st1.
             let st2 = st1\<lparr>sv_packets_since_ack := sv_packets_since_ack st1 + 1\<rparr>
             in io_bind clock_now (\<lambda>now.
               let st3 = start_ack_timer sess now st2
               in if should_send_ack duplicate packet now st3
               then io_bind (send_state_ack sess st3) (\<lambda>_. io_return
                 (st3\<lparr>sv_ack_number := sv_ack_number st3 + 1, sv_ack_pending := False,
                      sv_packets_since_ack := 0\<rparr>))
               else io_return st3)))"

text \<open>\<^verbatim>\<open>duration_cast<microseconds>\<close> truncates towards zero.\<close>

definition to_microseconds :: "time_ns \<Rightarrow> int" where
  "to_microseconds d = (if d < 0 then - ((- d) div 1000) else d div 1000)"

definition completion_payload :: "session \<Rightarrow> server_state \<Rightarrow> complete_ack_payload" where
  "completion_payload sess st =
     \<lparr>ca_status = OK, ca_received_chunks = rt_received_count (sv_tracker st),
      ca_received_bytes = sp_file_size (ss_start sess),
      ca_receiver_transfer_time_us =
        (if sv_received_first_data st
         then of_int (to_microseconds (sv_last_data_time st - sv_first_data_time st)) else 0)\<rparr>"

text \<open>\<^verbatim>\<open>output->sync()\<close>, with the contents of the mapping.\<close>

definition sync_file :: "file_kernel \<Rightarrow> mapped_file \<Rightarrow> bytes \<Rightarrow> unit io" where
  "sync_file k f contents =
     (let (r, calls) = sync_output k f
      in io_bind (log_files calls) (\<lambda>_. io_bind (io_sum r) (\<lambda>_. log_flushed contents)))"

definition handle_complete ::
    "file_kernel \<Rightarrow> mapped_file \<Rightarrow> session \<Rightarrow> packet_view \<Rightarrow> server_state \<Rightarrow> server_signal io" where
  "handle_complete k f sess packet st =
     (let total_chunks = sp_total_chunks (ss_start sess)
      in if number (view_header packet) \<noteq> total_chunks \<or> view_payload_size packet \<noteq> 0
      then io_return (Continue st)
      else if \<not> complete (sv_tracker st) \<or> rt_cumulative_ack (sv_tracker st) \<noteq> total_chunks
      then io_bind (send_state_ack sess st)
        (\<lambda>_. io_return (Continue (st\<lparr>sv_ack_number := sv_ack_number st + 1\<rparr>)))
      else
        let complete_payload = serialize_complete_ack (completion_payload sess st)
        in io_bind (sync_file k f (sv_output st)) (\<lambda>_.
           io_bind (send_packet (ss_client sess)
               (make_header COMPLETE_ACK (ss_session_id sess) total_chunks)
               (Some complete_payload) (length complete_payload)) (\<lambda>_.
           io_return (Completed st complete_payload))))"

definition handle_packet ::
    "file_kernel \<Rightarrow> mapped_file \<Rightarrow> session \<Rightarrow> endpoint \<Rightarrow> packet_view \<Rightarrow> server_state \<Rightarrow>
      server_signal io" where
  "handle_packet k f sess source packet st =
     (let header = view_header packet
      in if ptype header = START
      then io_bind (answer_start sess source packet) (\<lambda>_. io_return (Continue st))
      else if \<not> same_endpoint source (ss_client sess) \<or> session_id header \<noteq> ss_session_id sess
      then io_return (Continue st)
      else if ptype header = DATA
      then io_bind (handle_data sess packet st) (\<lambda>st'. io_return (Continue st'))
      else if ptype header \<noteq> COMPLETE then io_return (Continue st)
      else handle_complete k f sess packet st)"

lemma recvs_handle_packet: "recvs.keeps (handle_packet k f sess source packet st)"
  unfolding handle_packet_def handle_complete_def handle_data_def answer_start_def sync_file_def
    send_state_ack_def Let_def case_prod_beta
  by (intro recvs.keeps_intros recvs_server_sends recvs_keeps recvs_send_packet)

section \<open>The main loop\<close>

function serve_loop ::
    "file_kernel \<Rightarrow> mapped_file \<Rightarrow> session \<Rightarrow> server_state \<Rightarrow> (server_state \<times> bytes) io" where
  "serve_loop k f sess st w =
     (case receive_packet w of
        (Returned (source, packet), w1) \<Rightarrow>
          (case handle_packet k f sess source packet st w1 of
             (Returned (Continue st'), w2) \<Rightarrow> serve_loop k f sess st' w2
           | (Returned (Completed st' payload), w2) \<Rightarrow> (Returned (st', payload), w2)
           | (Thrown e, w2) \<Rightarrow> (Thrown e, w2)
           | (Blocked, w2) \<Rightarrow> (Blocked, w2))
      | (Thrown e, w1) \<Rightarrow> (Thrown e, w1)
      | (Blocked, w1) \<Rightarrow> (Blocked, w1))"
  by pat_completeness auto
termination
  by (relation "measure (\<lambda>(k, f, sess, st, w). length (wd_recvs w))")
    (auto dest!: receive_packet_less recvs.keepsD [OF recvs_handle_packet sym])

declare serve_loop.simps [simp del]

section \<open>Time wait\<close>

definition kTimeWait :: time_ns where
  "kTimeWait = ms 3000"

text \<open>The datagrams that are answered again.\<close>

definition repeats_complete :: "endpoint \<Rightarrow> u32 \<Rightarrow> u32 \<Rightarrow> endpoint \<Rightarrow> bytes \<Rightarrow> bool" where
  "repeats_complete client sid total_chunks source buffer \<longleftrightarrow>
     same_endpoint source client \<and>
     (case deserialize_packet_view (Some buffer) (length buffer) of
        Inl _ \<Rightarrow> False
      | Inr packet \<Rightarrow>
          session_id (view_header packet) = sid \<and> ptype (view_header packet) = COMPLETE \<and>
          number (view_header packet) = total_chunks \<and> view_payload_size packet = 0)"

text \<open>One round of the loop: the deadline to go on with, or \<open>None\<close> to return.\<close>

definition time_wait_round ::
    "endpoint \<Rightarrow> u32 \<Rightarrow> u32 \<Rightarrow> bytes \<Rightarrow> time_ns \<Rightarrow> time_ns option io" where
  "time_wait_round client sid total_chunks complete_ack_payload deadline =
     io_bind clock_now (\<lambda>now.
       if \<not> now < deadline then io_return None
       else io_bind clock_now (\<lambda>now'.
         io_bind (poll_socket (max 1 ((deadline - now') div ms 1))) (\<lambda>ready.
         case ready of
           Poll_ready \<Rightarrow>
             io_bind (recvfrom kReceiveBufferBytes) (\<lambda>received.
             case received of
               Datagram source buffer \<Rightarrow>
                 if repeats_complete client sid total_chunks source buffer
                 then io_bind (send_packet client (make_header COMPLETE_ACK sid total_chunks)
                        (Some complete_ack_payload) (length complete_ack_payload)) (\<lambda>_.
                      io_bind clock_now (\<lambda>now''. io_return (Some (now'' + kTimeWait))))
                 else io_return (Some deadline)
             | Recv_interrupted \<Rightarrow> io_return (Some deadline)
             | Recv_would_block \<Rightarrow> throw_errno ''recvfrom failed: ''
             | Recv_failed \<Rightarrow> throw_errno ''recvfrom failed: '')
         | Poll_timeout \<Rightarrow> io_return None
         | Poll_interrupted \<Rightarrow> io_return (Some deadline)
         | Poll_failed \<Rightarrow> throw_errno ''poll failed: '')))"

lemma clock_send_packet: "clock_le.keeps (send_packet dest header payload n)"
  by (intro clock_le.keeps_send_packet clock_keeps)

lemma time_wait_round_consumes:
  assumes "(Returned d, w') = time_wait_round client sid n p deadline w"
  shows "length (wd_clock w') < length (wd_clock w)"
proof -
  obtain t w1 where now: "clock_now w = (Returned t, w1)"
    using assms by (auto simp: time_wait_round_def io_bind_def split: prod.splits outcome.splits)
  have "clock_le.keeps (if \<not> t < deadline then io_return None
       else io_bind clock_now (\<lambda>now'.
         io_bind (poll_socket (max 1 ((deadline - now') div ms 1))) (\<lambda>ready.
         case ready of
           Poll_ready \<Rightarrow>
             io_bind (recvfrom kReceiveBufferBytes) (\<lambda>received.
             case received of
               Datagram source buffer \<Rightarrow>
                 if repeats_complete client sid n source buffer
                 then io_bind (send_packet client (make_header COMPLETE_ACK sid n)
                        (Some p) (length p)) (\<lambda>_.
                      io_bind clock_now (\<lambda>now''. io_return (Some (now'' + kTimeWait))))
                 else io_return (Some deadline)
             | Recv_interrupted \<Rightarrow> io_return (Some deadline)
             | Recv_would_block \<Rightarrow> throw_errno ''recvfrom failed: ''
             | Recv_failed \<Rightarrow> throw_errno ''recvfrom failed: '')
         | Poll_timeout \<Rightarrow> io_return None
         | Poll_interrupted \<Rightarrow> io_return (Some deadline)
         | Poll_failed \<Rightarrow> throw_errno ''poll failed: '')))" (is "clock_le.keeps ?rest")
    by (intro clock_le.keeps_intros clock_keeps clock_send_packet)
  moreover have "?rest w1 = (Returned d, w')"
    using assms now by (simp add: time_wait_round_def io_bind_def)
  ultimately have "length (wd_clock w') \<le> length (wd_clock w1)" by (rule clock_le.keepsD)
  then show ?thesis using clock_now_consumes [OF now] by simp
qed

function time_wait_loop :: "endpoint \<Rightarrow> u32 \<Rightarrow> u32 \<Rightarrow> bytes \<Rightarrow> time_ns \<Rightarrow> unit io" where
  "time_wait_loop client sid total_chunks payload deadline w =
     (case time_wait_round client sid total_chunks payload deadline w of
        (Returned None, w') \<Rightarrow> (Returned (), w')
      | (Returned (Some deadline'), w') \<Rightarrow>
          time_wait_loop client sid total_chunks payload deadline' w'
      | (Thrown e, w') \<Rightarrow> (Thrown e, w')
      | (Blocked, w') \<Rightarrow> (Blocked, w'))"
  by pat_completeness auto
termination
  by (relation "measure (\<lambda>(client, sid, total_chunks, payload, deadline, w). length (wd_clock w))")
    (auto dest!: time_wait_round_consumes)

declare time_wait_loop.simps [simp del]

definition time_wait :: "endpoint \<Rightarrow> u32 \<Rightarrow> u32 \<Rightarrow> bytes \<Rightarrow> unit io" where
  "time_wait client sid total_chunks complete_ack_payload =
     io_bind clock_now (\<lambda>now.
       time_wait_loop client sid total_chunks complete_ack_payload (now + kTimeWait))"

section \<open>run_server\<close>

text \<open>The final report.\<close>

definition server_report :: "session \<Rightarrow> server_state \<Rightarrow> shown list list" where
  "server_report sess st =
     (let receiver_time_us = ca_receiver_transfer_time_us (completion_payload sess st);
          file_size = sp_file_size (ss_start sess)
      in [[Text ''Transfer complete''],
          whole_line ''  session: '' (uint (ss_session_id sess)),
          whole_line ''  file bytes: '' (uint file_size),
          whole_line ''  unique chunks: '' (uint (rt_received_count (sv_tracker st))),
          whole_line ''  duplicate DATA packets: '' (uint (sv_duplicate_packets st)),
          whole_line ''  receiver data time us: '' (uint receiver_time_us),
          floating_line ''  receiver throughput Mbps: ''
            (throughput_mbps file_size (of_nat (unat receiver_time_us) / 1000000))])"

text \<open>After the COMPLETE_ACK: the report, the time wait and the closing of the socket.\<close>

definition conclude_transfer :: "int \<Rightarrow> session \<Rightarrow> server_state \<Rightarrow> bytes \<Rightarrow> unit io" where
  "conclude_transfer socket_fd sess st complete_payload =
     io_bind (print_lines Cout (server_report sess st)) (\<lambda>_.
     io_bind (time_wait (ss_client sess) (ss_session_id sess) (sp_total_chunks (ss_start sess))
                complete_payload) (\<lambda>_.
     close_socket socket_fd))"

text \<open>
  From the first datagram to the end: \<open>path\<close> is the output option, \<open>socket_fd\<close> is closed at the end;
  the output object is destroyed when its scope is left.
\<close>

definition serve_transfer ::
    "file_kernel \<Rightarrow> mapped_file \<Rightarrow> int \<Rightarrow> session \<Rightarrow> unit io" where
  "serve_transfer k f socket_fd sess =
     io_bind (send_start_ack (ss_client sess) (ss_session_id sess) (ss_accepted sess)) (\<lambda>_.
     io_bind clock_now (\<lambda>now.
     io_bind (serve_loop k f sess (init_server_state sess now)) (\<lambda>(st, complete_payload).
     conclude_transfer socket_fd sess st complete_payload)))"

definition serve_client :: "file_kernel \<Rightarrow> string \<Rightarrow> u32 \<Rightarrow> int \<Rightarrow> unit io" where
  "serve_client k path mtu socket_fd =
     io_bind (await_start mtu) (\<lambda>(client, sid, start).
       let (output, calls) = open_output k path (sp_file_size start)
       in io_bind (log_files calls) (\<lambda>_.
         case output of
           Inl e \<Rightarrow>
             io_bind (send_start_ack client sid (rejection IO_ERROR)) (\<lambda>_. io_throw e)
         | Inr f \<Rightarrow>
             io_finally
               (serve_transfer k f socket_fd
                 \<lparr>ss_client = client, ss_session_id = sid, ss_start = start,
                  ss_accepted = acceptance start\<rparr>)
               (log_files (close_output f))))"

definition waiting_line :: "server_options \<Rightarrow> shown list" where
  "waiting_line options = whole_line ''Waiting for one client on UDP port '' (uint (so_port options))"

text \<open>The results of \<^verbatim>\<open>socket\<close>, of \<^verbatim>\<open>setsockopt(SO_RCVBUF)\<close> and of \<^verbatim>\<open>bind\<close> are parameters.\<close>

definition run_server ::
    "int \<Rightarrow> int \<Rightarrow> int \<Rightarrow> file_kernel \<Rightarrow> server_options \<Rightarrow> unit io" where
  "run_server socket_fd rcvbuf_rc bind_rc k options =
     (if socket_fd < 0 then throw_errno ''socket failed: ''
      else io_on_throw
        (if rcvbuf_rc \<noteq> 0 then throw_errno ''cannot increase UDP receive buffer: ''
         else if bind_rc \<noteq> 0 then throw_errno ''bind failed: ''
         else io_bind (print_lines Cout [waiting_line options]) (\<lambda>_.
           serve_client k (so_output options) (so_mtu options) socket_fd))
        (close_socket socket_fd))"

end
