(* ===== verification/Server_Invariant.thy ===== *)
theory Server_Invariant
  imports Server Io_Rules
begin

unbundle bit_operations_syntax

text \<open>
  What the server does with each datagram: its invariant, what it stores, when it acknowledges, when
  it completes, and what it releases.
\<close>

section \<open>What the loops keep\<close>

text \<open>A loop keeps whatever one round of it keeps.\<close>

context world_frame
begin

lemma keeps_receive_packet:
  assumes "keeps (recvfrom kReceiveBufferBytes)"
  shows "keeps receive_packet"
proof (rule keepsI)
  fix w show "ok w (snd (receive_packet w))"
  proof (induction w rule: receive_packet.induct)
    case (1 w)
    obtain r w' where rf: "recvfrom kReceiveBufferBytes w = (r, w')" by fastforce
    then have "ok w w'" by (rule keepsD [OF assms])
    with 1 rf show ?case
      by (subst receive_packet.simps)
        (auto simp: throw_errno_def split: outcome.splits recv_result.splits sum.splits
          intro: ok_trans)
  qed
qed

lemma keeps_await_start:
  assumes "keeps receive_packet"
    and "\<And>client sid. keeps (send_start_ack client sid (rejection INVALID_REQUEST))"
  shows "keeps (await_start mtu)"
proof (rule keepsI)
  fix w show "ok w (snd (await_start mtu w))"
  proof (induction mtu w rule: await_start.induct)
    case (1 mtu w)
    obtain r w1 where recv: "receive_packet w = (r, w1)" by fastforce
    then have *: "ok w w1" by (rule keepsD [OF assms(1)])
    show ?case
    proof (cases r)
      case (Returned x)
      obtain client packet where x: "x = (client, packet)" by fastforce
      obtain s w2 where send: "send_start_ack client (session_id (view_header packet))
          (rejection INVALID_REQUEST) w1 = (s, w2)" by fastforce
      then have "ok w w2" using ok_trans [OF * keepsD [OF assms(2)]] by blast
      with 1 * recv send show ?thesis
        by (subst await_start.simps)
          (auto simp: Returned x split: outcome.splits option.splits sum.splits intro: ok_trans)
    qed (use * recv in \<open>auto simp: await_start.simps [of mtu w]\<close>)
  qed
qed

lemma keeps_serve_loop:
  assumes "keeps receive_packet"
    and "\<And>source packet st. keeps (handle_packet k f sess source packet st)"
  shows "keeps (serve_loop k f sess st)"
proof (rule keepsI)
  fix w
  have "(\<And>source packet st. keeps (handle_packet k f sess source packet st)) \<Longrightarrow>
    ok w (snd (serve_loop k f sess st w))"
  proof (induction k f sess st w rule: serve_loop.induct)
    case (1 k f sess st w)
    obtain r w1 where recv: "receive_packet w = (r, w1)" by fastforce
    then have *: "ok w w1" by (rule keepsD [OF assms(1)])
    show ?case
    proof (cases r)
      case (Returned x)
      obtain source packet where x: "x = (source, packet)" by fastforce
      obtain s w2 where handle: "handle_packet k f sess source packet st w1 = (s, w2)" by fastforce
      then have "ok w w2" using ok_trans [OF * keepsD [OF 1(2)]] by blast
      with 1 recv handle show ?thesis
        by (subst serve_loop.simps)
          (auto simp: Returned x split: outcome.splits server_signal.splits intro: ok_trans)
    qed (use * recv in \<open>auto simp: serve_loop.simps [of k f sess st w]\<close>)
  qed
  then show "ok w (snd (serve_loop k f sess st w))" using assms(2) by blast
qed

lemma keeps_time_wait:
  assumes "keeps clock_now"
    and "\<And>deadline. keeps (time_wait_round client sid n payload deadline)"
  shows "keeps (time_wait client sid n payload)"
proof -
  have "(\<And>deadline. keeps (time_wait_round client sid n payload deadline)) \<Longrightarrow>
    ok w (snd (time_wait_loop client sid n payload deadline w))" for deadline w
  proof (induction client sid n payload deadline w rule: time_wait_loop.induct)
    case (1 client sid n payload deadline w)
    obtain r w' where r: "time_wait_round client sid n payload deadline w = (r, w')" by fastforce
    from keepsD [OF 1(2) r] 1 r show ?case
      by (subst time_wait_loop.simps) (auto split: outcome.splits option.splits intro: ok_trans)
  qed
  then have "keeps (time_wait_loop client sid n payload deadline)" for deadline
    using assms(2) by (intro keepsI) blast
  then show ?thesis unfolding time_wait_def by (intro keeps_bind assms(1))
qed

end

section \<open>Sending an ACK\<close>

text \<open>The datagram of \<^verbatim>\<open>send_ack\<close> for a tracker.\<close>

definition is_ack_datagram :: "u32 \<Rightarrow> receiver_tracker \<Rightarrow> u16 \<Rightarrow> bytes \<Rightarrow> bool" where
  "is_ack_datagram sid tracker bits d \<longleftrightarrow>
     (\<exists>k payload. serialize_ack (make_ack_snapshot tracker bits) = Inr payload \<and>
        serialize_packet ((make_header ACK sid k)\<lparr>flags := FLAG_SACK\<rparr>)
          (Some payload) (length payload) = Inr d)"

lemma send_ack_returned:
  assumes "send_ack client sid k tracker bits w = (Returned u, w')"
  shows "\<exists>d. is_ack_datagram sid tracker bits d \<and> wd_sent w' = wd_sent w @ [(client, d)]"
  using assms send_packet_returned(1)
  unfolding send_ack_def io_bind_returned io_sum_returned is_ack_datagram_def by blast

section \<open>Invariant\<close>

definition session_ok :: "session \<Rightarrow> bool" where
  "session_ok sess \<longleftrightarrow>
     chunk_count (sp_file_size (ss_start sess)) (sp_chunk_size (ss_start sess)) =
       Inr (sp_total_chunks (ss_start sess)) \<and>
     ss_accepted sess = acceptance (ss_start sess)"

definition server_inv :: "session \<Rightarrow> server_state \<Rightarrow> bool" where
  "server_inv sess st \<longleftrightarrow>
     tracker_inv (sv_tracker st) \<and>
     length (rt_received (sv_tracker st)) = unat (sp_total_chunks (ss_start sess)) \<and>
     length (sv_output st) = unat (sp_file_size (ss_start sess)) \<and>
     sv_packets_since_ack st < kAckPacketThreshold"

text \<open>What the parser guarantees of a view: its payload has the size it states.\<close>

definition view_ok :: "packet_view \<Rightarrow> bool" where
  "view_ok packet \<longleftrightarrow>
     (\<exists>bs. view_payload packet = Some bs \<and> length bs = view_payload_size packet)"

lemma deserialize_view_ok:
  "deserialize_packet_view (Some d) (length d) = Inr v \<Longrightarrow> view_ok v"
  by (auto simp: deserialize_packet_view_iff view_ok_def)

text \<open>A DATA packet the server stores or counts as a duplicate.\<close>

definition acceptable :: "session \<Rightarrow> packet_view \<Rightarrow> bool" where
  "acceptable sess packet \<longleftrightarrow>
     (let s = number (view_header packet); start = ss_start sess
      in s < sp_total_chunks start \<and>
         view_payload_size packet = chunk_length (sp_file_size start) (sp_chunk_size start) s)"

definition after_arrival :: "session \<Rightarrow> packet_view \<Rightarrow> time_ns \<Rightarrow> server_state \<Rightarrow> server_state" where
  "after_arrival sess packet now st =
     (let s = number (view_header packet)
      in (if has_received (sv_tracker st) s
          then st\<lparr>sv_duplicate_packets := sv_duplicate_packets st + 1\<rparr>
          else store_chunk sess s packet now st))"

text \<open>What follows the arrival: the counter, the timer and the acknowledgement.\<close>

definition ack_step :: "session \<Rightarrow> packet_view \<Rightarrow> bool \<Rightarrow> server_state \<Rightarrow> server_state io" where
  "ack_step sess packet duplicate st1 =
     io_bind clock_now (\<lambda>now.
       let st3 = start_ack_timer sess now (st1\<lparr>sv_packets_since_ack := sv_packets_since_ack st1 + 1\<rparr>)
       in if should_send_ack duplicate packet now st3
       then io_bind (send_state_ack sess st3) (\<lambda>_. io_return
         (st3\<lparr>sv_ack_number := sv_ack_number st3 + 1, sv_ack_pending := False, sv_packets_since_ack := 0\<rparr>))
       else io_return st3)"

lemma handle_data_accepted:
  assumes "acceptable sess packet"
  defines "s \<equiv> number (view_header packet)"
  shows "handle_data sess packet st =
    io_bind (if has_received (sv_tracker st) s
             then io_return (st\<lparr>sv_duplicate_packets := sv_duplicate_packets st + 1\<rparr>)
             else io_bind clock_now (\<lambda>now. io_return (store_chunk sess s packet now st)))
      (ack_step sess packet (has_received (sv_tracker st) s))"
  using assms(1) by (simp add: acceptable_def handle_data_def ack_step_def [abs_def] s_def Let_def not_le [symmetric])

lemma arrival_returned:
  assumes "(if has_received (sv_tracker st) (number (view_header packet))
       then io_return (st\<lparr>sv_duplicate_packets := sv_duplicate_packets st + 1\<rparr>)
       else io_bind clock_now (\<lambda>now. io_return (store_chunk sess (number (view_header packet)) packet now st))) w =
     (Returned st1, w1)"
  shows "\<exists>t. st1 = after_arrival sess packet t st \<and> wd_sent w1 = wd_sent w \<and>
    wd_clock w1 = drop (if has_received (sv_tracker st) (number (view_header packet)) then 0 else 1) (wd_clock w)"
proof (cases "has_received (sv_tracker st) (number (view_header packet))")
  case True
  then show ?thesis using assms by (auto simp: after_arrival_def)
next
  case False
  then obtain t where "clock_now w = (Returned t, w1)"
    "st1 = store_chunk sess (number (view_header packet)) packet t st"
    using assms by (auto simp: io_bind_returned)
  then show ?thesis using clock_now_returned [of w t w1] False by (auto simp: after_arrival_def)
qed

lemma ack_step_returned:
  assumes "ack_step sess packet dup st1 w1 = (Returned st', w')"
  obtains now st3 where "now = hd (wd_clock w1)" "wd_clock w1 \<noteq> []"
    and "st3 = start_ack_timer sess now (st1\<lparr>sv_packets_since_ack := sv_packets_since_ack st1 + 1\<rparr>)"
    and "st' = (if should_send_ack dup packet now st3
      then st3\<lparr>sv_ack_number := sv_ack_number st3 + 1, sv_ack_pending := False, sv_packets_since_ack := 0\<rparr>
      else st3)"
    and "\<exists>ds. wd_sent w' = wd_sent w1 @ ds \<and>
      (if should_send_ack dup packet now st3 then \<exists>d. ds = [(ss_client sess, d)] \<and> is_ack_datagram (ss_session_id sess)
         (sv_tracker st3) (sa_accepted_bitmap_bits (ss_accepted sess)) d else ds = [])"
proof -
  from assms obtain now w2 where now: "clock_now w1 = (Returned now, w2)"
    and rest: "(let st3 = start_ack_timer sess now (st1\<lparr>sv_packets_since_ack := sv_packets_since_ack st1 + 1\<rparr>)
       in if should_send_ack dup packet now st3
       then io_bind (send_state_ack sess st3) (\<lambda>_. io_return
         (st3\<lparr>sv_ack_number := sv_ack_number st3 + 1, sv_ack_pending := False, sv_packets_since_ack := 0\<rparr>))
       else io_return st3) w2 = (Returned st', w')"
    unfolding ack_step_def io_bind_returned [of clock_now] by blast
  define st3 where "st3 = start_ack_timer sess now (st1\<lparr>sv_packets_since_ack := sv_packets_since_ack st1 + 1\<rparr>)"
  note N = clock_now_returned [OF now]
  show ?thesis
  proof (cases "should_send_ack dup packet now st3")
    case True
    with rest obtain u where u: "send_state_ack sess st3 w2 = (Returned u, w')"
      and "st' = st3\<lparr>sv_ack_number := sv_ack_number st3 + 1, sv_ack_pending := False, sv_packets_since_ack := 0\<rparr>"
      by (auto simp: Let_def st3_def [symmetric] io_bind_returned)
    with send_ack_returned [OF u [unfolded send_state_ack_def]] N True show ?thesis
      by (intro that [OF _ _ st3_def]) auto
  next
    case False
    with rest have "st' = st3" "w' = w2" by (simp_all add: Let_def st3_def [symmetric])
    with N False show ?thesis by (intro that [OF _ _ st3_def]) auto
  qed
qed

lemma handle_data_cases:
  assumes "handle_data sess packet st w = (Returned st', w')"
  obtains
    (ignored) "\<not> acceptable sess packet" "st' = st" "w' = w"
  | (accepted) t now st3 due where
      "acceptable sess packet"
      "now = wd_clock w ! (if has_received (sv_tracker st) (number (view_header packet)) then 0 else 1)"
      "st3 = start_ack_timer sess now ((after_arrival sess packet t st)
         \<lparr>sv_packets_since_ack := sv_packets_since_ack st + 1\<rparr>)"
      "due = should_send_ack (has_received (sv_tracker st) (number (view_header packet))) packet now st3"
      "st' = (if due then st3\<lparr>sv_ack_number := sv_ack_number st3 + 1, sv_ack_pending := False,
                              sv_packets_since_ack := 0\<rparr> else st3)"
      "\<exists>ds. wd_sent w' = wd_sent w @ ds \<and>
         (if due then \<exists>d. ds = [(ss_client sess, d)] \<and> is_ack_datagram (ss_session_id sess)
            (sv_tracker st3) (sa_accepted_bitmap_bits (ss_accepted sess)) d else ds = [])"
proof (cases "acceptable sess packet")
  case False
  then show ?thesis
    using assms by (intro ignored) (auto simp: acceptable_def handle_data_def Let_def not_le split: if_splits)
next
  case True
  let ?dup = "has_received (sv_tracker st) (number (view_header packet))"
  from assms obtain st1 w1 where
    arr: "(if ?dup then io_return (st\<lparr>sv_duplicate_packets := sv_duplicate_packets st + 1\<rparr>)
       else io_bind clock_now (\<lambda>now. io_return (store_chunk sess (number (view_header packet)) packet now st))) w =
         (Returned st1, w1)"
    and ack: "ack_step sess packet ?dup st1 w1 = (Returned st', w')"
    unfolding handle_data_accepted [OF True] io_bind_returned [of "if _ then _ else _"] by blast
  from arrival_returned [OF arr] obtain t where t: "st1 = after_arrival sess packet t st" "wd_sent w1 = wd_sent w"
    "wd_clock w1 = drop (if ?dup then 0 else 1) (wd_clock w)" by blast
  have cnt: "sv_packets_since_ack st1 = sv_packets_since_ack st"
    by (simp add: t after_arrival_def store_chunk_def Let_def)
  from ack show ?thesis
  proof (cases rule: ack_step_returned)
    case (1 now st3)
    have "now = wd_clock w ! (if ?dup then 0 else 1)"
      using 1(1,2) t(3) by (cases "wd_clock w") (auto simp: hd_conv_nth split: if_splits)
    with 1(3-5) t(1,2) cnt True show ?thesis
      by (intro accepted [of now st3 t "should_send_ack ?dup packet now st3"]) auto
  qed
qed

section \<open>What a DATA packet changes\<close>

lemma timer_simps [simp]:
  "sv_tracker (start_ack_timer sess now st) = sv_tracker st"
  "sv_output (start_ack_timer sess now st) = sv_output st"
  "sv_packets_since_ack (start_ack_timer sess now st) = sv_packets_since_ack st"
  "sv_ack_number (start_ack_timer sess now st) = sv_ack_number st"
  by (simp_all add: start_ack_timer_def)

lemma after_arrival_simps:
  "sv_tracker (after_arrival sess packet t st) =
     (if has_received (sv_tracker st) (number (view_header packet)) then sv_tracker st
      else snd (mark_received (sv_tracker st) (number (view_header packet))))"
  "sv_output (after_arrival sess packet t st) =
     (let s = number (view_header packet);
          start = ss_start sess;
          expected_size = chunk_length (sp_file_size start) (sp_chunk_size start) s
      in if \<not> has_received (sv_tracker st) s \<and> expected_size \<noteq> 0
         then memcpy_at (sv_output st) (unat (chunk_offset s (sp_chunk_size start)))
                (take expected_size (the (view_payload packet)))
         else sv_output st)"
  by (simp_all add: after_arrival_def store_chunk_def Let_def)

text \<open>A DATA packet whose payload is the chunk of the file that its number names.\<close>

definition carries_chunk :: "bytes \<Rightarrow> session \<Rightarrow> packet_view \<Rightarrow> bool" where
  "carries_chunk file sess packet \<longleftrightarrow>
     view_payload packet = Some (chunk_bytes file (sp_chunk_size (ss_start sess)) (number (view_header packet)))"

text \<open>Every byte of every received chunk is the byte of the file.\<close>

definition stored_right :: "bytes \<Rightarrow> session \<Rightarrow> server_state \<Rightarrow> bool" where
  "stored_right file sess st \<longleftrightarrow>
     (\<forall>j < length file. j div unat (sp_chunk_size (ss_start sess)) \<in> received_set (sv_tracker st) \<longrightarrow>
        sv_output st ! j = file ! j)"

text \<open>The server knows the length of the file.\<close>

definition file_of :: "bytes \<Rightarrow> session \<Rightarrow> bool" where
  "file_of file sess \<longleftrightarrow> length file = unat (sp_file_size (ss_start sess))"

text \<open>A stored chunk lies inside the output.\<close>

lemma chunk_fits:
  assumes "session_ok sess" and "s < sp_total_chunks (ss_start sess)"
  shows "unat (chunk_offset s (sp_chunk_size (ss_start sess))) +
    chunk_length (sp_file_size (ss_start sess)) (sp_chunk_size (ss_start sess)) s \<le>
    unat (sp_file_size (ss_start sess))"
    and "chunk_length (sp_file_size (ss_start sess)) (sp_chunk_size (ss_start sess)) s \<noteq> 0"
  using chunk_in_file(3,4) [of "sp_file_size (ss_start sess)" "sp_chunk_size (ss_start sess)"
      "sp_total_chunks (ss_start sess)" s] assms
  by (simp_all add: session_ok_def unat_chunk_offset)

lemma after_arrival_inv:
  fixes sess :: session and st :: server_state and packet :: packet_view and t :: time_ns
  assumes ok: "session_ok sess" and inv: "server_inv sess st" and acc: "acceptable sess packet"
    and payload: "view_ok packet"
  defines "st' \<equiv> after_arrival sess packet t st"
  shows "tracker_inv (sv_tracker st')"
    and "length (rt_received (sv_tracker st')) = unat (sp_total_chunks (ss_start sess))"
    and "length (sv_output st') = unat (sp_file_size (ss_start sess))"
    and "received_set (sv_tracker st') =
      insert (unat (number (view_header packet))) (received_set (sv_tracker st))"
proof -
  let ?s = "number (view_header packet)" and ?tr = "sv_tracker st"
  have tr: "tracker_inv ?tr" "length (rt_received ?tr) = unat (sp_total_chunks (ss_start sess))"
    "length (sv_output st) = unat (sp_file_size (ss_start sess))"
    using inv by (simp_all add: server_inv_def)
  have s: "?s < sp_total_chunks (ss_start sess)" using acc by (simp add: acceptable_def Let_def)
  have has: "has_received ?tr ?s \<longleftrightarrow> unat ?s \<in> received_set ?tr" by (rule rt.has_iff [OF tr(1)])
  show "tracker_inv (sv_tracker st')"
    using rt.inv_mark [OF tr(1)] tr(1) by (simp add: st'_def after_arrival_simps)
  show "length (rt_received (sv_tracker st')) = unat (sp_total_chunks (ss_start sess))"
    using rt.total_mark [OF tr(1)] tr(2) by (simp add: st'_def after_arrival_simps)
  show "received_set (sv_tracker st') = insert (unat ?s) (received_set ?tr)"
    using rt.rset_mark [OF tr(1), of ?s] has tr(2) s
    by (auto simp: st'_def after_arrival_simps word_less_nat_alt)
  show "length (sv_output st') = unat (sp_file_size (ss_start sess))"
    using chunk_fits [OF ok s] tr(3) payload acc
    by (auto simp: st'_def after_arrival_simps Let_def acceptable_def view_ok_def)
qed

lemma after_arrival_stored:
  assumes ok: "session_ok sess" and inv: "server_inv sess st" and acc: "acceptable sess packet"
    and view: "view_ok packet" and flen: "file_of file sess"
    and right: "stored_right file sess st" and carries: "carries_chunk file sess packet"
  shows "stored_right file sess (after_arrival sess packet t st)"
proof -
  let ?st = "after_arrival sess packet t st" and ?s = "number (view_header packet)"
  let ?c = "unat (sp_chunk_size (ss_start sess))" and ?fs = "sp_file_size (ss_start sess)"
  let ?len = "chunk_length ?fs (sp_chunk_size (ss_start sess)) ?s"
  note A = after_arrival_inv [OF ok inv acc view, of t]
  have s: "?s < sp_total_chunks (ss_start sess)" using acc by (simp add: acceptable_def Let_def)
  note cc = ok [unfolded session_ok_def, THEN conjunct1]
  note F = chunk_in_file [OF cc s]
  have fs: "length file = unat ?fs" using flen by (simp add: file_of_def)
  then have fs': "of_nat (length file) = ?fs" "length file < 18446744073709551616"
    using unat_u64_less [of ?fs] by simp_all
  have c: "0 < ?c" using cc by (auto simp: chunk_count_Inr unat_gt_0)
  have out: "length (sv_output st) = length file" using inv fs by (simp add: server_inv_def)
  let ?chunk = "chunk_bytes file (sp_chunk_size (ss_start sess)) ?s"
  have chunk: "length ?chunk = ?len"
    using length_chunk_bytes [of "file" "sp_chunk_size (ss_start sess)" "sp_total_chunks (ss_start sess)" ?s]
      cc s fs' by simp
  have nth: "?chunk ! (j - unat ?s * ?c) = file ! j"
    if "unat ?s * ?c \<le> j" "j < unat ?s * ?c + ?len" for j
    using that fs' F(4) fs by (simp add: chunk_bytes_def unat_chunk_offset)
  have idx: "j div ?c = unat ?s \<longleftrightarrow> unat ?s * ?c \<le> j \<and> j < unat ?s * ?c + ?len"
    if "j < length file" for j
  proof -
    have "j div ?c = unat ?s \<longleftrightarrow> unat ?s * ?c \<le> j \<and> j < Suc (unat ?s) * ?c"
      using less_eq_div_iff_mult_less_eq [OF c, of "unat ?s" j]
        div_less_iff_less_mult [OF c, of j "Suc (unat ?s)"] by auto
    then show ?thesis using that F(2) fs by auto
  qed
  show ?thesis
  proof (cases "has_received (sv_tracker st) ?s")
    case True
    then show ?thesis
      using right by (simp add: stored_right_def after_arrival_simps)
  next
    case False
    have out': "sv_output ?st = memcpy_at (sv_output st) (unat ?s * ?c) ?chunk"
      using False F(3) carries chunk
      by (simp add: after_arrival_simps Let_def carries_chunk_def unat_chunk_offset)
    have fit: "unat ?s * ?c + length ?chunk \<le> length (sv_output st)"
      using F(4) chunk out fs by simp
    show ?thesis
      unfolding stored_right_def A(4)
    proof (intro allI impI)
      fix j assume j: "j < length file" and mem: "j div ?c \<in> insert (unat ?s) (received_set (sv_tracker st))"
      have "sv_output ?st ! j = (if unat ?s * ?c \<le> j \<and> j < unat ?s * ?c + ?len
          then ?chunk ! (j - unat ?s * ?c) else sv_output st ! j)"
        unfolding out' using nth_memcpy_at [OF fit, of j] j out chunk by simp
      then show "sv_output ?st ! j = file ! j"
        using nth [of j] idx [OF j] mem right j by (auto simp: stored_right_def)
    qed
  qed
qed

lemma handle_data_result:
  assumes ok: "session_ok sess" and inv: "server_inv sess st" and view: "view_ok packet"
    and run: "handle_data sess packet st w = (Returned st', w')"
  shows "server_inv sess st'"
    and "received_set (sv_tracker st') = (if acceptable sess packet
      then insert (unat (number (view_header packet))) (received_set (sv_tracker st))
      else received_set (sv_tracker st))"
    and "\<exists>ds. wd_sent w' = wd_sent w @ ds \<and> (\<forall>(dest, d) \<in> set ds. dest = ss_client sess \<and>
      is_ack_datagram (ss_session_id sess) (sv_tracker st') (sa_accepted_bitmap_bits (ss_accepted sess)) d)"
    and "acceptable sess packet \<longrightarrow> carries_chunk file sess packet \<Longrightarrow> file_of file sess \<Longrightarrow>
      stored_right file sess st \<Longrightarrow> stored_right file sess st'"
proof -
  have "server_inv sess st' \<and>
    received_set (sv_tracker st') = (if acceptable sess packet
      then insert (unat (number (view_header packet))) (received_set (sv_tracker st))
      else received_set (sv_tracker st)) \<and>
    (\<exists>ds. wd_sent w' = wd_sent w @ ds \<and> (\<forall>(dest, d) \<in> set ds. dest = ss_client sess \<and>
      is_ack_datagram (ss_session_id sess) (sv_tracker st') (sa_accepted_bitmap_bits (ss_accepted sess)) d)) \<and>
    ((acceptable sess packet \<longrightarrow> carries_chunk file sess packet) \<and> file_of file sess \<and>
      stored_right file sess st \<longrightarrow> stored_right file sess st')"
    using run
  proof (cases rule: handle_data_cases)
    case ignored
    then show ?thesis using inv by simp
  next
    case (accepted t now st3 due)
    let ?a = "after_arrival sess packet t st"
    note A = after_arrival_inv [OF ok inv accepted(1) view, of t]
    have same: "sv_tracker st' = sv_tracker ?a" "sv_output st' = sv_output ?a"
      by (simp_all add: accepted(3,5))
    have "sv_packets_since_ack st' < kAckPacketThreshold"
      using accepted(4,5) by (auto simp: should_send_ack_def kAckPacketThreshold_def not_le)
    then have "server_inv sess st'" using A(1-3) by (simp add: server_inv_def same)
    moreover have "sv_tracker st3 = sv_tracker st'" by (simp add: accepted(3,5))
    ultimately show ?thesis
      using A(4) accepted(1,6) after_arrival_stored [OF ok inv accepted(1) view, of "file" t]
      by (auto simp: same stored_right_def split: if_splits)
  qed
  then show "server_inv sess st'"
    "received_set (sv_tracker st') = (if acceptable sess packet
      then insert (unat (number (view_header packet))) (received_set (sv_tracker st))
      else received_set (sv_tracker st))"
    "\<exists>ds. wd_sent w' = wd_sent w @ ds \<and> (\<forall>(dest, d) \<in> set ds. dest = ss_client sess \<and>
      is_ack_datagram (ss_session_id sess) (sv_tracker st') (sa_accepted_bitmap_bits (ss_accepted sess)) d)"
    "acceptable sess packet \<longrightarrow> carries_chunk file sess packet \<Longrightarrow> file_of file sess \<Longrightarrow>
      stored_right file sess st \<Longrightarrow> stored_right file sess st'" by blast+
qed

section \<open>What any packet changes\<close>

text \<open>A DATA packet from the client, for this session, carries what the client's file has there.\<close>

definition authentic :: "bytes \<Rightarrow> session \<Rightarrow> endpoint \<Rightarrow> packet_view \<Rightarrow> bool" where
  "authentic file sess source packet \<longleftrightarrow>
     (same_endpoint source (ss_client sess) \<and>
      session_id (view_header packet) = ss_session_id sess \<and>
      ptype (view_header packet) = DATA \<and> acceptable sess packet \<longrightarrow> carries_chunk file sess packet)"

definition is_start_ack_datagram :: "u32 \<Rightarrow> start_ack_payload \<Rightarrow> bytes \<Rightarrow> bool" where
  "is_start_ack_datagram sid response d \<longleftrightarrow>
     serialize_packet (make_header START_ACK sid 0) (Some (serialize_start_ack response))
       (length (serialize_start_ack response)) = Inr d"

definition is_complete_ack_datagram :: "session \<Rightarrow> bytes \<Rightarrow> bytes \<Rightarrow> bool" where
  "is_complete_ack_datagram sess payload d \<longleftrightarrow>
     serialize_packet (make_header COMPLETE_ACK (ss_session_id sess) (sp_total_chunks (ss_start sess)))
       (Some payload) (length payload) = Inr d"

text \<open>The datagrams an iteration may send.\<close>

definition server_datagram :: "session \<Rightarrow> receiver_tracker \<Rightarrow> endpoint \<times> bytes \<Rightarrow> bool" where
  "server_datagram sess tracker = (\<lambda>(dest, d).
     (\<exists>sid response. is_start_ack_datagram sid response d) \<or>
     dest = ss_client sess \<and>
       is_ack_datagram (ss_session_id sess) tracker (sa_accepted_bitmap_bits (ss_accepted sess)) d \<or>
     dest = ss_client sess \<and> complete tracker \<and> (\<exists>payload. is_complete_ack_datagram sess payload d))"

lemma send_start_ack_returned:
  assumes "send_start_ack client sid response w = (Returned u, w')"
  shows "\<exists>d. is_start_ack_datagram sid response d \<and> wd_sent w' = wd_sent w @ [(client, d)]"
  using assms send_packet_returned(1) unfolding send_start_ack_def Let_def is_start_ack_datagram_def
  by blast

lemma sync_file_returned:
  "sync_file k f contents w = (Returned u, w') \<Longrightarrow>
     fst (sync_output k f) = Inr () \<and> wd_sent w' = wd_sent w \<and>
     wd_flushed w' = wd_flushed w @ [contents]"
  by (auto simp: sync_file_def io_bind_returned io_sum_returned log_files_def log_flushed_def
      split: prod.splits)

lemma handle_complete_cases:
  assumes "handle_complete k f sess packet st w = (Returned sig, w')"
  obtains
    (ignored) "number (view_header packet) \<noteq> sp_total_chunks (ss_start sess) \<or>
      view_payload_size packet \<noteq> 0" "sig = Continue st" "w' = w"
  | (incomplete) d where
      "\<not> complete (sv_tracker st) \<or> rt_cumulative_ack (sv_tracker st) \<noteq> sp_total_chunks (ss_start sess)"
      "sig = Continue (st\<lparr>sv_ack_number := sv_ack_number st + 1\<rparr>)"
      "is_ack_datagram (ss_session_id sess) (sv_tracker st) (sa_accepted_bitmap_bits (ss_accepted sess)) d"
      "wd_sent w' = wd_sent w @ [(ss_client sess, d)]"
  | (completed) d where
      "sig = Completed st (serialize_complete_ack (completion_payload sess st))"
      "complete (sv_tracker st)" "fst (sync_output k f) = Inr ()"
      "is_complete_ack_datagram sess (serialize_complete_ack (completion_payload sess st)) d"
      "wd_sent w' = wd_sent w @ [(ss_client sess, d)]"
proof -
  let ?n = "sp_total_chunks (ss_start sess)"
  consider (a) "number (view_header packet) \<noteq> ?n \<or> view_payload_size packet \<noteq> 0"
    | (b) "\<not> (number (view_header packet) \<noteq> ?n \<or> view_payload_size packet \<noteq> 0)"
      "\<not> complete (sv_tracker st) \<or> rt_cumulative_ack (sv_tracker st) \<noteq> ?n"
    | (c) "\<not> (number (view_header packet) \<noteq> ?n \<or> view_payload_size packet \<noteq> 0)"
      "\<not> (\<not> complete (sv_tracker st) \<or> rt_cumulative_ack (sv_tracker st) \<noteq> ?n)" by blast
  then show ?thesis
  proof cases
    case a
    then show ?thesis using assms by (intro ignored [OF a]) (auto simp: handle_complete_def Let_def)
  next
    case b
    with assms obtain u where "send_state_ack sess st w = (Returned u, w')"
      "sig = Continue (st\<lparr>sv_ack_number := sv_ack_number st + 1\<rparr>)"
      by (auto simp: handle_complete_def Let_def io_bind_returned)
    with send_ack_returned show ?thesis
      unfolding send_state_ack_def by (metis incomplete [OF b(2)])
  next
    case c
    with assms obtain u w1 u' where sync: "sync_file k f (sv_output st) w = (Returned u, w1)"
      and send: "send_packet (ss_client sess) (make_header COMPLETE_ACK (ss_session_id sess) ?n)
        (Some (serialize_complete_ack (completion_payload sess st)))
        (length (serialize_complete_ack (completion_payload sess st))) w1 = (Returned u', w')"
      and sig: "sig = Completed st (serialize_complete_ack (completion_payload sess st))"
      by (auto simp: handle_complete_def Let_def io_bind_returned)
    from send_packet_returned(1) [OF send] obtain d where
      "is_complete_ack_datagram sess (serialize_complete_ack (completion_payload sess st)) d"
      "wd_sent w' = wd_sent w1 @ [(ss_client sess, d)]"
      unfolding is_complete_ack_datagram_def by blast
    with sync_file_returned [OF sync] sig c(2) show ?thesis by (intro completed) simp_all
  qed
qed

text \<open>The state inside a signal.\<close>

fun signal_state :: "server_signal \<Rightarrow> server_state" where
  "signal_state (Continue st) = st"
| "signal_state (Completed st payload) = st"

lemma handle_packet_result:
  assumes ok: "session_ok sess" and inv: "server_inv sess st" and view: "view_ok packet"
    and run: "handle_packet k f sess source packet st w = (Returned sig, w')"
  shows "server_inv sess (signal_state sig) \<and>
    received_set (sv_tracker st) \<subseteq> received_set (sv_tracker (signal_state sig)) \<and>
    (\<exists>ds. wd_sent w' = wd_sent w @ ds \<and>
      (\<forall>d \<in> set ds. server_datagram sess (sv_tracker (signal_state sig)) d)) \<and>
    (authentic file sess source packet \<and> file_of file sess \<and> stored_right file sess st \<longrightarrow>
       stored_right file sess (signal_state sig)) \<and>
    (\<forall>st' payload. sig = Completed st' payload \<longrightarrow> st' = st \<and> complete (sv_tracker st) \<and>
       fst (sync_output k f) = Inr () \<and>
       payload = serialize_complete_ack (completion_payload sess st))"
proof -
  let ?h = "view_header packet"
  consider (start) "ptype ?h = START"
    | (foreign) "ptype ?h \<noteq> START" "\<not> same_endpoint source (ss_client sess) \<or> session_id ?h \<noteq> ss_session_id sess"
    | (data) "ptype ?h = DATA" "same_endpoint source (ss_client sess)" "session_id ?h = ss_session_id sess"
    | (other) "ptype ?h \<noteq> START" "ptype ?h \<noteq> DATA" "ptype ?h \<noteq> COMPLETE"
      "same_endpoint source (ss_client sess)" "session_id ?h = ss_session_id sess"
    | (complete) "ptype ?h = COMPLETE" "same_endpoint source (ss_client sess)"
      "session_id ?h = ss_session_id sess"
    by (cases "ptype ?h = START"; cases "ptype ?h = DATA"; cases "ptype ?h = COMPLETE") auto
  then show ?thesis
  proof cases
    case start
    with run obtain u where "answer_start sess source packet w = (Returned u, w')" "sig = Continue st"
      by (auto simp: handle_packet_def io_bind_returned)
    moreover from this(1) have "\<exists>dest sid response d. is_start_ack_datagram sid response d \<and>
        wd_sent w' = wd_sent w @ [(dest, d)]"
      unfolding answer_start_def by (auto split: if_splits dest!: send_start_ack_returned)
    ultimately show ?thesis using inv by (auto simp: server_datagram_def)
  next
    case foreign
    then have "sig = Continue st" "w' = w" using run by (auto simp: handle_packet_def)
    then show ?thesis using inv by simp
  next
    case data
    with run obtain st' where "handle_data sess packet st w = (Returned st', w')" and sig: "sig = Continue st'"
      by (auto simp: handle_packet_def io_bind_returned)
    note R = handle_data_result [OF ok inv view this(1)]
    from R(3) have "\<exists>ds. wd_sent w' = wd_sent w @ ds \<and>
      (\<forall>d \<in> set ds. server_datagram sess (sv_tracker st') d)"
      by (fastforce simp: server_datagram_def)
    then show ?thesis using R(1,2,4) sig data by (auto simp: authentic_def)
  next
    case other
    then have "sig = Continue st" "w' = w" using run by (auto simp: handle_packet_def)
    then show ?thesis using inv by simp
  next
    case complete
    with run have "handle_complete k f sess packet st w = (Returned sig, w')"
      by (simp add: handle_packet_def)
    then show ?thesis
    proof (cases rule: handle_complete_cases)
      case ignored
      then show ?thesis using inv by simp
    next
      case (incomplete d)
      then show ?thesis using inv by (auto simp: server_inv_def server_datagram_def stored_right_def)
    next
      case (completed d)
      then show ?thesis using inv by (auto simp: server_datagram_def)
    qed
  qed
qed

section \<open>The whole main loop\<close>

text \<open>What \<^verbatim>\<open>receive_packet\<close> returns is a datagram of the script that parses.\<close>

lemma receive_packet_result:
  "receive_packet w = (Returned (source, packet), w') \<Longrightarrow>
     view_ok packet \<and> set (wd_recvs w') \<subseteq> set (wd_recvs w) \<and> wd_sent w' = wd_sent w \<and>
     wd_files w' = wd_files w \<and> wd_closed w' = wd_closed w \<and>
     (\<exists>bs. Datagram source bs \<in> set (wd_recvs w) \<and> parses_to bs packet)"
proof (induction "length (wd_recvs w)" arbitrary: w rule: less_induct)
  case less
  obtain x xs where Cons: "wd_recvs w = x # xs"
    using less(2) by (cases "wd_recvs w") (auto simp: receive_packet.simps [of w] recvfrom_def)
  let ?w = "w\<lparr>wd_recvs := xs\<rparr>"
  have rf: "recvfrom kReceiveBufferBytes w = (Returned (case x of
      Datagram src bs \<Rightarrow> Datagram src (take kReceiveBufferBytes bs) | _ \<Rightarrow> x), ?w)"
    by (simp add: recvfrom_def Cons)
  have again: ?case if "receive_packet ?w = (Returned (source, packet), w')"
    using less(1) [OF _ that] Cons by auto
  show ?case
  proof (cases x)
    case (Datagram src bs)
    let ?bs = "take kReceiveBufferBytes bs"
    show ?thesis
    proof (cases "deserialize_packet_view (Some ?bs) (length ?bs)")
      case (Inl e)
      with less(2) show ?thesis
        by (intro again, subst (asm) receive_packet.simps) (simp add: rf Datagram del: length_take)
    next
      case (Inr b)
      with less(2) have "b = packet" "src = source" "w' = ?w"
        by (simp_all add: receive_packet.simps [of w] rf Datagram del: length_take)
      with Inr Cons Datagram deserialize_view_ok [of ?bs b] show ?thesis
        by (auto simp: parses_to_def simp del: length_take)
    qed
  next
    case Recv_interrupted
    with less(2) show ?thesis
      by (intro again, subst (asm) receive_packet.simps) (simp add: rf)
  qed (use less(2) in \<open>simp_all add: receive_packet.simps [of w] rf throw_errno_def\<close>)
qed

definition authentic_script :: "bytes \<Rightarrow> session \<Rightarrow> recv_result list \<Rightarrow> bool" where
  "authentic_script file sess rs \<longleftrightarrow>
     (\<forall>source bs packet. Datagram source bs \<in> set rs \<longrightarrow> parses_to bs packet \<longrightarrow>
        authentic file sess source packet)"

lemma authentic_script_mono:
  "authentic_script file sess rs \<Longrightarrow> set rs' \<subseteq> set rs \<Longrightarrow> authentic_script file sess rs'"
  by (auto simp: authentic_script_def)

lemma serve_loop_result:
  "session_ok sess \<Longrightarrow> file_of file sess \<Longrightarrow> server_inv sess st \<Longrightarrow> stored_right file sess st \<Longrightarrow>
     authentic_script file sess (wd_recvs w) \<Longrightarrow>
     serve_loop k f sess st w = (Returned (st', payload), w') \<Longrightarrow>
     server_inv sess st' \<and> stored_right file sess st' \<and> complete (sv_tracker st') \<and>
     fst (sync_output k f) = Inr () \<and>
     payload = serialize_complete_ack (completion_payload sess st')"
proof (induction k f sess st w arbitrary: st' payload w' rule: serve_loop.induct)
  case (1 k f sess st w)
  note run = 1(7)
  obtain source packet w1 where recv: "receive_packet w = (Returned (source, packet), w1)"
    using run by (subst (asm) serve_loop.simps) (auto split: prod.splits outcome.splits)
  obtain sig w2 where handle: "handle_packet k f sess source packet st w1 = (Returned sig, w2)"
    using run recv by (subst (asm) serve_loop.simps) (auto split: prod.splits outcome.splits)
  note P = receive_packet_result [OF recv]
  have auth: "authentic file sess source packet"
    using P 1(6) by (auto simp: authentic_script_def)
  have "wd_recvs w2 = wd_recvs w1" by (rule recvs.keepsD [OF recvs_handle_packet handle])
  then have script: "authentic_script file sess (wd_recvs w2)"
    using P by (intro authentic_script_mono [OF 1(6)]) auto
  note H = handle_packet_result [OF 1(2,4) _ handle, of "file"]
  show ?case
  proof (cases sig)
    case (Continue st1)
    have rest: "serve_loop k f sess st1 w2 = (Returned (st', payload), w')"
      using run by (simp add: serve_loop.simps [of k f sess st w] recv handle Continue)
    show ?thesis
      by (rule 1(1) [OF recv [symmetric] refl refl handle [symmetric] refl Continue 1(2,3) _ _ script rest])
        (use H P auth 1(3,5) Continue in auto)
  next
    case (Completed st1 payload1)
    have "st1 = st'" "payload1 = payload"
      using run by (simp_all add: serve_loop.simps [of k f sess st w] recv handle Completed)
    then show ?thesis using H P auth 1(3-5) Completed by auto
  qed
qed

lemma init_server_inv:
  assumes "session_ok sess"
  shows "server_inv sess (init_server_state sess now)"
    and "stored_right file sess (init_server_state sess now)"
  using rt.inv_mk rt.total_mk rt.rset_mk
  by (simp_all add: server_inv_def stored_right_def init_server_state_def kAckPacketThreshold_def)

lemma complete_output:
  assumes ok: "session_ok sess" and flen: "file_of file sess" and inv: "server_inv sess st"
    and right: "stored_right file sess st" and all: "complete (sv_tracker st)"
  shows "sv_output st = file"
proof (rule nth_equalityI)
  let ?c = "unat (sp_chunk_size (ss_start sess))"
  note cc = ok [unfolded session_ok_def, THEN conjunct1, unfolded chunk_count_Inr]
  then have c: "0 < ?c" by (auto simp: unat_gt_0)
  show len: "length (sv_output st) = length file"
    using inv flen by (simp add: server_inv_def file_of_def)
  have R: "received_set (sv_tracker st) = {..<unat (sp_total_chunks (ss_start sess))}"
    using rt.full_iff [of "sv_tracker st"] inv all by (simp add: server_inv_def)
  fix j assume "j < length (sv_output st)"
  then have j: "j < length file" using len by simp
  have "length file \<le> unat (sp_total_chunks (ss_start sess)) * ?c"
    using nat_chunk_count_bound [OF c] cc flen by (simp add: file_of_def)
  then have "j div ?c < unat (sp_total_chunks (ss_start sess))"
    using j c by (simp add: div_less_iff_less_mult)
  then show "sv_output st ! j = file ! j"
    using right j by (simp add: stored_right_def R)
qed

section \<open>Resources\<close>

text \<open>Between opening and closing, the file and the socket are only flushed.\<close>

definition only_flushes :: "world \<Rightarrow> world \<Rightarrow> bool" where
  "only_flushes w w' \<longleftrightarrow> wd_closed w' = wd_closed w \<and>
     (\<exists>fl. wd_files w' = wd_files w @ fl \<and> (\<forall>m \<in> set fl. \<exists>a n. m = Msync_call a n))"

interpretation flush: world_frame only_flushes
proof
  show "only_flushes w w" for w by (simp add: only_flushes_def)
  show "only_flushes u w" if "only_flushes u v" "only_flushes v w" for u v w
    using that unfolding only_flushes_def by (elim conjE exE) auto
qed

lemma flush_keeps:
  "flush.keeps clock_now" "flush.keeps (sendto dest d)" "flush.keeps (recvfrom n)"
  "flush.keeps (poll_socket t)" "flush.keeps (log_flushed d)" "flush.keeps (print_lines stream ls)"
  by (auto intro!: flush.keepsI simp: only_flushes_def syscall_defs split: list.splits send_result.splits)

lemma flush_sync: "flush.keeps (sync_file k f contents)"
proof -
  have "flush.keeps (log_files (snd (sync_output k f)))"
    by (auto intro!: flush.keepsI simp: only_flushes_def log_files_def sync_output_def split: option.splits)
  then show ?thesis
    unfolding sync_file_def
    by (simp add: case_prod_beta flush.keeps_bind flush.keeps_sum flush_keeps)
qed

lemma flush_send_packet: "flush.keeps (send_packet dest h p n)"
  by (intro flush.keeps_send_packet flush_keeps)

lemma flush_sends:
  "flush.keeps (send_start_ack client sid response)" "flush.keeps (send_ack client sid k tracker bits)"
  unfolding send_start_ack_def send_ack_def Let_def by (intro flush.keeps_intros flush_send_packet)+

lemma flush_handle_packet: "flush.keeps (handle_packet k f sess source packet st)"
  unfolding handle_packet_def handle_complete_def handle_data_def answer_start_def
    send_state_ack_def Let_def
  by (intro flush.keeps_intros flush_sends flush_keeps flush_sync flush_send_packet)

lemmas flush_receive_packet = flush.keeps_receive_packet [OF flush_keeps(3)]

lemmas flush_serve_loop = flush.keeps_serve_loop [OF flush_receive_packet flush_handle_packet]

lemmas flush_await_start = flush.keeps_await_start [OF flush_receive_packet flush_sends(1)]

lemma flush_time_wait: "flush.keeps (time_wait client sid n payload)"
  by (intro flush.keeps_time_wait flush_keeps)
    (unfold time_wait_round_def, intro flush.keeps_intros flush_keeps flush_send_packet)

text \<open>A step that closes the socket when it returns, and leaves it open when it throws.\<close>

definition closes_at_end :: "int \<Rightarrow> 'a io \<Rightarrow> bool" where
  "closes_at_end fd m \<longleftrightarrow> (\<forall>w r w'. m w = (r, w') \<longrightarrow>
     (case r of
        Returned _ \<Rightarrow> \<exists>v. only_flushes w v \<and> wd_files w' = wd_files v \<and> wd_closed w' = wd_closed v @ [fd]
      | Thrown _ \<Rightarrow> only_flushes w w'
      | Blocked \<Rightarrow> True))"

lemma closes_bind:
  assumes m: "flush.keeps m" and f: "\<And>a. closes_at_end fd (f a)"
  shows "closes_at_end fd (io_bind m f)"
  unfolding closes_at_end_def
proof (intro allI impI)
  fix w r w' assume run: "io_bind m f w = (r, w')"
  obtain s v where mw: "m w = (s, v)" by fastforce
  have wv: "only_flushes w v" by (rule flush.keepsD [OF m mw])
  show "case r of
        Returned _ \<Rightarrow> \<exists>v. only_flushes w v \<and> wd_files w' = wd_files v \<and> wd_closed w' = wd_closed v @ [fd]
      | Thrown _ \<Rightarrow> only_flushes w w'
      | Blocked \<Rightarrow> True"
  proof (cases s)
    case (Returned a)
    then have "f a v = (r, w')" using run mw by (simp add: io_bind_def)
    with f [of a] have "case r of
        Returned _ \<Rightarrow> \<exists>u. only_flushes v u \<and> wd_files w' = wd_files u \<and> wd_closed w' = wd_closed u @ [fd]
      | Thrown _ \<Rightarrow> only_flushes v w'
      | Blocked \<Rightarrow> True" by (simp add: closes_at_end_def)
    then show ?thesis using flush.ok_trans [OF wv] by (auto split: outcome.splits)
  qed (use run mw wv in \<open>auto simp: io_bind_def\<close>)
qed

lemma closes_serve_transfer: "closes_at_end fd (serve_transfer k f fd sess)"
proof -
  have "closes_at_end fd (close_socket fd)"
    by (auto simp: closes_at_end_def close_socket_def intro: flush.ok_refl)
  then show ?thesis
    unfolding serve_transfer_def conclude_transfer_def case_prod_beta
    by (intro closes_bind flush_sends flush_keeps flush_serve_loop flush_time_wait)
qed

lemma held_append: "held_after (a @ b) = fold apply_call b (held_after a)"
  by (simp add: held_after_def)

lemma held_flushes: "\<forall>m \<in> set fl. \<exists>a n. m = Msync_call a n \<Longrightarrow> fold apply_call fl held = held"
  by (induction fl) auto

lemma open_output_held:
  assumes "open_output k path sz = (r, calls)"
  shows "case r of
      Inl e \<Rightarrow> held_after calls = ([], [])
    | Inr f \<Rightarrow> held_after (calls @ close_output f) = ([], [])"
  using assms by (auto simp: file_op_defs split: if_splits option.splits)

text \<open>The files opened by a client's transfer are closed again, and so is the socket if it returns.\<close>

text \<open>The three ways \<^verbatim>\<open>run_server\<close> can go once it listens.\<close>

lemma serve_client_cases:
  assumes "serve_client k path mtu fd w = (r, w')"
  obtains
    (waiting) s where "await_start mtu w = (s, w')" "\<And>x. s \<noteq> Returned x"
      "r = (case s of Returned x \<Rightarrow> Returned () | Thrown e \<Rightarrow> Thrown e | Blocked \<Rightarrow> Blocked)"
  | (no_file) client sid start w1 e calls q where
      "await_start mtu w = (Returned (client, sid, start), w1)"
      "open_output k path (sp_file_size start) = (Inl e, calls)"
      "send_start_ack client sid (rejection IO_ERROR) (w1\<lparr>wd_files := wd_files w1 @ calls\<rparr>) = (q, w')"
      "r = (case q of Returned _ \<Rightarrow> Thrown e | Thrown e' \<Rightarrow> Thrown e' | Blocked \<Rightarrow> Blocked)"
  | (transfer) client sid start w1 f calls w3 where
      "await_start mtu w = (Returned (client, sid, start), w1)"
      "open_output k path (sp_file_size start) = (Inr f, calls)"
      "serve_transfer k f fd \<lparr>ss_client = client, ss_session_id = sid, ss_start = start,
         ss_accepted = acceptance start\<rparr> (w1\<lparr>wd_files := wd_files w1 @ calls\<rparr>) = (r, w3)"
      "w' = (if r = Blocked then w3 else w3\<lparr>wd_files := wd_files w3 @ close_output f\<rparr>)"
proof -
  obtain s w1 where start: "await_start mtu w = (s, w1)" by fastforce
  show ?thesis
  proof (cases s)
    case (Returned x)
    obtain client sid start where x: "x = (client, sid, start)" by (cases x) auto
    obtain out calls where o: "open_output k path (sp_file_size start) = (out, calls)" by fastforce
    let ?w2 = "w1\<lparr>wd_files := wd_files w1 @ calls\<rparr>"
    note defs = serve_client_def io_defs io_finally_def log_files_def
    show ?thesis
    proof (cases out)
      case (Inl e)
      obtain q w3 where send: "send_start_ack client sid (rejection IO_ERROR) ?w2 = (q, w3)" by fastforce
      from assms start send o show ?thesis
        by (intro no_file [of client sid start w1 e calls q]) (auto simp: defs Returned x Inl split: outcome.splits)
    next
      case (Inr f)
      obtain q w3 where tr: "serve_transfer k f fd \<lparr>ss_client = client, ss_session_id = sid, ss_start = start,
         ss_accepted = acceptance start\<rparr> ?w2 = (q, w3)" by fastforce
      from assms start tr o show ?thesis
        by (intro transfer [of client sid start w1 f calls w3]) (auto simp: defs Returned x Inr split: outcome.splits)
    qed
  qed (use assms start in \<open>auto intro!: waiting simp: serve_client_def io_bind_def\<close>)
qed

lemma serve_client_resources:
  assumes "serve_client k path mtu fd w = (r, w')" and "r \<noteq> Blocked"
  shows "\<exists>calls. wd_files w' = wd_files w @ calls \<and> held_after calls = ([], [])"
    and "wd_closed w' = wd_closed w @ (case r of Returned _ \<Rightarrow> [fd] | _ \<Rightarrow> [])"
proof -
  have waited: "\<exists>fl. wd_files w1 = wd_files w @ fl \<and> (\<forall>m \<in> set fl. \<exists>a n. m = Msync_call a n) \<and>
      held_after fl = ([], []) \<and> wd_closed w1 = wd_closed w"
    if "await_start mtu w = (s, w1)" for s w1
    using flush.keepsD [OF flush_await_start that] held_flushes [of _ "([], [])"]
    by (fastforce simp: only_flushes_def held_after_def)
  have "(\<exists>calls. wd_files w' = wd_files w @ calls \<and> held_after calls = ([], [])) \<and>
    wd_closed w' = wd_closed w @ (case r of Returned _ \<Rightarrow> [fd] | _ \<Rightarrow> [])"
    using assms(1)
  proof (cases rule: serve_client_cases)
    case (waiting s)
    with waited [OF waiting(1)] assms(2) show ?thesis by (cases s) auto
  next
    case (no_file client sid start w1 e calls q)
    from waited [OF no_file(1)] obtain fl where fl: "wd_files w1 = wd_files w @ fl" "held_after fl = ([], [])"
      "wd_closed w1 = wd_closed w" by blast
    obtain fl' where fl': "wd_files w' = wd_files w @ (fl @ calls @ fl')" "\<forall>m \<in> set fl'. \<exists>a n. m = Msync_call a n"
      "wd_closed w' = wd_closed w"
      using flush.keepsD [OF flush_sends(1) no_file(3)] fl by (auto simp: only_flushes_def)
    have "held_after (fl @ calls @ fl') = ([], [])"
      using open_output_held [OF no_file(2)] fl(2) held_flushes [OF fl'(2)]
      by (simp add: held_append) (simp add: held_after_def)
    with fl' no_file(4) assms(2) show ?thesis by (cases q) auto
  next
    case (transfer client sid start w1 f calls w3)
    from waited [OF transfer(1)] obtain fl where fl: "wd_files w1 = wd_files w @ fl" "held_after fl = ([], [])"
      "wd_closed w1 = wd_closed w" by blast
    have "\<exists>fl'. wd_files w3 = wd_files w @ (fl @ calls @ fl') \<and> (\<forall>m \<in> set fl'. \<exists>a n. m = Msync_call a n) \<and>
        wd_closed w3 = wd_closed w @ (case r of Returned _ \<Rightarrow> [fd] | _ \<Rightarrow> [])"
      using closes_serve_transfer [of fd k f "\<lparr>ss_client = client, ss_session_id = sid, ss_start = start,
        ss_accepted = acceptance start\<rparr>"] transfer(3) assms(2) fl unfolding closes_at_end_def
      by (fastforce simp: only_flushes_def split: outcome.splits)
    then obtain fl' where fl': "wd_files w3 = wd_files w @ (fl @ calls @ fl')" "\<forall>m \<in> set fl'. \<exists>a n. m = Msync_call a n"
      "wd_closed w3 = wd_closed w @ (case r of Returned _ \<Rightarrow> [fd] | _ \<Rightarrow> [])" by blast
    have "held_after (fl @ calls @ fl' @ close_output f) = ([], [])"
      using open_output_held [OF transfer(2)] fl(2) held_flushes [OF fl'(2)]
      by (simp add: held_append) (simp add: held_after_def)
    with fl' transfer(4) assms(2) show ?thesis by auto
  qed
  then show "\<exists>calls. wd_files w' = wd_files w @ calls \<and> held_after calls = ([], [])"
    "wd_closed w' = wd_closed w @ (case r of Returned _ \<Rightarrow> [fd] | _ \<Rightarrow> [])" by simp_all
qed

end
