(* ===== verification/Server_Delivery.thy ===== *)
theory Server_Delivery
  imports Server_Invariant
begin

unbundle bit_operations_syntax

text \<open>
  What a run of the server means for one client, however the run ends: as long as the client's file
  has not been flushed completely, no COMPLETE_ACK goes to the client.
\<close>

section \<open>Cut datagrams\<close>

text \<open>A datagram that was cut and still parses has not been cut.\<close>

lemma cut_parses:
  assumes "parses_to (take k (header_bytes h (length bs) @ bs)) v" and "length bs \<le> 65535"
  shows "v = \<lparr>view_header = sent_header h (length bs), view_payload = Some bs, view_payload_size = length bs\<rparr>"
proof -
  define e where "e = take (min kReceiveBufferBytes k) (header_bytes h (length bs) @ bs)"
  have e: "deserialize_packet_view (Some e) (length e) = Inr v"
    using assms(1) by (simp add: parses_to_def e_def min_def del: take_append length_take)
  then have len: "24 \<le> length e" by (simp add: deserialize_packet_view_iff)
  moreover have "length e \<le> min kReceiveBufferBytes k" unfolding e_def length_take by (rule min.cobounded2)
  ultimately have split: "e = header_bytes h (length bs) @ take (min kReceiveBufferBytes k - 24) bs"
    by (simp add: e_def)
  have "decode_header e = sent_header h (length bs)" by (simp add: split decode_header_bytes)
  moreover have "unat (of_nat (length bs) :: u16) = length bs" using assms(2) by simp
  ultimately have v: "length e = 24 + length bs"
    "v = \<lparr>view_header = sent_header h (length bs), view_payload = Some (take (length bs) (drop 24 e)),
         view_payload_size = length bs\<rparr>"
    using e unfolding deserialize_packet_view_iff by (simp_all add: sent_header_def)
  then have "take (min kReceiveBufferBytes k - 24) bs = bs" using split by simp
  then show ?thesis using v(2) split by simp
qed

text \<open>Whatever part of a datagram parses has its type.\<close>

lemma cut_type:
  assumes "serialize_packet h p n = Inr d" and "parses_to (take k d) v"
  shows "ptype (view_header v) = ptype h"
proof -
  have n: "n \<le> 65535" and d: "d = header_bytes h n @ (if n \<noteq> 0 then take n (the p) else [])"
    using assms(1) serialize_packet_header_layout [of n h]
    by (auto simp: serialize_packet_def serialize_packet_header_def split: if_splits sum.splits)
  define e where "e = take (min kReceiveBufferBytes k) d"
  have e: "deserialize_packet_view (Some e) (length e) = Inr v"
    using assms(2) by (simp add: parses_to_def e_def min_def del: length_take)
  then have "24 \<le> length e" by (simp add: deserialize_packet_view_iff)
  moreover have "length e \<le> min kReceiveBufferBytes k" unfolding e_def length_take by (rule min.cobounded2)
  ultimately have "e = header_bytes h n @ take (min kReceiveBufferBytes k - 24) (if n \<noteq> 0 then take n (the p) else [])"
    by (simp add: e_def d)
  then have "decode_header e = sent_header h n" by (simp add: decode_header_bytes)
  then show ?thesis using e by (simp add: deserialize_packet_view_iff sent_header_def)
qed

section \<open>Completions\<close>

text \<open>A logged datagram that can tell the client that the transfer is complete.\<close>

definition completion :: "endpoint \<Rightarrow> endpoint \<times> bytes \<Rightarrow> bool" where
  "completion client = (\<lambda>(dest, bs).
     dest = client \<and> (\<exists>v. parses_to bs v \<and> ptype (view_header v) = COMPLETE_ACK))"

definition silent :: "endpoint \<Rightarrow> world \<Rightarrow> world \<Rightarrow> bool" where
  "silent client = emits (\<lambda>x. \<not> completion client x)"

definition quiet :: "endpoint \<Rightarrow> world \<Rightarrow> world \<Rightarrow> bool" where
  "quiet client w w' \<longleftrightarrow> silent client w w' \<and> wd_flushed w' = wd_flushed w"

lemma emits_sub_trans: "emits P u v \<Longrightarrow> emits P v w \<Longrightarrow> emits P u w"
  by (rule emits_trans)

interpretation silent: world_frame "silent client" for client
  by unfold_locales (auto simp: silent_def intro: emits_trans)

interpretation quiet: world_frame "quiet client" for client
  by unfold_locales (auto simp: quiet_def intro: silent.ok_refl silent.ok_trans)

interpretation no_flush: world_frame "\<lambda>w w'. wd_flushed w' = wd_flushed w"
  by unfold_locales simp_all

lemma no_flush_keeps:
  "no_flush.keeps clock_now" "no_flush.keeps (sendto dest d)" "no_flush.keeps (recvfrom n)"
  "no_flush.keeps (poll_socket t)" "no_flush.keeps (log_files calls)" "no_flush.keeps (close_socket fd)"
  "no_flush.keeps (print_lines stream ls)"
  by (auto intro!: no_flush.keepsI simp: syscall_defs split: list.splits send_result.splits)

lemma quiet_keeps:
  "quiet.keeps client clock_now" "quiet.keeps client (recvfrom n)" "quiet.keeps client (poll_socket t)"
  "quiet.keeps client (log_files calls)" "quiet.keeps client (close_socket fd)"
  "quiet.keeps client (print_lines stream ls)"
  by (auto intro!: quiet.keepsI simp: quiet_def silent_def syscall_defs split: list.splits)

lemma silent_if_quiet: "quiet.keeps client m \<Longrightarrow> silent.keeps client m"
  by (auto simp: quiet.keeps_def silent.keeps_def quiet_def)

lemma silent_log_flushed: "silent.keeps client (log_flushed d)"
  by (rule silent.keepsI) (simp add: silent_def log_flushed_def)

lemmas silent_keeps = quiet_keeps [THEN silent_if_quiet] silent_log_flushed

lemma quiet_sendto:
  assumes "dest \<noteq> client \<or> ptype h \<noteq> COMPLETE_ACK" and "serialize_packet h p n = Inr d"
  shows "quiet.keeps client (sendto dest d)"
proof (rule quiet.keepsI)
  have "\<not> completion client (dest, take k d)" for k
    using assms cut_type [OF assms(2)] by (auto simp: completion_def)
  then show "quiet client w (snd (sendto dest d w))" for w
    by (auto simp: quiet_def silent_def sendto_def emits_def split: list.splits send_result.splits)
qed

lemma quiet_send_packet:
  "dest \<noteq> client \<or> ptype h \<noteq> COMPLETE_ACK \<Longrightarrow> quiet.keeps client (send_packet dest h p n)"
  by (intro quiet.keeps_send_packet quiet_sendto)

lemma ptype_make_header [simp]: "ptype (make_header t sid n) = t"
  by (simp add: make_header_def)

lemma quiet_sends:
  "quiet.keeps client (send_start_ack dest sid response)"
  "quiet.keeps client (send_ack dest sid k tracker bits)"
  unfolding send_start_ack_def send_ack_def Let_def
  by (intro quiet.keeps_intros quiet_send_packet, simp)+

lemmas quiet_receive = quiet.keeps_receive_packet [OF quiet_keeps(2)]

lemmas quiet_await_start = quiet.keeps_await_start [OF quiet_receive quiet_sends(1)]

lemma quiet_handle_data: "quiet.keeps client (handle_data sess packet st)"
  unfolding handle_data_def send_state_ack_def Let_def
  by (intro quiet.keeps_intros quiet_sends quiet_keeps)

lemma quiet_answer_start: "quiet.keeps client (answer_start sess source packet)"
  unfolding answer_start_def by (intro quiet.keeps_intros quiet_sends)

section \<open>Sessions of other clients\<close>

text \<open>A session with someone else never completes anything for the client.\<close>

lemma silent_handle_complete:
  assumes "ss_client sess \<noteq> client"
  shows "silent.keeps client (handle_complete k f sess packet st)"
  unfolding handle_complete_def sync_file_def send_state_ack_def Let_def case_prod_beta
  by (intro silent.keeps_intros silent_keeps silent_if_quiet [OF quiet_sends(2)]
      silent_if_quiet [OF quiet_send_packet] disjI1 assms)

lemma silent_serve_transfer:
  assumes "ss_client sess \<noteq> client"
  shows "silent.keeps client (serve_transfer k f fd sess)"
proof -
  have "silent.keeps client (handle_packet k f sess source packet st)" for source packet st
    unfolding handle_packet_def Let_def
    by (intro silent.keeps_intros silent_handle_complete assms silent_if_quiet [OF quiet_answer_start]
        silent_if_quiet [OF quiet_handle_data])
  moreover have "silent.keeps client (time_wait_round (ss_client sess) sid n payload deadline)" for sid n payload deadline
    unfolding time_wait_round_def
    by (intro silent.keeps_intros silent_keeps silent_if_quiet [OF quiet_send_packet] disjI1 assms)
  ultimately show ?thesis
    unfolding serve_transfer_def conclude_transfer_def case_prod_beta
    by (intro silent.keeps_bind silent_keeps silent_if_quiet [OF quiet_sends(1)] silent.keeps_serve_loop
        silent.keeps_time_wait silent_if_quiet [OF quiet_receive])
qed

section \<open>The session of the client\<close>

text \<open>Either nothing was completed, or the output, complete, was flushed once.\<close>

lemma sync_file_delivers:
  assumes "sync_file k f contents w = (r, w')"
  shows "if \<exists>u. r = Returned u then wd_flushed w' = wd_flushed w @ [contents] else quiet client w w'"
  using assms
  by (auto simp: sync_file_def io_bind_def io_sum_def log_files_def log_flushed_def io_return_def
      io_throw_def quiet_def silent_def split: prod.splits sum.splits)

lemma no_flush_send_packet: "no_flush.keeps (send_packet dest h p n)"
  by (intro no_flush.keeps_send_packet no_flush_keeps)

lemma handle_complete_delivers:
  assumes "handle_complete k f sess packet st w = (r, w')"
  shows "(quiet client w w' \<and> (\<forall>st' p. r \<noteq> Returned (Completed st' p))) \<or>
    (complete (sv_tracker st) \<and> wd_flushed w' = wd_flushed w @ [sv_output st] \<and>
     (\<forall>st'. r \<noteq> Returned (Continue st')))"
proof -
  let ?n = "sp_total_chunks (ss_start sess)" and ?bs = "serialize_complete_ack (completion_payload sess st)"
  consider (a) "number (view_header packet) \<noteq> ?n \<or> view_payload_size packet \<noteq> 0"
    | (b) "\<not> (number (view_header packet) \<noteq> ?n \<or> view_payload_size packet \<noteq> 0)"
      "\<not> complete (sv_tracker st) \<or> rt_cumulative_ack (sv_tracker st) \<noteq> ?n"
    | (c) "\<not> (number (view_header packet) \<noteq> ?n \<or> view_payload_size packet \<noteq> 0)"
      "\<not> (\<not> complete (sv_tracker st) \<or> rt_cumulative_ack (sv_tracker st) \<noteq> ?n)" by blast
  then show ?thesis
  proof cases
    case a
    then show ?thesis
      using assms by (auto simp: handle_complete_def Let_def io_return_def intro: quiet.ok_refl)
  next
    case b
    then have run: "io_bind (send_state_ack sess st)
        (\<lambda>_. io_return (Continue (st\<lparr>sv_ack_number := sv_ack_number st + 1\<rparr>))) w = (r, w')"
      using assms by (simp add: handle_complete_def Let_def)
    have "quiet.keeps client (io_bind (send_state_ack sess st)
        (\<lambda>_. io_return (Continue (st\<lparr>sv_ack_number := sv_ack_number st + 1\<rparr>))))"
      unfolding send_state_ack_def by (intro quiet.keeps_intros quiet_sends)
    from quiet.keepsD [OF this run] run show ?thesis
      by (auto simp: io_bind_def io_return_def split: prod.splits outcome.splits)
  next
    case c
    let ?rest = "\<lambda>_. io_bind (send_packet (ss_client sess) (make_header COMPLETE_ACK (ss_session_id sess) ?n)
        (Some ?bs) (length ?bs)) (\<lambda>_. io_return (Completed st ?bs))"
    have run: "io_bind (sync_file k f (sv_output st)) ?rest w = (r, w')"
      using assms c by (simp add: handle_complete_def Let_def)
    obtain s v where s: "sync_file k f (sv_output st) w = (s, v)" by fastforce
    note D = sync_file_delivers [OF s, of client]
    show ?thesis
    proof (cases "\<exists>u. s = Returned u")
      case True
      then obtain u where u: "s = Returned u" ..
      then have rest: "?rest u v = (r, w')" using run s by (simp add: io_bind_def)
      then have "\<forall>st'. r \<noteq> Returned (Continue st')"
        by (auto simp: io_bind_def io_return_def split: prod.splits outcome.splits)
      moreover note rest
      moreover have "no_flush.keeps (?rest u)" by (intro no_flush.keeps_intros no_flush_send_packet no_flush_keeps)
      ultimately have "wd_flushed w' = wd_flushed v" "\<forall>st'. r \<noteq> Returned (Continue st')"
        by (metis no_flush.keepsD, blast)
      then show ?thesis using D True c by simp
    next
      case False
      then have "w' = v" "\<forall>a. r \<noteq> Returned a" using run s by (cases s, auto simp: io_bind_def)+
      then show ?thesis using D False by auto
    qed
  qed
qed

lemma handle_packet_delivers:
  assumes "handle_packet k f sess source packet st w = (r, w')"
  shows "(quiet client w w' \<and> (\<forall>st' p. r \<noteq> Returned (Completed st' p))) \<or>
    (complete (sv_tracker st) \<and> wd_flushed w' = wd_flushed w @ [sv_output st] \<and>
     (\<forall>st'. r \<noteq> Returned (Continue st')))"
proof (cases "handle_packet k f sess source packet st = handle_complete k f sess packet st")
  case True
  then show ?thesis using handle_complete_delivers [of k f sess packet st w r w'] assms by simp
next
  case False
  let ?h = "view_header packet"
  have "handle_packet k f sess source packet st \<in>
      {io_bind (answer_start sess source packet) (\<lambda>_. io_return (Continue st)), io_return (Continue st),
       io_bind (handle_data sess packet st) (\<lambda>st'. io_return (Continue st'))}"
    using False by (auto simp: handle_packet_def Let_def split: if_splits)
  then consider "handle_packet k f sess source packet st = io_bind (answer_start sess source packet) (\<lambda>_. io_return (Continue st))"
    | "handle_packet k f sess source packet st = io_return (Continue st)"
    | "handle_packet k f sess source packet st = io_bind (handle_data sess packet st) (\<lambda>st'. io_return (Continue st'))"
    by blast
  then have "quiet.keeps client (handle_packet k f sess source packet st) \<and> (\<forall>st' p. r \<noteq> Returned (Completed st' p))"
    using assms
    by cases (auto simp: io_bind_returned intro!: quiet.keeps_intros quiet_answer_start quiet_handle_data)
  then show ?thesis using quiet.keepsD assms by blast
qed

lemma serve_loop_delivers:
  "session_ok sess \<Longrightarrow> file_of file sess \<Longrightarrow> server_inv sess st \<Longrightarrow> stored_right file sess st \<Longrightarrow>
     authentic_script file sess (wd_recvs w) \<Longrightarrow> serve_loop k f sess st w = (r, w') \<Longrightarrow>
     (quiet client w w' \<and> (\<forall>x. r \<noteq> Returned x)) \<or> wd_flushed w' = wd_flushed w @ [file]"
proof (induction k f sess st w arbitrary: r w' rule: serve_loop.induct)
  case (1 k f sess st w)
  note run = 1(7)
  obtain x w1 where recv: "receive_packet w = (x, w1)" by fastforce
  have q1: "quiet client w w1" by (rule quiet.keepsD [OF quiet_receive recv])
  show ?case
  proof (cases x)
    case (Returned y)
    obtain source packet where y: "y = (source, packet)" by fastforce
    obtain s w2 where handle: "handle_packet k f sess source packet st w1 = (s, w2)" by fastforce
    note D = handle_packet_delivers [OF handle, of client]
    note P = receive_packet_result [OF recv [unfolded Returned y]]
    have auth: "authentic file sess source packet" using P 1(6) by (auto simp: authentic_script_def)
    show ?thesis
    proof (cases "complete (sv_tracker st) \<and> wd_flushed w2 = wd_flushed w1 @ [sv_output st] \<and>
        (\<forall>st'. s \<noteq> Returned (Continue st'))")
      case True
      then have out: "sv_output st = file" by (intro complete_output [OF 1(2-5)]) simp
      have "wd_flushed w2 = wd_flushed w @ [file]" using True q1 out by (simp add: quiet_def)
      moreover have "w' = w2"
        using run True by (cases s; auto simp: serve_loop.simps [of k f sess st w] recv Returned y handle
            split: server_signal.splits)
      ultimately show ?thesis by simp
    next
      case False
      then have q2: "quiet client w w2" and nc: "\<forall>st' p. s \<noteq> Returned (Completed st' p)"
        using D quiet.ok_trans [OF q1] by blast+
      show ?thesis
      proof (cases "\<exists>st1. s = Returned (Continue st1)")
        case True
        then obtain st1 where s: "s = Returned (Continue st1)" ..
        then have rest: "serve_loop k f sess st1 w2 = (r, w')"
          using run by (simp add: serve_loop.simps [of k f sess st w] recv Returned y handle)
        note H = handle_packet_result [OF 1(2,4) _ handle [unfolded s], of "file"]
        have "wd_recvs w2 = wd_recvs w1" by (rule recvs.keepsD [OF recvs_handle_packet handle])
        then have script: "authentic_script file sess (wd_recvs w2)"
          using P by (intro authentic_script_mono [OF 1(6)]) auto
        have "(quiet client w2 w' \<and> (\<forall>x. r \<noteq> Returned x)) \<or> wd_flushed w' = wd_flushed w2 @ [file]"
          by (rule 1(1) [OF recv [symmetric] Returned y [symmetric] handle [symmetric] s refl 1(2,3) _ _ script rest])
            (use H P auth 1(3,5) in auto)
        then show ?thesis using q2 quiet.ok_trans [OF q2] by (auto simp: quiet_def)
      next
        case False
        then have "w' = w2" "\<forall>x. r \<noteq> Returned x"
          using run nc by (cases s; auto simp: serve_loop.simps [of k f sess st w] recv Returned y handle
              split: server_signal.splits)+
        then show ?thesis using q2 by simp
      qed
    qed
  qed (use run q1 in \<open>auto simp: serve_loop.simps [of k f sess st w] recv\<close>)
qed

text \<open>When the main loop returns, a complete output has been flushed.\<close>

lemma serve_loop_completes:
  "session_ok sess \<Longrightarrow> server_inv sess st \<Longrightarrow> serve_loop k f sess st w = (Returned (st', payload), w') \<Longrightarrow>
     server_inv sess st' \<and> complete (sv_tracker st') \<and> wd_flushed w' = wd_flushed w @ [sv_output st']"
proof (induction k f sess st w rule: serve_loop.induct)
  case (1 k f sess st w)
  note run = 1(4)
  obtain source packet w1 where recv: "receive_packet w = (Returned (source, packet), w1)"
    using run by (subst (asm) serve_loop.simps) (auto split: prod.splits outcome.splits)
  obtain sig w2 where handle: "handle_packet k f sess source packet st w1 = (Returned sig, w2)"
    using run recv by (subst (asm) serve_loop.simps) (auto split: prod.splits outcome.splits)
  have q1: "wd_flushed w1 = wd_flushed w"
    using quiet.keepsD [OF quiet_receive recv] by (simp add: quiet_def)
  have "view_ok packet" using receive_packet_result [OF recv] by blast
  note H = handle_packet_result [OF 1(2,3) this handle]
  note D = handle_packet_delivers [OF handle]
  show ?case
  proof (cases sig)
    case (Continue st1)
    then have rest: "serve_loop k f sess st1 w2 = (Returned (st', payload), w')"
      using run by (simp add: serve_loop.simps [of k f sess st w] recv handle)
    have "wd_flushed w2 = wd_flushed w1" using D Continue by (auto simp: quiet_def)
    with 1(1) [OF recv [symmetric] refl refl handle [symmetric] refl Continue 1(2) _ rest] H Continue q1
    show ?thesis by simp
  next
    case (Completed st1 payload1)
    then have "st1 = st'" "w' = w2"
      using run by (simp_all add: serve_loop.simps [of k f sess st w] recv handle)
    then show ?thesis using H D Completed q1 by auto
  qed
qed

section \<open>The whole server\<close>

lemma serve_transfer_delivers:
  assumes "session_ok sess" and "file_of file sess" and "authentic_script file sess (wd_recvs w)"
    and run: "serve_transfer k f fd sess w = (r, w')"
  shows "quiet client w w' \<or> wd_flushed w' = wd_flushed w @ [file]"
proof -
  let ?start = "send_start_ack (ss_client sess) (ss_session_id sess) (ss_accepted sess)"
  let ?rest = "\<lambda>st p. io_bind (print_lines Cout (server_report sess st)) (\<lambda>_.
    io_bind (time_wait (ss_client sess) (ss_session_id sess) (sp_total_chunks (ss_start sess)) p)
    (\<lambda>_. close_socket fd))"
  let ?pre = "io_bind ?start (\<lambda>_. clock_now)"
  have split: "serve_transfer k f fd sess =
      io_bind ?pre (\<lambda>now. io_bind (serve_loop k f sess (init_server_state sess now)) (\<lambda>(st, p). ?rest st p))"
    by (simp add: serve_transfer_def conclude_transfer_def fun_eq_iff io_bind_def split: prod.splits outcome.splits)
  obtain s w1 where pre: "?pre w = (s, w1)" by fastforce
  have "quiet.keeps client ?pre" by (intro quiet.keeps_intros quiet_sends quiet_keeps)
  then have q1: "quiet client w w1" using pre by (rule quiet.keepsD)
  have "recvs.keeps ?pre" by (intro recvs.keeps_intros recvs_server_sends recvs_keeps)
  then have r1: "wd_recvs w1 = wd_recvs w" using pre by (rule recvs.keepsD)
  show ?thesis
  proof (cases s)
    case (Returned now)
    obtain x w2 where loop: "serve_loop k f sess (init_server_state sess now) w1 = (x, w2)" by fastforce
    have L: "(quiet client w1 w2 \<and> (\<forall>a. x \<noteq> Returned a)) \<or> wd_flushed w2 = wd_flushed w1 @ [file]"
      using serve_loop_delivers [OF assms(1,2) init_server_inv [OF assms(1)] _ loop] assms(3) r1 by simp
    show ?thesis
    proof (cases "\<exists>a. x = Returned a")
      case True
      then obtain st p where x: "x = Returned (st, p)" by auto
      then have "?rest st p w2 = (r, w')" using run pre Returned loop by (simp add: split io_bind_def)
      moreover have "no_flush.keeps (?rest st p)"
        by (intro no_flush.keeps_intros no_flush.keeps_time_wait no_flush_keeps)
          (unfold time_wait_round_def, intro no_flush.keeps_intros no_flush_send_packet no_flush_keeps)
      ultimately have "wd_flushed w' = wd_flushed w2" by (metis no_flush.keepsD)
      then show ?thesis using L x q1 by (simp add: quiet_def)
    next
      case False
      then have "w' = w2" using run pre Returned loop by (cases x) (auto simp: split io_bind_def)
      then show ?thesis using L q1 quiet.ok_trans [OF q1] by (auto simp: quiet_def)
    qed
  qed (use run pre q1 in \<open>auto simp: split io_bind_def\<close>)
qed

text \<open>The START that is accepted is one of the datagrams.\<close>

lemma await_start_arrived:
  "await_start mtu w = (Returned (client, sid, start), w') \<Longrightarrow>
     set (wd_recvs w') \<subseteq> set (wd_recvs w) \<and> valid_start mtu start = Inr True \<and>
     (\<exists>bs packet. Datagram client bs \<in> set (wd_recvs w) \<and> parses_to bs packet \<and>
        start_of packet = Some start \<and> session_id (view_header packet) = sid)"
proof (induction mtu w arbitrary: w' rule: await_start.induct)
  case (1 mtu w)
  obtain c packet w1 where recv: "receive_packet w = (Returned (c, packet), w1)"
    using 1(3) by (subst (asm) await_start.simps) (auto split: prod.splits outcome.splits)
  note P = receive_packet_result [OF recv]
  show ?case
  proof (cases "start_of packet")
    case None
    with 1(3) have "await_start mtu w1 = (Returned (client, sid, start), w')"
      by (simp add: await_start.simps [of mtu w] recv)
    from 1(1) [OF recv [symmetric] refl refl None this] P show ?thesis by blast
  next
    case (Some st)
    then obtain valid where v: "valid_start mtu st = Inr valid"
      using 1(3) by (cases "valid_start mtu st") (auto simp: await_start.simps [of mtu w] recv)
    show ?thesis
    proof (cases valid)
      case True
      with 1(3) v Some have "client = c" "sid = session_id (view_header packet)" "start = st" "w' = w1"
        by (auto simp: await_start.simps [of mtu w] recv)
      with P v Some True show ?thesis by auto
    next
      case False
      then obtain u w2 where send: "send_start_ack c (session_id (view_header packet))
          (rejection INVALID_REQUEST) w1 = (Returned u, w2)"
        and rest: "await_start mtu w2 = (Returned (client, sid, start), w')"
        using 1(3) v Some
        by (auto simp: await_start.simps [of mtu w] recv split: prod.splits outcome.splits)
      have "wd_recvs w2 = wd_recvs w1" by (rule recvs.keepsD [OF recvs_server_sends(1) send])
      with 1(2) [OF recv [symmetric] refl refl Some v _ send [symmetric] refl rest] False P
      show ?thesis by auto
    qed
  qed
qed

text \<open>What the network brings from the client, if anything, belongs to one transfer of one file.\<close>

definition faithful :: "bytes \<Rightarrow> endpoint \<Rightarrow> recv_result list \<Rightarrow> bool" where
  "faithful file client rs \<longleftrightarrow>
     (\<forall>bs packet start bs' packet'.
        Datagram client bs \<in> set rs \<and> parses_to bs packet \<and> start_of packet = Some start \<longrightarrow>
        length file = unat (sp_file_size start) \<and>
        (Datagram client bs' \<in> set rs \<and> parses_to bs' packet' \<and> ptype (view_header packet') = DATA \<longrightarrow>
         view_payload packet' =
           Some (chunk_bytes file (sp_chunk_size start) (number (view_header packet')))))"

text \<open>The transfer of an accepted session.\<close>

lemma accepted_transfer_delivers:
  assumes faithful: "faithful file client (wd_recvs w)"
    and await: "await_start mtu w = (Returned (cl, sid, start), w1)"
    and tr: "serve_transfer k f fd \<lparr>ss_client = cl, ss_session_id = sid, ss_start = start,
      ss_accepted = acceptance start\<rparr> (w1\<lparr>wd_files := calls\<rparr>) = (z, w3)"
  shows "silent client w w3 \<or> wd_flushed w3 = wd_flushed w @ [file]"
proof -
  let ?sess = "\<lparr>ss_client = cl, ss_session_id = sid, ss_start = start, ss_accepted = acceptance start\<rparr>"
  let ?w2 = "w1\<lparr>wd_files := calls\<rparr>"
  note A = await_start_arrived [OF await]
  have q2: "quiet client w ?w2"
    using quiet.keepsD [OF quiet_await_start await, of client] by (simp add: quiet_def silent_def emits_def)
  have "silent client ?w2 w3 \<or> wd_flushed w3 = wd_flushed ?w2 @ [file]"
  proof (cases "cl = client")
    case False
    then show ?thesis using silent.keepsD [OF silent_serve_transfer tr] by simp
  next
    case True
    obtain bs packet where st: "Datagram client bs \<in> set (wd_recvs w)" "parses_to bs packet"
      "start_of packet = Some start" using A True by auto
    have "session_ok ?sess"
      using A by (auto simp: session_ok_def valid_start_def split: sum.splits if_splits)
    moreover have "file_of file ?sess" using faithful st by (auto simp: faithful_def file_of_def)
    moreover have "authentic_script file ?sess (wd_recvs ?w2)"
      using faithful st A True
      by (auto simp: faithful_def authentic_script_def authentic_def carries_chunk_def same_endpoint_eq)
    ultimately show ?thesis
      using serve_transfer_delivers [OF _ _ _ tr] by (auto simp: quiet_def)
  qed
  moreover have "wd_flushed ?w2 = wd_flushed w" using q2 by (simp add: quiet_def)
  ultimately show ?thesis using q2 silent.ok_trans [of client w ?w2 w3] by (auto simp: quiet_def)
qed

lemma serve_client_delivers:
  assumes faithful: "faithful file client (wd_recvs w)"
    and run: "serve_client k path mtu fd w = (r, w')"
  shows "silent client w w' \<or> wd_flushed w' = wd_flushed w @ [file]"
  using run
proof (cases rule: serve_client_cases)
  case (waiting s)
  then show ?thesis using quiet.keepsD [OF quiet_await_start waiting(1), of client] by (simp add: quiet_def)
next
  case (no_file cl sid start w1 e calls q)
  have "quiet client w (w1\<lparr>wd_files := wd_files w1 @ calls\<rparr>)"
    using quiet.keepsD [OF quiet_await_start no_file(1), of client] by (simp add: quiet_def silent_def emits_def)
  from quiet.ok_trans [OF this quiet.keepsD [OF quiet_sends(1) no_file(3)]] show ?thesis by (simp add: quiet_def)
next
  case (transfer cl sid start w1 f calls w3)
  have "wd_sent w' = wd_sent w3" "wd_flushed w' = wd_flushed w3" by (simp_all add: transfer(4))
  with accepted_transfer_delivers [OF faithful transfer(1,3)] show ?thesis by (simp add: silent_def emits_def)
qed

lemma run_server_delivers:
  assumes faithful: "faithful file client (wd_recvs w)"
    and run: "run_server fd rcvbuf_rc bind_rc k options w = (r, w')"
  shows "silent client w w' \<or> wd_flushed w' = wd_flushed w @ [file]"
proof (cases "0 \<le> fd \<and> rcvbuf_rc = 0 \<and> bind_rc = 0")
  case False
  then show ?thesis using run
    by (auto simp: run_server_def io_on_throw_def io_bind_def io_throw_def throw_errno_def close_socket_def
        silent_def split: if_splits)
next
  case True
  let ?w = "w\<lparr>wd_printed := wd_printed w @ [(Cout, waiting_line options)]\<rparr>"
  obtain s v where b: "serve_client k (so_output options) (so_mtu options) fd ?w = (s, v)" by fastforce
  have "wd_sent w' = wd_sent v" "wd_flushed w' = wd_flushed v"
    using run True b
    by (auto simp: run_server_def io_on_throw_def io_bind_def io_throw_def close_socket_def
        print_lines_def split: outcome.splits)
  moreover have "faithful file client (wd_recvs ?w)" using faithful by simp
  ultimately show ?thesis using serve_client_delivers [OF _ b] by (simp add: silent_def emits_def)
qed

end
