(* ===== verification/Programs.thy ===== *)
theory Programs
  imports Server Client
begin

text \<open>
  The two \<^verbatim>\<open>main\<close> functions: a command line is parsed and the program run with its options.  The value
  is the exit status; every error of the model is a \<^verbatim>\<open>std::exception\<close>, so each one is caught, printed
  with the usage and turned into status 1.
\<close>

section \<open>The main functions\<close>

text \<open>The body of the \<^verbatim>\<open>catch\<close> block: \<open>prefix\<close> is \<^verbatim>\<open>"client: "\<close> or \<^verbatim>\<open>"server: "\<close>.\<close>

definition fail_with :: "string \<Rightarrow> shown list list \<Rightarrow> frft_error \<Rightarrow> int io" where
  "fail_with prefix usage e =
     io_bind (print_lines Cerr [[Text prefix, Text (error_text e)]]) (\<lambda>_.
     io_bind (print_lines Cerr usage) (\<lambda>_. io_return 1))"

definition exit_status :: "string \<Rightarrow> shown list list \<Rightarrow> 'a io \<Rightarrow> int io" where
  "exit_status prefix usage m w =
     (case m w of
        (Returned _, w') \<Rightarrow> (Returned 0, w')
      | (Thrown e, w') \<Rightarrow> fail_with prefix usage e w'
      | (Blocked, w') \<Rightarrow> (Blocked, w'))"

text \<open>\<^verbatim>\<open>--help\<close> prints the usage and exits with status 0 from within \<^verbatim>\<open>parse_options\<close>.\<close>

definition server_main ::
    "int \<Rightarrow> int \<Rightarrow> int \<Rightarrow> file_kernel \<Rightarrow> string list \<Rightarrow> int io" where
  "server_main socket_fd rcvbuf_rc bind_rc k argv =
     (let usage = server_usage (program_name argv)
      in case parse_server_options argv of
        Inl e \<Rightarrow> fail_with ''server: '' usage e
      | Inr Exit_zero \<Rightarrow> io_bind (print_lines Cerr usage) (\<lambda>_. io_return 0)
      | Inr (Parsed options) \<Rightarrow>
          exit_status ''server: '' usage (run_server socket_fd rcvbuf_rc bind_rc k options))"

definition client_main ::
    "(string \<Rightarrow> frft_error + rat option) \<Rightarrow> (string \<Rightarrow> u16 \<Rightarrow> string + endpoint) \<Rightarrow> file_kernel \<Rightarrow>
      bytes \<Rightarrow> int \<Rightarrow> int \<Rightarrow> (u32 \<times> u32) list \<Rightarrow> string list \<Rightarrow> int io" where
  "client_main stod getaddrinfo k contents socket_fd discover_rc randoms argv =
     (let usage = client_usage (program_name argv)
      in case parse_client_options stod argv of
        Inl e \<Rightarrow> fail_with ''client: '' usage e
      | Inr Exit_zero \<Rightarrow> io_bind (print_lines Cerr usage) (\<lambda>_. io_return 0)
      | Inr (Parsed options) \<Rightarrow>
          exit_status ''client: '' usage
            (run_client getaddrinfo k contents socket_fd discover_rc randoms options))"

section \<open>Their cases\<close>

lemma fail_with_run: "fail_with prefix usage e w = (Returned 1, w\<lparr>wd_printed := wd_printed w @
    (Cerr, [Text prefix, Text (error_text e)]) # map (Pair Cerr) usage\<rparr>)"
  by (simp add: fail_with_def io_bind_def print_lines_def io_return_def)

text \<open>What a run of \<open>exit_status\<close> that ends with each status has printed beside what the program did.\<close>

lemma exit_status_cases:
  assumes "exit_status prefix usage m w = (r, w')"
  obtains
    (success) a where "m w = (Returned a, w')" "r = Returned 0"
  | (failure) e v where "m w = (Thrown e, v)" "r = Returned 1"
      "w' = v\<lparr>wd_printed := wd_printed v @ (Cerr, [Text prefix, Text (error_text e)]) # map (Pair Cerr) usage\<rparr>"
  | (blocked) "m w = (Blocked, w')" "r = Blocked"
  using assms by (auto simp: exit_status_def fail_with_run split: prod.splits outcome.splits)

lemma client_main_zero:
  assumes "client_main stod getaddrinfo k contents fd rc randoms argv w = (Returned 0, w')"
    and "parse_client_options stod argv = Inr (Parsed options)"
  shows "\<exists>report. run_client getaddrinfo k contents fd rc randoms options w = (Returned report, w')"
  using assms by (auto simp: client_main_def Let_def elim!: exit_status_cases)

text \<open>A server that does not get as far as \<^verbatim>\<open>run_server\<close> only prints.\<close>

lemma server_main_cases:
  assumes "server_main fd rcvbuf_rc bind_rc k argv w = (r, w')"
  shows "\<exists>v. w' = v\<lparr>wd_printed := wd_printed w'\<rparr> \<and>
    (v = w \<or> (\<exists>s options. run_server fd rcvbuf_rc bind_rc k options w = (s, v)))"
proof (cases "\<exists>options. parse_server_options argv = Inr (Parsed options)")
  case True
  then obtain options where "exit_status ''server: '' (server_usage (program_name argv))
      (run_server fd rcvbuf_rc bind_rc k options) w = (r, w')"
    using assms by (auto simp: server_main_def Let_def)
  then show ?thesis
    by (cases rule: exit_status_cases) (force intro: exI [of _ w'])+
next
  case False
  with assms show ?thesis
    by (intro exI [of _ w])
      (auto simp: server_main_def Let_def fail_with_run io_bind_def io_return_def print_lines_def
        split: sum.splits parsed.splits)
qed

end
