(* ===== verification/Program_Output.thy ===== *)
theory Program_Output
  imports Client_Trace Server_Delivery Programs
begin

text \<open>
  What the programs print.  The client prints its report exactly when its run returns, the server
  says that it waits and prints its report when the main loop has ended; each \<^verbatim>\<open>main\<close> adds the error
  and the usage when its program throws.
\<close>

section \<open>Steps that print only when they return\<close>

definition prints :: "'a io \<Rightarrow> ('a \<Rightarrow> printed_line list \<Rightarrow> bool) \<Rightarrow> bool" where
  "prints m Q \<longleftrightarrow> (\<forall>w r w'. m w = (r, w') \<longrightarrow>
     (case r of
        Returned a \<Rightarrow> \<exists>ls. wd_printed w' = wd_printed w @ ls \<and> Q a ls
      | _ \<Rightarrow> wd_printed w' = wd_printed w))"

lemma printsD:
  "prints m Q \<Longrightarrow> m w = (r, w') \<Longrightarrow>
     case r of
       Returned a \<Rightarrow> \<exists>ls. wd_printed w' = wd_printed w @ ls \<and> Q a ls
     | _ \<Rightarrow> wd_printed w' = wd_printed w"
  by (simp add: prints_def)

text \<open>A step that always returns its argument's value and prints nothing, such as closing the socket.\<close>

definition passes :: "('a \<Rightarrow> 'b io) \<Rightarrow> ('a \<Rightarrow> 'b) \<Rightarrow> bool" where
  "passes f g \<longleftrightarrow> (\<forall>a w. \<exists>w'. f a w = (Returned (g a), w') \<and> wd_printed w' = wd_printed w)"

lemma prints_throw: "prints (io_throw e) Q" "prints (throw_errno what) Q" "prints (\<lambda>w. (Blocked, w)) Q"
  by (simp_all add: prints_def io_throw_def throw_errno_def)

lemma prints_if: "(b \<Longrightarrow> prints m Q) \<Longrightarrow> (\<not> b \<Longrightarrow> prints m' Q) \<Longrightarrow> prints (if b then m else m') Q"
  by simp

lemma prints_after:
  assumes m: "printed.keeps m" and f: "\<And>a w v. m w = (Returned a, v) \<Longrightarrow> prints (f a) Q"
  shows "prints (io_bind m f) Q"
  unfolding prints_def
proof (intro allI impI)
  fix w r w' assume run: "io_bind m f w = (r, w')"
  obtain s v where mw: "m w = (s, v)" by fastforce
  note V = printed.keepsD [OF m mw]
  show "case r of
        Returned a \<Rightarrow> \<exists>ls. wd_printed w' = wd_printed w @ ls \<and> Q a ls
      | _ \<Rightarrow> wd_printed w' = wd_printed w"
  proof (cases s)
    case (Returned a)
    then have "f a v = (r, w')" using run mw by (simp add: io_bind_def)
    from printsD [OF f [OF mw [unfolded Returned]] this] show ?thesis unfolding V .
  qed (use run mw V in \<open>auto simp: io_bind_def\<close>)
qed

lemma prints_then:
  assumes m: "prints m Q" and f: "passes f id"
  shows "prints (io_bind m f) Q"
  unfolding prints_def
proof (intro allI impI)
  fix w r w' assume run: "io_bind m f w = (r, w')"
  obtain s v where mw: "m w = (s, v)" by fastforce
  note V = printsD [OF m mw]
  show "case r of
        Returned a \<Rightarrow> \<exists>ls. wd_printed w' = wd_printed w @ ls \<and> Q a ls
      | _ \<Rightarrow> wd_printed w' = wd_printed w"
  proof (cases s)
    case (Returned a)
    then have "f a v = (r, w')" using run mw by (simp add: io_bind_def)
    moreover obtain u where "f a v = (Returned a, u)" "wd_printed u = wd_printed v"
      using f by (auto simp: passes_def)
    ultimately show ?thesis using V Returned by auto
  qed (use run mw V in \<open>auto simp: io_bind_def\<close>)
qed

lemma prints_on_throw:
  assumes m: "prints m Q" and h: "printed.keeps h"
  shows "prints (io_on_throw m h) Q"
  unfolding prints_def
proof (intro allI impI)
  fix w r w' assume run: "io_on_throw m h w = (r, w')"
  obtain s v where mw: "m w = (s, v)" by fastforce
  note V = printsD [OF m mw]
  obtain x u where hv: "h v = (x, u)" by fastforce
  show "case r of
        Returned a \<Rightarrow> \<exists>ls. wd_printed w' = wd_printed w @ ls \<and> Q a ls
      | _ \<Rightarrow> wd_printed w' = wd_printed w"
    using run mw V hv printed.keepsD [OF h hv]
    by (auto simp: io_on_throw_def io_bind_def io_throw_def split: outcome.splits)
qed

lemma prints_finally:
  assumes m: "prints m Q" and c: "passes (\<lambda>_. c) (\<lambda>_. ())"
  shows "prints (io_finally m c) Q"
  unfolding prints_def
proof (intro allI impI)
  fix w r w' assume run: "io_finally m c w = (r, w')"
  obtain s v where mw: "m w = (s, v)" by fastforce
  note V = printsD [OF m mw]
  obtain u where "c v = (Returned (), u)" "wd_printed u = wd_printed v" using c by (auto simp: passes_def)
  then show "case r of
        Returned a \<Rightarrow> \<exists>ls. wd_printed w' = wd_printed w @ ls \<and> Q a ls
      | _ \<Rightarrow> wd_printed w' = wd_printed w"
    using run mw V by (cases s) (auto simp: io_finally_def io_bind_def io_throw_def io_return_def)
qed

lemma passes_log:
  "passes (\<lambda>_. log_files calls) (\<lambda>_. ())" "passes (\<lambda>a. io_bind (close_socket fd) (\<lambda>_. io_return a)) id"
  by (simp_all add: passes_def log_files_def close_socket_def io_bind_def io_return_def)

lemma prints_lines: "Q a (map (Pair stream) ls) \<Longrightarrow> prints (io_bind (print_lines stream ls) (\<lambda>_. io_return a)) Q"
  by (auto simp: prints_def print_lines_def io_bind_def io_return_def)

section \<open>The client\<close>

text \<open>A report on a transfer, with some final state and end time.\<close>

definition reports ::
    "u64 \<Rightarrow> u32 \<Rightarrow> client_state \<times> complete_ack_payload \<Rightarrow> printed_line list \<Rightarrow> bool" where
  "reports file_size sid = (\<lambda>(st, completed) ls. \<exists>cfg end_time.
     cc_size cfg = file_size \<and> cc_session_id cfg = sid \<and>
     ls = map (Pair Cout) (client_report cfg st completed end_time))"

lemma prints_client_transfer:
  "prints (client_transfer options cfg) (reports (cc_size cfg) (cc_session_id cfg))"
  unfolding client_transfer_def
  by (rule prints_after, intro printed.keeps_client_exchange printed_keeps)
    (auto intro!: prints_lines simp: reports_def)

lemma prints_send_file:
  assumes sid: "\<And>sid. random_session_id randoms = Some sid \<Longrightarrow> R = reports (mf_size f) sid"
  shows "prints (send_file getaddrinfo contents socket_fd discover_rc randoms options f) R"
proof -
  have session: "prints (client_session discover_rc randoms options data (mf_size f) c n server) R" for data c n server
  proof (cases "random_session_id randoms")
    case (Some i)
    then show ?thesis
      unfolding client_session_def Some option.case sid [OF Some]
      by (intro prints_if prints_throw prints_after printed.keeps_start_handshake printed_keeps)
        (use prints_client_transfer in \<open>metis client_config.select_convs(2,4)\<close>)
  qed (simp add: client_session_def prints_throw)
  show ?thesis
    unfolding send_file_def
    by (intro prints_after printed.keeps_sum prints_if prints_throw prints_on_throw prints_then session
        passes_log printed_keeps)
qed

lemma prints_run_client:
  "prints (run_client getaddrinfo k contents socket_fd discover_rc randoms options)
     (\<lambda>report ls. \<exists>f sid. fst (open_input k (co_file options)) = Inr f \<and>
        random_session_id randoms = Some sid \<and> reports (mf_size f) sid report ls)"
proof -
  obtain input calls where o: "open_input k (co_file options) = (input, calls)" by fastforce
  show ?thesis
  proof (cases input)
    case (Inr f)
    let ?Q = "\<lambda>report ls. \<exists>sid. random_session_id randoms = Some sid \<and> reports (mf_size f) sid report ls"
    have "prints (send_file getaddrinfo contents socket_fd discover_rc randoms options f) ?Q"
      by (rule prints_send_file) (simp add: fun_eq_iff)
    then show ?thesis
      by (auto simp: run_client_def o Inr intro!: prints_after printed_keeps prints_finally passes_log)
  qed (auto simp: run_client_def o intro!: prints_after printed_keeps prints_throw)
qed

section \<open>The server\<close>

text \<open>Nothing but the waiting line and the report is printed.\<close>

lemma printed_send_packet: "printed.keeps (send_packet dest h p n)"
  by (intro printed.keeps_send_packet printed_keeps)

lemma printed_sends:
  "printed.keeps (send_start_ack client sid response)" "printed.keeps (send_ack client sid k tracker bits)"
  unfolding send_start_ack_def send_ack_def Let_def by (intro printed.keeps_intros printed_send_packet)+

lemma printed_handle_packet: "printed.keeps (handle_packet k f sess source packet st)"
  unfolding handle_packet_def handle_complete_def handle_data_def answer_start_def sync_file_def
    send_state_ack_def Let_def case_prod_beta
  by (intro printed.keeps_intros printed_sends printed_keeps printed_send_packet)

lemmas printed_receive_packet = printed.keeps_receive_packet [OF printed_keeps(3)]

lemmas printed_serve_loop = printed.keeps_serve_loop [OF printed_receive_packet printed_handle_packet]

lemmas printed_await_start = printed.keeps_await_start [OF printed_receive_packet printed_sends(1)]

lemma printed_time_wait: "printed.keeps (time_wait client sid n payload)"
  by (intro printed.keeps_time_wait printed_keeps)
    (unfold time_wait_round_def, intro printed.keeps_intros printed_keeps printed_send_packet)

lemma serve_transfer_printed:
  assumes ok: "session_ok sess" and run: "serve_transfer k f fd sess w = (r, w')"
  shows "(wd_printed w' = wd_printed w \<and> (\<forall>u. r \<noteq> Returned u)) \<or>
    (\<exists>st. server_inv sess st \<and> complete (sv_tracker st) \<and> wd_flushed w' = wd_flushed w @ [sv_output st] \<and>
       wd_printed w' = wd_printed w @ map (Pair Cout) (server_report sess st))"
proof -
  let ?rest = "\<lambda>p. io_bind (time_wait (ss_client sess) (ss_session_id sess) (sp_total_chunks (ss_start sess)) p)
    (\<lambda>_. close_socket fd)"
  let ?pre = "io_bind (send_start_ack (ss_client sess) (ss_session_id sess) (ss_accepted sess)) (\<lambda>_. clock_now)"
  let ?loop = "\<lambda>now. serve_loop k f sess (init_server_state sess now)"
  have split: "serve_transfer k f fd sess = io_bind (io_bind ?pre ?loop)
      (\<lambda>(st, p). io_bind (print_lines Cout (server_report sess st)) (\<lambda>_. ?rest p))"
    by (simp add: serve_transfer_def conclude_transfer_def fun_eq_iff io_bind_def split: prod.splits outcome.splits)
  obtain x w1 where main: "io_bind ?pre ?loop w = (x, w1)" by fastforce
  have "printed.keeps (io_bind ?pre ?loop)"
    by (intro printed.keeps_intros printed_sends printed_keeps printed_serve_loop)
  then have p1: "wd_printed w1 = wd_printed w" using main by (rule printed.keepsD)
  show ?thesis
  proof (cases "\<exists>y. x = Returned y")
    case True
    then obtain st p where x: "x = Returned (st, p)" by auto
    obtain now v where pre: "?pre w = (Returned now, v)" and loop: "?loop now v = (Returned (st, p), w1)"
      using main x by (simp only: io_bind_returned) blast
    have "quiet.keeps undefined ?pre" by (intro quiet.keeps_intros quiet_sends quiet_keeps)
    from quiet.keepsD [OF this pre] have "wd_flushed v = wd_flushed w" by (simp add: quiet_def)
    with serve_loop_completes [OF ok init_server_inv(1) [OF ok] loop]
    have st: "server_inv sess st" "complete (sv_tracker st)" "wd_flushed w1 = wd_flushed w @ [sv_output st]"
      by simp_all
    let ?w2 = "w1\<lparr>wd_printed := wd_printed w1 @ map (Pair Cout) (server_report sess st)\<rparr>"
    have rest: "?rest p ?w2 = (r, w')" using run main x by (simp add: split io_bind_def print_lines_def)
    have "printed.keeps (?rest p)" "no_flush.keeps (?rest p)"
      by (intro printed.keeps_intros printed_time_wait printed_keeps)
        (intro no_flush.keeps_intros no_flush.keeps_time_wait no_flush_keeps,
         unfold time_wait_round_def, intro no_flush.keeps_intros no_flush_send_packet no_flush_keeps)
    from printed.keepsD [OF this(1) rest] no_flush.keepsD [OF this(2) rest] st p1 show ?thesis by auto
  next
    case False
    then have "w' = w1" "\<forall>u. r \<noteq> Returned u" using run main by (cases x; auto simp: split io_bind_def)+
    then show ?thesis using p1 by simp
  qed
qed

text \<open>What the server adds to its output when it listens: nothing more, or the report of a transfer whose
  output has been flushed.\<close>

definition transfer_reported :: "world \<Rightarrow> world \<Rightarrow> bool" where
  "transfer_reported w w' \<longleftrightarrow> (\<exists>sess st. session_ok sess \<and> server_inv sess st \<and>
     complete (sv_tracker st) \<and> wd_flushed w' = wd_flushed w @ [sv_output st] \<and>
     wd_printed w' = wd_printed w @ map (Pair Cout) (server_report sess st))"

lemma serve_client_printed:
  assumes "serve_client k path mtu fd w = (r, w')"
  shows "(wd_printed w' = wd_printed w \<and> (\<forall>u. r \<noteq> Returned u)) \<or> transfer_reported w w'"
  using assms
proof (cases rule: serve_client_cases)
  case (waiting s)
  then show ?thesis using printed.keepsD [OF printed_await_start waiting(1)] by (cases s) auto
next
  case (no_file client sid start w1 e calls q)
  then show ?thesis
    using printed.keepsD [OF printed_await_start no_file(1)] printed.keepsD [OF printed_sends(1) no_file(3)]
    by (auto split: outcome.splits)
next
  case (transfer client sid start w1 f calls w3)
  have w1: "wd_printed w1 = wd_printed w" by (rule printed.keepsD [OF printed_await_start transfer(1)])
  have fl: "wd_flushed w1 = wd_flushed w"
    using quiet.keepsD [OF quiet_await_start transfer(1)] by (simp add: quiet_def)
  have "session_ok \<lparr>ss_client = client, ss_session_id = sid, ss_start = start, ss_accepted = acceptance start\<rparr>"
    using await_start_arrived [OF transfer(1)]
    by (auto simp: session_ok_def valid_start_def split: sum.splits if_splits)
  from serve_transfer_printed [OF this transfer(3)] this transfer(4) w1 fl show ?thesis
    by (auto simp: transfer_reported_def)
qed

lemma run_server_printed:
  assumes "run_server fd rcvbuf_rc bind_rc k options w = (r, w')"
  shows "if 0 \<le> fd \<and> rcvbuf_rc = 0 \<and> bind_rc = 0
    then (\<exists>v. wd_printed v = wd_printed w @ [(Cout, waiting_line options)] \<and> wd_flushed v = wd_flushed w \<and>
      ((wd_printed w' = wd_printed v \<and> (\<forall>u. r \<noteq> Returned u)) \<or> transfer_reported v w'))
    else wd_printed w' = wd_printed w \<and> (\<forall>u. r \<noteq> Returned u)"
proof (cases "0 \<le> fd \<and> rcvbuf_rc = 0 \<and> bind_rc = 0")
  case True
  let ?v = "w\<lparr>wd_printed := wd_printed w @ [(Cout, waiting_line options)]\<rparr>"
  obtain s u where s: "serve_client k (so_output options) (so_mtu options) fd ?v = (s, u)" by fastforce
  have "wd_printed w' = wd_printed u" "wd_flushed w' = wd_flushed u" "\<forall>x. r = Returned x \<longrightarrow> s = Returned x"
    using assms True s
    by (auto simp: run_server_def io_defs close_socket_def print_lines_def split: outcome.splits)
  with serve_client_printed [OF s]
  have "(wd_printed w' = wd_printed ?v \<and> (\<forall>u. r \<noteq> Returned u)) \<or> transfer_reported ?v w'"
    by (auto simp: transfer_reported_def)
  moreover have "wd_printed ?v = wd_printed w @ [(Cout, waiting_line options)]" "wd_flushed ?v = wd_flushed w"
    by simp_all
  ultimately show ?thesis using True by meson
next
  case False
  then show ?thesis using assms
    by (auto simp: run_server_def io_defs throw_errno_def close_socket_def split: if_splits)
qed

end
