(* ===== verification/Ack_Exchange.thy ===== *)
theory Ack_Exchange
  imports Receiver_Tracker Sender_Properties
begin

text \<open>
  The two halves of the reliability layer put together: what a SACK snapshot of the receiver does to
  the window of the sender, through the wire format.
\<close>

section \<open>What a snapshot acknowledges\<close>

lemma snapshot_acknowledges:
  assumes "tracker_inv t"
  shows "acknowledges (make_ack_snapshot t bits) i \<longleftrightarrow>
    i \<in> received_set t \<and> i < first_gap (received_set t) + unat bits \<or>
    i < first_gap (received_set t)"
proof -
  let ?g = "first_gap (received_set t)"
  note B = snapshot_bitmap [OF assms, where bits = bits]
  note C = rt.unat_cum [OF assms] and U = unat_largest [OF assms]
  have up: "i < upper_end (received_set t)" if "i \<in> received_set t" for i
    using less_upper_end [OF finite_received_set that] .
  have le: "unat bits \<le> 8 * bitmap_bytes bits" by (simp add: bitmap_bytes_def)
  show ?thesis
  proof (cases "?g \<le> i \<and> i - ?g < 8 * bitmap_bytes bits")
    case True
    then show ?thesis
      using B(1) B(2) [of "i - ?g"] C U up [of i] by (auto simp: acknowledges_def)
  next
    case False
    then show ?thesis
      using B(1) C U le by (auto simp: acknowledges_def)
  qed
qed

text \<open>A snapshot acknowledges only received chunks.\<close>

lemma snapshot_sound:
  "tracker_inv t \<Longrightarrow> acknowledges (make_ack_snapshot t bits) i \<Longrightarrow> i \<in> received_set t"
  by (auto simp: snapshot_acknowledges intro: below_first_gap)

lemma snapshot_wire:
  assumes "tracker_inv t"
  shows "\<exists>bs. serialize_ack (make_ack_snapshot t bits) = Inr bs \<and>
    deserialize_ack (Some bs) (length bs) = Some (make_ack_snapshot t bits)"
proof -
  obtain bs where "serialize_ack (make_ack_snapshot t bits) = Inr bs"
    using snapshot_bitmap(1) [OF assms, where bits = bits] by (auto simp: serialize_ack_layout)
  moreover from this have "deserialize_ack (Some bs) (length bs) = Some (make_ack_snapshot t bits)"
    by (rule ack_codec.de_ser)
  ultimately show ?thesis by blast
qed

section \<open>Properties\<close>

text \<open>C5: A SACK makes the sender know exactly what the receiver has.  If the receiver's chunks have
  all been sent, the sender's acknowledged chunks have all been received, and the window was made
  with the default SACK coverage, then sending the receiver's snapshot over the wire and
  processing it leaves the sender's acknowledged set equal to the receiver's received set, its base
  equal to the receiver's cumulative ACK, and the transfer finished at the sender exactly when it is
  complete at the receiver.\<close>

theorem ack_exchange_synchronises:
  assumes "tracker_inv t" and "sender_reachable n l (ucast kDefaultAckBitmapBits) t0 w"
    and "length (rt_received t) = unat n"
    and "acked_set w \<subseteq> received_set t" and "received_set t \<subseteq> {..<unat (sw_next_sequence w)}"
    and "serialize_ack (make_ack_snapshot t kDefaultAckBitmapBits) = Inr bs"
    and "deserialize_ack (Some bs) (length bs) = Some ack"
  shows "acked_set (process_ack w ack now) = received_set t \<and>
    sw_base (process_ack w ack now) = rt_cumulative_ack t \<and>
    all_acked (process_ack w ack now) = complete t"
proof -
  let ?R = "received_set t" and ?w = "process_ack w ack now"
  have inv: "sw_inv w" and tot: "sw_total_chunks w = n" and cov: "sw_sack_coverage_chunks w = ucast kDefaultAckBitmapBits"
    using reachable_inv [OF assms(2)] by simp_all
  have ack: "ack = make_ack_snapshot t kDefaultAckBitmapBits"
    using snapshot_wire [OF assms(1), of kDefaultAckBitmapBits] assms(6,7) by auto
  have 8: "unat kDefaultAckBitmapBits = 8192" by (simp add: kDefaultAckBitmapBits_def)
  have "unat (sw_base w) \<le> first_gap ?R"
    using sw_invD(5) [OF inv] first_gap_subset_mono [OF finite_received_set assms(4)] by simp
  then have "i < first_gap ?R + 8192" if "i \<in> ?R" for i
    using window_okD(8) [OF sw_invD(2) [OF inv]] cov assms(5) that
    by (auto simp: kDefaultAckBitmapBits_def subset_iff)
  then have ackn: "acknowledges ack i \<longleftrightarrow> i \<in> ?R" for i
    using snapshot_acknowledges [OF assms(1), of kDefaultAckBitmapBits i] below_first_gap [of i ?R]
    by (auto simp: ack 8)
  note P = process_ack_inv [OF inv, of ack now]
  have set: "acked_set ?w = ?R" using P(4) assms(4,5) by (auto simp: ackn)
  have "unat (sw_base ?w) = unat (rt_cumulative_ack t)"
    using sw_invD(5) [OF P(1)] rt.unat_cum [OF assms(1)] set by simp
  moreover have "all_acked ?w = complete t"
    using all_acked_iff [OF P(1)] rt.full_iff [OF assms(1)] P(2) tot assms(3) set
    by (simp add: same_frame_def)
  ultimately show ?thesis using set by (simp add: word_unat_eq_iff)
qed

theorem ack_exchange_synchronises_witness:
  "\<exists>w bs ack.
     make_sender_window 8 6 (ucast kDefaultAckBitmapBits) 0 = Inr w \<and>
     serialize_ack (make_ack_snapshot (snd (mark_received (make_tracker 8) 1))
       kDefaultAckBitmapBits) = Inr bs \<and>
     deserialize_ack (Some bs) (length bs) = Some ack \<and>
     acked_set (process_ack (fold perform [Select, Select] w) ack 1) = {1}"
proof -
  let ?t = "snd (mark_received (make_tracker 8) 1)"
  have inv: "tracker_inv ?t" by (intro rt.inv_mark rt.inv_mk)
  have len: "length (rt_received ?t) = unat (8 :: u32)"
    by (simp add: rt.total_mark [OF rt.inv_mk] rt.total_mk)
  have R: "received_set ?t = {1}"
    by (simp add: rt.rset_mark [OF rt.inv_mk] rt.rset_mk rt.total_mk)
  obtain w where w: "make_sender_window 8 6 (ucast kDefaultAckBitmapBits) 0 = Inr w"
    by (simp add: make_sender_window_def kDefaultAckBitmapBits_def)
  let ?w = "fold perform [Select, Select] w"
  have reach: "sender_reachable 8 6 (ucast kDefaultAckBitmapBits) 0 ?w"
    by (intro reachable_run sender_reachable.created w)
  have "sw_next_sequence ?w = 2 \<and> acked_set ?w = {}"
    using w by (auto simp: make_sender_window_def kDefaultAckBitmapBits_def select_next_packet_def
        can_send_new_def acked_set_def fresh_chunk_def split: if_splits)
  then have 2: "acked_set ?w \<subseteq> received_set ?t"
    "received_set ?t \<subseteq> {..<unat (sw_next_sequence ?w)}" by (simp_all add: R)
  obtain bs where bs: "serialize_ack (make_ack_snapshot ?t kDefaultAckBitmapBits) = Inr bs"
    "deserialize_ack (Some bs) (length bs) = Some (make_ack_snapshot ?t kDefaultAckBitmapBits)"
    using snapshot_wire [OF inv] by blast
  from ack_exchange_synchronises [OF inv reach len 2 bs, of 1] w bs R show ?thesis by blast
qed

end
