(* ===== verification/Server_Properties.thy ===== *)
theory Server_Properties
  imports Server_Invariant Ack_Exchange
begin

unbundle bit_operations_syntax

text \<open>
  The properties of the server.
\<close>

section \<open>Accepting a START\<close>

lemma valid_start_true:
  "valid_start mtu start = Inr True \<longleftrightarrow>
     chunk_size_for_mtu mtu = Inr (sp_chunk_size start) \<and>
     chunk_count (sp_file_size start) (sp_chunk_size start) = Inr (sp_total_chunks start) \<and>
     0 < sp_window_chunks start \<and> sp_ack_bitmap_bits start = kDefaultAckBitmapBits"
  by (auto simp: valid_start_def split: sum.splits if_splits)

lemma start_of_Some:
  "start_of packet = Some start \<Longrightarrow>
     ptype (view_header packet) = START \<and> session_id (view_header packet) \<noteq> 0"
  by (auto simp: start_of_def Let_def split: if_splits)

lemma await_start_returned:
  "await_start mtu w = (Returned (client, sid, start), w') \<Longrightarrow>
     sid \<noteq> 0 \<and> valid_start mtu start = Inr True"
proof (induction mtu w arbitrary: w' rule: await_start.induct)
  case (1 mtu w)
  obtain c packet w1 where recv: "receive_packet w = (Returned (c, packet), w1)"
    using 1(3) by (subst (asm) await_start.simps) (auto split: prod.splits outcome.splits)
  show ?case
  proof (cases "start_of packet")
    case None
    with 1(3) have "await_start mtu w1 = (Returned (client, sid, start), w')"
      by (simp add: await_start.simps [of mtu w] recv)
    then show ?thesis by (rule 1(1) [OF recv [symmetric] refl refl None])
  next
    case (Some st)
    then obtain valid where v: "valid_start mtu st = Inr valid"
      using 1(3) by (cases "valid_start mtu st") (auto simp: await_start.simps [of mtu w] recv)
    show ?thesis
    proof (cases valid)
      case True
      with 1(3) v Some start_of_Some [OF Some] show ?thesis
        by (auto simp: await_start.simps [of mtu w] recv)
    next
      case False
      then obtain u w2 where send: "send_start_ack c (session_id (view_header packet))
          (rejection INVALID_REQUEST) w1 = (Returned u, w2)"
        and rest: "await_start mtu w2 = (Returned (client, sid, start), w')"
        using 1(3) v Some
        by (auto simp: await_start.simps [of mtu w] recv split: prod.splits outcome.splits)
      show ?thesis
        by (rule 1(2) [OF recv [symmetric] refl refl Some v _ send [symmetric] refl rest]) (use False in simp)
    qed
  qed
qed

section \<open>An example session\<close>

lemma parses_header:
  assumes "sendable_header h" and "length bs + 24 \<le> kReceiveBufferBytes"
  shows "parses_to (header_bytes h (length bs) @ bs)
    \<lparr>view_header = sent_header h (length bs), view_payload = Some bs, view_payload_size = length bs\<rparr>"
  using assms deserialize_header_bytes [of h bs]
  by (simp add: parses_to_def kReceiveBufferBytes_def)

lemma receive_one:
  assumes "parses_to bs packet" and "wd_recvs w = Datagram source bs # rs"
  shows "receive_packet w = (Returned (source, packet), w\<lparr>wd_recvs := rs\<rparr>)"
  using assms
  by (subst receive_packet.simps) (simp add: recvfrom_def parses_to_def del: length_take)

lemma send_packet_ok:
  assumes "serialize_packet h p n = Inr d" and "wd_sends w = Sent (length d) # rs"
  shows "send_packet dest h p n w =
    (Returned (), w\<lparr>wd_sends := rs, wd_sent := wd_sent w @ [(dest, d)]\<rparr>)"
  using assms by (simp add: send_packet_def io_defs send_loop.simps sendto_def)

definition example_client :: endpoint where
  "example_client = \<lparr>sin_family = 2, sin_port = 40000, sin_addr = 1\<rparr>"

definition idle_world :: world where
  "idle_world = \<lparr>wd_recvs = [], wd_polls = [], wd_sends = [], wd_clock = [], wd_strerror = [],
     wd_sent = [], wd_polled = [], wd_files = [], wd_flushed = [], wd_closed = [], wd_printed = []\<rparr>"

definition example_server_options :: server_options where
  "example_server_options = \<lparr>so_output = ''out'', so_port = 9000, so_mtu = 1500\<rparr>"

text \<open>A file of one byte, in one chunk.\<close>

definition example_session_start :: start_payload where
  "example_session_start = \<lparr>sp_file_size = 1, sp_chunk_size = 1448, sp_total_chunks = 1, sp_window_chunks = 5794,
     sp_ack_bitmap_bits = kDefaultAckBitmapBits, sp_ack_interval_ms = 10\<rparr>"

definition example_session :: session where
  "example_session = \<lparr>ss_client = example_client, ss_session_id = 77,
     ss_start = example_session_start, ss_accepted = acceptance example_session_start\<rparr>"

definition example_start_datagram :: bytes where
  "example_start_datagram =
     header_bytes (make_header START 77 0) 24 @ serialize_start example_session_start"

definition example_start_view :: packet_view where
  "example_start_view = \<lparr>view_header = sent_header (make_header START 77 0) 24,
     view_payload = Some (serialize_start example_session_start), view_payload_size = 24\<rparr>"

lemma sendable_make_header [simp]: "sendable_header (make_header t sid n)"
  by (simp add: sendable_header_def make_header_def default_header_def)

lemma sent_make_header [simp]:
  "ptype (sent_header (make_header t sid n) k) = t"
  "session_id (sent_header (make_header t sid n) k) = sid"
  "number (sent_header (make_header t sid n) k) = n"
  "flags (sent_header (make_header t sid n) k) = 0"
  by (simp_all add: sent_header_def make_header_def default_header_def)

lemma length_serialize_start [simp]: "length (serialize_start p) = 24"
  by (simp add: serialize_start_layout)

lemma example_start_parses: "parses_to example_start_datagram example_start_view"
  using parses_header [of "make_header START 77 0" "serialize_start example_session_start"]
  by (simp add: example_start_datagram_def example_start_view_def kReceiveBufferBytes_def)

lemma example_start_of: "start_of example_start_view = Some example_session_start"
  using start_codec.de_ser [of example_session_start "serialize_start example_session_start"]
  by (simp add: start_of_def example_start_view_def)

lemma example_start_session: "session_id (view_header example_start_view) = 77"
  by (simp add: example_start_view_def)

lemma idle_world_no_recvs: "idle_world\<lparr>wd_recvs := []\<rparr> = idle_world"
  by (simp add: idle_world_def)

lemma example_session_ok: "session_ok example_session"
  by (simp add: session_ok_def example_session_def example_session_start_def chunk_count_def)

lemma example_valid_start: "valid_start 1500 example_session_start = Inr True"
  by (simp add: valid_start_true example_session_start_def chunk_count_def chunk_size_for_mtu_def
      kIpv4UdpOverhead_def kHeaderSize_def)

text \<open>Its one DATA packet and the COMPLETE that follows it.\<close>

definition example_view :: "packet_type \<Rightarrow> u32 \<Rightarrow> bytes \<Rightarrow> packet_view" where
  "example_view t n bs = \<lparr>view_header = sent_header (make_header t 77 n) (length bs),
     view_payload = Some bs, view_payload_size = length bs\<rparr>"

definition example_datagram :: "packet_type \<Rightarrow> u32 \<Rightarrow> bytes \<Rightarrow> bytes" where
  "example_datagram t n bs = header_bytes (make_header t 77 n) (length bs) @ bs"

lemma example_parses: "length bs \<le> 65511 \<Longrightarrow> parses_to (example_datagram t n bs) (example_view t n bs)"
  using parses_header [of "make_header t 77 n" bs]
  by (simp add: example_datagram_def example_view_def kReceiveBufferBytes_def)

lemma example_view_simps [simp]:
  "ptype (view_header (example_view t n bs)) = t"
  "session_id (view_header (example_view t n bs)) = 77"
  "number (view_header (example_view t n bs)) = n"
  "flags (view_header (example_view t n bs)) = 0"
  "view_payload (example_view t n bs) = Some bs"
  "view_payload_size (example_view t n bs) = length bs"
  "view_ok (example_view t n bs)"
  by (simp_all add: example_view_def view_ok_def)

lemma example_session_simps [simp]:
  "ss_client example_session = example_client" "ss_session_id example_session = 77"
  "ss_start example_session = example_session_start"
  "sp_total_chunks example_session_start = 1" "sp_file_size example_session_start = 1"
  "sp_chunk_size example_session_start = 1448"
  by (simp_all add: example_session_def example_session_start_def)

lemma example_chunk [simp]: "chunk_length 1 1448 0 = 1" "chunk_offset 0 1448 = 0"
  by (simp_all add: chunk_length_def chunk_offset_def Let_def)

lemma send_ack_ok:
  assumes "tracker_inv tracker"
  shows "\<exists>n d. is_ack_datagram sid tracker bits d \<and>
    (\<forall>w rs. wd_sends w = Sent n # rs \<longrightarrow> send_ack dest sid k tracker bits w =
       (Returned (), w\<lparr>wd_sends := rs, wd_sent := wd_sent w @ [(dest, d)]\<rparr>))"
proof -
  obtain bs where bs: "serialize_ack (make_ack_snapshot tracker bits) = Inr bs"
    using snapshot_wire [OF assms] by blast
  let ?h = "(make_header ACK sid k)\<lparr>flags := FLAG_SACK\<rparr>"
  have "length bs \<le> 65535" using ack_codec.ser_fits [OF bs] .
  then have d: "serialize_packet ?h (Some bs) (length bs) = Inr (header_bytes ?h (length bs) @ bs)"
    by (simp add: serialize_packet_layout)
  show ?thesis
    using bs d send_packet_ok [OF d]
    by (intro exI [of _ "length (header_bytes ?h (length bs) @ bs)"]
        exI [of _ "header_bytes ?h (length bs) @ bs"])
      (auto simp: is_ack_datagram_def send_ack_def io_defs)
qed

text \<open>The state after the DATA packet, and a kernel on which every call succeeds.\<close>

definition example_done :: "u8 \<Rightarrow> server_state" where
  "example_done b =
     \<lparr>sv_tracker = snd (mark_received (make_tracker 1) 0), sv_output = [b], sv_ack_pending = False,
      sv_packets_since_ack = 0, sv_next_ack_time = 5 + ack_interval example_session, sv_ack_number = 1,
      sv_duplicate_packets = 0, sv_received_first_data = True, sv_first_data_time = 4,
      sv_last_data_time = 4\<rparr>"

definition example_kernel :: file_kernel where
  "example_kernel = \<lparr>fk_open = \<lambda>_. 3, fk_fstat = \<lambda>_. (0, 1), fk_ftruncate = \<lambda>_ _. 0,
     fk_mmap = \<lambda>_ _. Some 4096, fk_msync = \<lambda>_ _. 0, fk_strerror = []\<rparr>"

definition example_output :: mapped_file where
  "example_output = \<lparr>mf_fd = 3, mf_data = Some 4096, mf_size = 1\<rparr>"

lemma example_mark:
  "snd (mark_received (make_tracker 1) 0) =
     \<lparr>rt_received = [1], rt_received_count = 1, rt_cumulative_ack = 1, rt_largest_received_plus_one = 1\<rparr>"
  by code_simp

lemma example_done_inv: "tracker_inv (sv_tracker (example_done b))"
  by (simp add: example_done_def rt.inv_mark rt.inv_mk)

lemma example_complete: "complete (sv_tracker (example_done b))"
  "rt_cumulative_ack (sv_tracker (example_done b)) = 1"
  by (simp_all add: example_done_def example_mark complete_def)

lemma example_done_output: "sv_output (example_done b) = [b]"
  by (simp add: example_done_def)

lemma example_not_received: "\<not> has_received (make_tracker n) s"
  by (simp add: has_received_def make_tracker_def)

lemma example_handle_data:
  "\<exists>n d. is_ack_datagram 77 (sv_tracker (example_done b)) (sa_accepted_bitmap_bits (acceptance example_session_start)) d \<and>
    (\<forall>w rs. wd_clock w = [4, 5] \<longrightarrow> wd_sends w = Sent n # rs \<longrightarrow>
     handle_data example_session (example_view DATA 0 [b]) (init_server_state example_session 1) w =
     (Returned (example_done b), w\<lparr>wd_clock := [], wd_sends := rs,
        wd_sent := wd_sent w @ [(example_client, d)]\<rparr>))"
proof -
  let ?bits = "sa_accepted_bitmap_bits (acceptance example_session_start)"
  let ?st3 = "(example_done b)\<lparr>sv_ack_pending := True, sv_packets_since_ack := 1, sv_ack_number := 0\<rparr>"
  obtain n d where d: "is_ack_datagram 77 (sv_tracker (example_done b)) ?bits d"
    "\<And>w rs. wd_sends w = Sent n # rs \<Longrightarrow> send_ack example_client 77 0 (sv_tracker (example_done b)) ?bits w =
       (Returned (), w\<lparr>wd_sends := rs, wd_sent := wd_sent w @ [(example_client, d)]\<rparr>)"
    using send_ack_ok [OF example_done_inv, of 77 b ?bits example_client 0] by blast
  have acc: "ss_accepted example_session = acceptance example_session_start"
    by (simp add: example_session_def)
  have st: "start_ack_timer example_session 5 ((store_chunk example_session 0 (example_view DATA 0 [b]) 4
      (init_server_state example_session 1))\<lparr>sv_packets_since_ack := 1\<rparr>) = ?st3"
    by (simp add: start_ack_timer_def store_chunk_def init_server_state_def example_done_def Let_def
        memcpy_at_def)
  have snd: "wd_sends w = Sent n # rs \<Longrightarrow> send_state_ack example_session ?st3 w =
      (Returned (), w\<lparr>wd_sends := rs, wd_sent := wd_sent w @ [(example_client, d)]\<rparr>)" for w rs
    using d(2) [of w rs] by (simp add: send_state_ack_def acc example_done_def)
  have due: "should_send_ack dup (example_view DATA 0 [b]) 5 ?st3" for dup
    using example_complete(1) [of b] by (simp add: should_send_ack_def example_done_def)
  have init: "sv_tracker (init_server_state example_session 1) = make_tracker 1"
    "sv_packets_since_ack (store_chunk example_session 0 (example_view DATA 0 [b]) 4
      (init_server_state example_session 1)) = 0"
    by (simp_all add: init_server_state_def store_chunk_def Let_def)
  have "handle_data example_session (example_view DATA 0 [b]) (init_server_state example_session 1) w =
     (Returned (example_done b), w\<lparr>wd_clock := [], wd_sends := rs,
        wd_sent := wd_sent w @ [(example_client, d)]\<rparr>)"
    if "wd_clock w = [4, 5]" "wd_sends w = Sent n # rs" for w rs
    using snd [of "w\<lparr>wd_clock := []\<rparr>" rs] due that
    by (simp add: handle_data_def init example_not_received io_defs clock_now_def st Let_def)
      (simp add: example_done_def)
  then show ?thesis using d(1) by blast
qed

lemma example_endpoint [simp]: "same_endpoint e e"
  by (simp add: same_endpoint_def)

lemma example_sync: "sync_output example_kernel example_output = (Inr (), [Msync_call 4096 1])"
  by (simp add: sync_output_def example_kernel_def example_output_def)

lemma example_handle_complete:
  "\<exists>n d. is_complete_ack_datagram example_session
      (serialize_complete_ack (completion_payload example_session (example_done b))) d \<and>
    (\<forall>w rs. wd_sends w = Sent n # rs \<longrightarrow>
     handle_complete example_kernel example_output example_session (example_view COMPLETE 1 [])
        (example_done b) w =
     (Returned (Completed (example_done b) (serialize_complete_ack (completion_payload example_session (example_done b)))),
      w\<lparr>wd_sends := rs, wd_files := wd_files w @ [Msync_call 4096 1], wd_flushed := wd_flushed w @ [[b]],
        wd_sent := wd_sent w @ [(example_client, d)]\<rparr>))"
proof -
  let ?bs = "serialize_complete_ack (completion_payload example_session (example_done b))"
  have len: "length ?bs \<le> 65535" by (simp add: serialize_complete_ack_layout)
  let ?d = "header_bytes (make_header COMPLETE_ACK 77 1) (length ?bs) @ ?bs"
  have d: "serialize_packet (make_header COMPLETE_ACK 77 1) (Some ?bs) (length ?bs) = Inr ?d"
    using len by (simp add: serialize_packet_layout)
  have "handle_complete example_kernel example_output example_session (example_view COMPLETE 1 [])
        (example_done b) w =
     (Returned (Completed (example_done b) ?bs),
      w\<lparr>wd_sends := rs, wd_files := wd_files w @ [Msync_call 4096 1], wd_flushed := wd_flushed w @ [[b]],
        wd_sent := wd_sent w @ [(example_client, ?d)]\<rparr>)" if "wd_sends w = Sent (length ?d) # rs" for w rs
    using send_packet_ok [OF d, of "w\<lparr>wd_files := wd_files w @ [Msync_call 4096 1], wd_flushed := wd_flushed w @ [[b]]\<rparr>" rs example_client] that
    by (simp add: handle_complete_def Let_def example_complete sync_file_def example_sync io_defs
        log_files_def log_flushed_def example_done_output)
  with d show ?thesis unfolding is_complete_ack_datagram_def
    by (intro exI [of _ "length ?d"] exI [of _ ?d]) simp
qed

lemma example_handle_packet:
  "handle_packet k f example_session example_client (example_view DATA n bs) st =
     io_bind (handle_data example_session (example_view DATA n bs) st) (\<lambda>st'. io_return (Continue st'))"
  "handle_packet k f example_session example_client (example_view COMPLETE n bs) st =
     handle_complete k f example_session (example_view COMPLETE n bs) st"
  by (simp_all add: handle_packet_def)

lemma example_run:
  "\<exists>sends w'. serve_loop example_kernel example_output example_session (init_server_state example_session 1)
     (idle_world\<lparr>wd_recvs := [Datagram example_client (example_datagram DATA 0 [b]),
        Datagram example_client (example_datagram COMPLETE 1 [])], wd_clock := [4, 5], wd_sends := sends\<rparr>) =
     (Returned (example_done b, serialize_complete_ack (completion_payload example_session (example_done b))), w')"
proof -
  obtain n d where D: "\<And>w rs. wd_clock w = [4, 5] \<Longrightarrow> wd_sends w = Sent n # rs \<Longrightarrow>
     handle_data example_session (example_view DATA 0 [b]) (init_server_state example_session 1) w =
     (Returned (example_done b), w\<lparr>wd_clock := [], wd_sends := rs, wd_sent := wd_sent w @ [(example_client, d)]\<rparr>)"
    using example_handle_data [of b] by blast
  obtain n' d' where C: "\<And>w rs. wd_sends w = Sent n' # rs \<Longrightarrow>
     handle_complete example_kernel example_output example_session (example_view COMPLETE 1 []) (example_done b) w =
     (Returned (Completed (example_done b) (serialize_complete_ack (completion_payload example_session (example_done b)))),
      w\<lparr>wd_sends := rs, wd_files := wd_files w @ [Msync_call 4096 1], wd_flushed := wd_flushed w @ [[b]],
        wd_sent := wd_sent w @ [(example_client, d')]\<rparr>)"
    using example_handle_complete [of b] by blast
  have P: "wd_recvs w = Datagram example_client (example_datagram t m bs) # rs \<Longrightarrow> length bs \<le> 65511 \<Longrightarrow>
      receive_packet w = (Returned (example_client, example_view t m bs), w\<lparr>wd_recvs := rs\<rparr>)" for w t m bs rs
    using receive_one [OF example_parses] .
  show ?thesis
    by (intro exI [of _ "[Sent n, Sent n']"], subst serve_loop.simps, subst serve_loop.simps)
      (simp add: P example_handle_packet io_bind_def io_return_def D C)
qed

text \<open>One round of the time wait answers at most once, and only a datagram it received.\<close>

lemma time_wait_round_sends:
  assumes "time_wait_round client sid n payload deadline w = (Returned next_deadline, w')"
  shows "(wd_sent w' = wd_sent w \<and> length (wd_recvs w') \<le> length (wd_recvs w)) \<or>
    (\<exists>d. serialize_packet (make_header COMPLETE_ACK sid n) (Some payload) (length payload) = Inr d \<and>
       wd_sent w' = wd_sent w @ [(client, d)] \<and> length (wd_recvs w') < length (wd_recvs w))"
proof -
  have poll: "poll_socket t u = (Returned r, v) \<Longrightarrow> wd_sent v = wd_sent u \<and> wd_recvs v = wd_recvs u" for t u r v
    by (auto simp: poll_socket_def split: list.splits)
  have recv: "recvfrom m u = (Returned r, v) \<Longrightarrow> wd_sent v = wd_sent u \<and> length (wd_recvs v) < length (wd_recvs u)"
    for m u r v
    by (auto simp: recvfrom_def split: list.splits)
  obtain t w1 where now: "clock_now w = (Returned t, w1)"
    using assms by (auto simp: time_wait_round_def io_bind_returned)
  note N = clock_now_returned [OF now]
  show ?thesis
  proof (cases "t < deadline")
    case False
    then show ?thesis using assms now N by (auto simp: time_wait_round_def io_bind_def)
  next
    case True
    then obtain t' w2 ready w3 where now': "clock_now w1 = (Returned t', w2)"
      and ready: "poll_socket (max 1 ((deadline - t') div ms 1)) w2 = (Returned ready, w3)"
      using assms now unfolding time_wait_round_def
      by (auto simp: io_bind_returned split: if_splits)
    note P = poll [OF ready] clock_now_returned [OF now']
    show ?thesis
    proof (cases "ready = Poll_ready")
      case False
      then have "w' = w3" using assms True now now' ready
        by (cases ready) (auto simp: time_wait_round_def io_bind_def io_return_def throw_errno_def)
      with P N show ?thesis by simp
    next
      case poll_ready: True
      then obtain r w4 where r: "recvfrom kReceiveBufferBytes w3 = (Returned r, w4)"
        using assms True now now' ready unfolding time_wait_round_def
        by (auto simp: io_bind_returned io_bind_def split: prod.splits outcome.splits)
      note R = recv [OF r]
      show ?thesis
      proof (cases "\<exists>source buffer. r = Datagram source buffer \<and> repeats_complete client sid n source buffer")
        case True
        then obtain u w5 t'' where send: "send_packet client (make_header COMPLETE_ACK sid n)
            (Some payload) (length payload) w4 = (Returned u, w5)"
          and "clock_now w5 = (Returned t'', w')"
          using assms \<open>t < deadline\<close> now now' ready poll_ready r
          by (auto simp: time_wait_round_def io_bind_def io_return_def split: prod.splits outcome.splits)
        with clock_now_returned [OF this(2)] send_packet_returned [OF send] R P N show ?thesis by auto
      next
        case False
        then have "w' = w4" using assms \<open>t < deadline\<close> now now' ready poll_ready r
          by (cases r) (auto simp: time_wait_round_def io_bind_def io_return_def throw_errno_def)
        with R P N show ?thesis by simp
      qed
    qed
  qed
qed

lemma time_wait_loop_sends:
  "time_wait_loop client sid n payload deadline w = (Returned u, w') \<Longrightarrow>
   \<exists>m ds. wd_sent w' = wd_sent w @ ds \<and> length ds = m \<and> m + length (wd_recvs w') \<le> length (wd_recvs w) \<and>
     (\<forall>(dest, d) \<in> set ds. dest = client \<and>
        serialize_packet (make_header COMPLETE_ACK sid n) (Some payload) (length payload) = Inr d)"
proof (induction client sid n payload deadline w rule: time_wait_loop.induct)
  case (1 client sid n payload deadline w)
  obtain r w1 where round: "time_wait_round client sid n payload deadline w = (Returned r, w1)"
    using 1(2) by (subst (asm) time_wait_loop.simps) (auto split: prod.splits outcome.splits)
  note S = time_wait_round_sends [OF round]
  show ?case
  proof (cases r)
    case None
    then have "w' = w1" using 1(2) by (simp add: time_wait_loop.simps [of _ _ _ _ _ w] round)
    with S show ?thesis by fastforce
  next
    case (Some deadline')
    then have "time_wait_loop client sid n payload deadline' w1 = (Returned u, w')"
      using 1(2) by (simp add: time_wait_loop.simps [of _ _ _ _ _ w] round)
    from 1(1) [OF round [symmetric] refl Some this] obtain ds where
      "wd_sent w' = wd_sent w1 @ ds" "length ds + length (wd_recvs w') \<le> length (wd_recvs w1)"
      "\<forall>(dest, d) \<in> set ds. dest = client \<and>
        serialize_packet (make_header COMPLETE_ACK sid n) (Some payload) (length payload) = Inr d" by blast
    with S show ?thesis by fastforce
  qed
qed

section \<open>Properties\<close>

text \<open>C19: The START handshake lets only sound transfers in.  When the server accepts a START, the
  session is non-zero, the chunk size is the one for its own MTU, the number of chunks is the one
  the file size needs, the bitmap size is the default, and the window it accepts is at least one chunk
  and within the bitmap, so that the client's \<^verbatim>\<open>SenderWindow\<close> is constructed without an exception.\<close>

theorem await_start_accepts_valid:
  assumes "await_start mtu w = (Returned (client, sid, start), w')"
  shows "sid \<noteq> 0 \<and> chunk_size_for_mtu mtu = Inr (sp_chunk_size start) \<and>
    chunk_count (sp_file_size start) (sp_chunk_size start) = Inr (sp_total_chunks start) \<and>
    sp_ack_bitmap_bits start = kDefaultAckBitmapBits \<and>
    0 < sa_accepted_window_chunks (acceptance start) \<and>
    unat (sa_accepted_window_chunks (acceptance start)) \<le>
      unat (sa_accepted_bitmap_bits (acceptance start))"
proof -
  have "unat (ucast kDefaultAckBitmapBits :: u32) = unat kDefaultAckBitmapBits"
    by (simp add: kDefaultAckBitmapBits_def)
  then show ?thesis
    using await_start_returned [OF assms]
    by (simp add: valid_start_true acceptance_def min_def word_le_nat_alt word_less_nat_alt
        kDefaultAckBitmapBits_def)
qed

theorem await_start_accepts_valid_witness:
  "\<exists>w'. await_start 1500 (idle_world\<lparr>wd_recvs := [Datagram example_client example_start_datagram]\<rparr>) =
     (Returned (example_client, 77, example_session_start), w') \<and>
   chunk_size_for_mtu 1500 = Inr (sp_chunk_size example_session_start)"
proof -
  have "await_start 1500 (idle_world\<lparr>wd_recvs := [Datagram example_client example_start_datagram]\<rparr>) =
      (Returned (example_client, 77, example_session_start), idle_world)"
    using receive_one [OF example_start_parses,
        of "idle_world\<lparr>wd_recvs := [Datagram example_client example_start_datagram]\<rparr>" example_client "[]"]
    by (subst await_start.simps)
      (simp add: example_start_of example_valid_start example_start_session idle_world_no_recvs)
  from await_start_accepts_valid [OF this] this show ?thesis by blast
qed

text \<open>C37: One datagram can stop the server.  A START that passes the first tests, states the right
  chunk size and a file size that needs more than 4294967295 chunks is not answered with
  \<^verbatim>\<open>INVALID_REQUEST\<close>: the check itself throws, and \<^verbatim>\<open>run_server\<close> ends with that exception.\<close>

theorem oversized_start_stops_server:
  assumes "receive_packet (w\<lparr>wd_printed := wd_printed w @ [(Cout, waiting_line options)]\<rparr>) =
      (Returned (client, packet), w1)"
    and "start_of packet = Some start"
    and "chunk_size_for_mtu (so_mtu options) = Inr (sp_chunk_size start)"
    and "4294967295 * unat (sp_chunk_size start) < unat (sp_file_size start)"
    and "0 \<le> socket_fd"
  shows "run_server socket_fd 0 0 k options w =
    (Thrown (Invalid_argument ''file needs more than 32-bit chunk IDs''),
     w1\<lparr>wd_closed := wd_closed w1 @ [socket_fd]\<rparr>)"
proof -
  let ?c = "sp_chunk_size start" and ?fs = "sp_file_size start"
  have c: "?c \<noteq> 0" using assms(3) by (auto simp: chunk_size_for_mtu_Inr)
  then have "0 < unat ?c" by (simp add: unat_gt_0)
  from order.strict_trans2 [OF assms(4) nat_chunk_count_bound [OF this]] have "\<not> nat_chunk_count (unat ?fs) (unat ?c) \<le> 4294967295"
    by (simp only: mult_less_cancel2 not_le)
  then have "chunk_count ?fs ?c = Inl (Invalid_argument ''file needs more than 32-bit chunk IDs'')"
    using c unat_chunk_count_word [OF c, of ?fs]
    by (simp add: chunk_count_def Let_def word_less_nat_alt)
  then have "await_start (so_mtu options) (w\<lparr>wd_printed := wd_printed w @ [(Cout, waiting_line options)]\<rparr>) =
      (Thrown (Invalid_argument ''file needs more than 32-bit chunk IDs''), w1)"
    using assms(1-3) by (subst await_start.simps) (simp add: valid_start_def)
  then show ?thesis
    using assms(5) by (simp add: run_server_def serve_client_def io_defs close_socket_def print_lines_def)
qed

theorem oversized_start_stops_server_witness:
  "\<exists>d. \<forall>k path port. fst (run_server 3 0 0 k \<lparr>so_output = path, so_port = port, so_mtu = 1500\<rparr>
      (idle_world\<lparr>wd_recvs := [Datagram example_client d]\<rparr>)) =
     Thrown (Invalid_argument ''file needs more than 32-bit chunk IDs'')"
proof -
  let ?start = "example_session_start\<lparr>sp_file_size := 7000000000000\<rparr>"
  let ?v = "\<lparr>view_header = sent_header (make_header START 77 0) 24,
     view_payload = Some (serialize_start ?start), view_payload_size = 24\<rparr>"
  have p: "parses_to (header_bytes (make_header START 77 0) 24 @ serialize_start ?start) ?v"
    using parses_header [of "make_header START 77 0" "serialize_start ?start"]
    by (simp add: kReceiveBufferBytes_def)
  have s: "start_of ?v = Some ?start"
    using start_codec.de_ser [of ?start "serialize_start ?start"] by (simp add: start_of_def)
  have c: "chunk_size_for_mtu 1500 = Inr (sp_chunk_size ?start)"
    by (simp add: example_session_start_def chunk_size_for_mtu_def kIpv4UdpOverhead_def kHeaderSize_def)
  have big: "4294967295 * unat (sp_chunk_size ?start) < unat (sp_file_size ?start)"
    by (simp add: example_session_start_def)
  let ?d = "header_bytes (make_header START 77 0) 24 @ serialize_start ?start"
  let ?w = "idle_world\<lparr>wd_recvs := [Datagram example_client ?d]\<rparr>"
  have recv: "receive_packet (?w\<lparr>wd_printed := ls\<rparr>) =
      (Returned (example_client, ?v), ?w\<lparr>wd_printed := ls, wd_recvs := []\<rparr>)" for ls
    using receive_one [OF p, of "?w\<lparr>wd_printed := ls\<rparr>" example_client "[]"] by simp
  have "fst (run_server 3 0 0 k \<lparr>so_output = path, so_port = port, so_mtu = 1500\<rparr> ?w) =
     Thrown (Invalid_argument ''file needs more than 32-bit chunk IDs'')" for k path port
    using c by (subst oversized_start_stops_server [OF recv s _ big]) simp_all
  then show ?thesis by blast
qed

text \<open>C3: The output file is the client's file.  If every acceptable DATA packet that arrives from the
  client for this session carries the bytes that the file has at its chunk, in whatever order, number
  and company the datagrams arrive, then when the main loop ends the mapped output equals the file,
  it has been flushed, and the COMPLETE_ACK reports success, all chunks and all bytes.\<close>

theorem server_output_is_file:
  assumes "session_ok sess" and "file_of file sess"
    and "authentic_script file sess (wd_recvs w)"
    and "serve_loop k f sess (init_server_state sess now) w = (Returned (st, payload), w')"
  shows "sv_output st = file \<and> fst (sync_output k f) = Inr () \<and>
    (\<exists>ack. deserialize_complete_ack (Some payload) (length payload) = Some ack \<and>
       ca_status ack = OK \<and> ca_received_chunks ack = sp_total_chunks (ss_start sess) \<and>
       ca_received_bytes ack = sp_file_size (ss_start sess))"
proof -
  note R = serve_loop_result [OF assms(1,2) init_server_inv [OF assms(1)] assms(3,4)]
  then have "sv_output st = file" by (intro complete_output [OF assms(1,2)]) simp_all
  moreover have "deserialize_complete_ack (Some payload) (length payload) =
      Some (completion_payload sess st)"
    using complete_ack_codec.de_ser [of "completion_payload sess st" payload] R by simp
  moreover have "rt_received_count (sv_tracker st) = sp_total_chunks (ss_start sess)"
    using R rt.unat_count [of "sv_tracker st"] rt.full_iff [of "sv_tracker st"]
    by (simp add: server_inv_def word_unat_eq_iff)
  ultimately show ?thesis using R by (simp add: completion_payload_def)
qed

theorem server_output_is_file_witness:
  "\<exists>w w' payload. serve_loop example_kernel example_output example_session (init_server_state example_session 1) w =
     (Returned (example_done 42, payload), w') \<and> sv_output (example_done 42) = [42]"
proof -
  from example_run [of 42] obtain sends w' payload where run:
    "serve_loop example_kernel example_output example_session (init_server_state example_session 1)
     (idle_world\<lparr>wd_recvs := [Datagram example_client (example_datagram DATA 0 [42]),
        Datagram example_client (example_datagram COMPLETE 1 [])], wd_clock := [4, 5], wd_sends := sends\<rparr>) =
     (Returned (example_done 42, payload), w')" by blast
  have a: "authentic [42] example_session example_client (example_view DATA 0 [42])"
    "authentic [42] example_session example_client (example_view COMPLETE 1 [])"
    by (simp_all add: authentic_def carries_chunk_def chunk_bytes_def)
  have "authentic_script [42] example_session
      [Datagram example_client (example_datagram DATA 0 [42]), Datagram example_client (example_datagram COMPLETE 1 [])]"
    unfolding authentic_script_def
  proof (intro allI impI)
    fix source bs packet
    assume "Datagram source bs \<in> set [Datagram example_client (example_datagram DATA 0 [42]),
        Datagram example_client (example_datagram COMPLETE 1 [])]" and p: "parses_to bs packet"
    then consider "source = example_client" "bs = example_datagram DATA 0 [42]"
      | "source = example_client" "bs = example_datagram COMPLETE 1 []" by auto
    then show "authentic [42] example_session source packet"
      using a parses_to_unique [OF p] example_parses [of "[42]" DATA 0] example_parses [of "[]" COMPLETE 1]
      by cases simp_all
  qed
  then have "sv_output (example_done 42) = [42]"
    using server_output_is_file [OF example_session_ok _ _ run, of "[42]"]
    by (simp add: file_of_def)
  with run show ?thesis by blast
qed

text \<open>C4: No packet, forged or not, makes the server write outside its file or lose what it has.  From
  any state that satisfies the invariant, every iteration that returns keeps the invariant (the
  tracker is sound, the output keeps its size, fewer than 32 DATA packets wait for an ACK), never
  forgets a received chunk, and sends only START_ACKs, ACKs that report the tracker as it is, and
  COMPLETE_ACKs once every chunk is there.\<close>

theorem handle_packet_safe:
  assumes "session_ok sess" and "server_inv sess st" and "view_ok packet"
    and "handle_packet k f sess source packet st w = (Returned sig, w')"
  shows "server_inv sess (signal_state sig) \<and>
    received_set (sv_tracker st) \<subseteq> received_set (sv_tracker (signal_state sig)) \<and>
    (\<exists>ds. wd_sent w' = wd_sent w @ ds \<and>
      (\<forall>d \<in> set ds. server_datagram sess (sv_tracker (signal_state sig)) d))"
  using handle_packet_result [OF assms] by blast

theorem handle_packet_safe_witness:
  "\<exists>w w'. handle_packet example_kernel example_output example_session example_client (example_view DATA 0 [42])
      (init_server_state example_session 1) w = (Returned (Continue (example_done 42)), w') \<and>
   server_inv example_session (example_done 42) \<and>
   (\<exists>ds. wd_sent w' = ds \<and>
      (\<forall>d \<in> set ds. server_datagram example_session (sv_tracker (example_done 42)) d))"
proof -
  obtain n d where D: "\<And>w rs. wd_clock w = [4, 5] \<Longrightarrow> wd_sends w = Sent n # rs \<Longrightarrow>
     handle_data example_session (example_view DATA 0 [42]) (init_server_state example_session 1) w =
     (Returned (example_done 42), w\<lparr>wd_clock := [], wd_sends := rs, wd_sent := wd_sent w @ [(example_client, d)]\<rparr>)"
    using example_handle_data [of 42] by blast
  let ?w = "idle_world\<lparr>wd_clock := [4, 5], wd_sends := [Sent n]\<rparr>"
  obtain w' where "handle_packet example_kernel example_output example_session example_client
      (example_view DATA 0 [42]) (init_server_state example_session 1) ?w =
     (Returned (Continue (example_done 42)), w')"
    using D [of ?w "[]"] by (simp add: example_handle_packet io_bind_def io_return_def)
  moreover have "wd_sent ?w = []" by (simp add: idle_world_def)
  ultimately show ?thesis
    using handle_packet_safe [OF example_session_ok init_server_inv(1) [OF example_session_ok]
        example_view_simps(7)] by fastforce
qed

text \<open>C26: When the server acknowledges.  A DATA packet with a possible number and the right size is
  answered at once with exactly one ACK, a snapshot of the tracker after the packet, if it is a
  duplicate, it is flagged as retransmitted, it completes the transfer, it is the 32nd since the last
  ACK, or the clock reading of the iteration has reached the ACK deadline (which the first packet
  after an ACK sets one interval ahead); otherwise nothing is sent and the packet is counted.\<close>

theorem data_ack_policy:
  assumes "acceptable sess packet" and "handle_data sess packet st w = (Returned st', w')"
  shows "let duplicate = has_received (sv_tracker st) (number (view_header packet));
       now = wd_clock w ! (if duplicate then 0 else 1);
       due = (duplicate \<or> flags (view_header packet) AND FLAG_RETRANSMITTED \<noteq> 0 \<or>
              complete (sv_tracker st') \<or> 32 \<le> sv_packets_since_ack st + 1 \<or>
              (if sv_ack_pending st then sv_next_ack_time st else now + ack_interval sess) \<le> now)
     in sv_packets_since_ack st' = (if due then 0 else sv_packets_since_ack st + 1) \<and>
        sv_ack_pending st' = (\<not> due) \<and>
        (\<exists>ds. wd_sent w' = wd_sent w @ ds \<and>
          (if due then \<exists>d. ds = [(ss_client sess, d)] \<and> is_ack_datagram (ss_session_id sess)
             (sv_tracker st') (sa_accepted_bitmap_bits (ss_accepted sess)) d else ds = []))"
  using assms(2)
proof (cases rule: handle_data_cases)
  case (accepted t now st3 due)
  let ?dup = "has_received (sv_tracker st) (number (view_header packet))"
  have tr: "sv_tracker st3 = sv_tracker st'" by (simp add: accepted(5))
  have st3: "sv_packets_since_ack st3 = sv_packets_since_ack st + 1" "sv_ack_pending st3"
    "sv_next_ack_time st3 =
      (if sv_ack_pending st then sv_next_ack_time st else now + ack_interval sess)"
    by (simp_all add: accepted(3) start_ack_timer_def after_arrival_def store_chunk_def Let_def)
  have due: "due \<longleftrightarrow> ?dup \<or> flags (view_header packet) AND FLAG_RETRANSMITTED \<noteq> 0 \<or>
      complete (sv_tracker st') \<or> 32 \<le> sv_packets_since_ack st + 1 \<or>
      (if sv_ack_pending st then sv_next_ack_time st else now + ack_interval sess) \<le> now"
    by (simp only: accepted(4) should_send_ack_def kAckPacketThreshold_def tr st3)
  have "sv_packets_since_ack st' = (if due then 0 else sv_packets_since_ack st + 1)"
    "sv_ack_pending st' = (\<not> due)"
    by (simp_all add: accepted(5) st3)
  then show ?thesis
    using accepted(6) unfolding Let_def accepted(2) [symmetric] due [symmetric] tr
    by (intro conjI)
qed (use assms(1) in simp)

theorem data_ack_policy_witness:
  "\<exists>w w'. handle_data example_session (example_view DATA 0 [42]) (init_server_state example_session 1) w =
     (Returned (example_done 42), w') \<and> length (wd_sent w') = 1"
proof -
  obtain n d where D: "\<And>w rs. wd_clock w = [4, 5] \<Longrightarrow> wd_sends w = Sent n # rs \<Longrightarrow>
     handle_data example_session (example_view DATA 0 [42]) (init_server_state example_session 1) w =
     (Returned (example_done 42), w\<lparr>wd_clock := [], wd_sends := rs, wd_sent := wd_sent w @ [(example_client, d)]\<rparr>)"
    using example_handle_data [of 42] by blast
  let ?w = "idle_world\<lparr>wd_clock := [4, 5], wd_sends := [Sent n]\<rparr>"
  have run: "\<exists>w'. handle_data example_session (example_view DATA 0 [42]) (init_server_state example_session 1) ?w =
     (Returned (example_done 42), w')" using D [of ?w "[]"] by simp
  then obtain w' where run: "handle_data example_session (example_view DATA 0 [42]) (init_server_state example_session 1) ?w =
     (Returned (example_done 42), w')" ..
  have "acceptable example_session (example_view DATA 0 [42])" by (simp add: acceptable_def)
  from data_ack_policy [OF this run] example_complete(1) [of 42] have "\<exists>ds d. wd_sent w' = wd_sent ?w @ ds \<and> ds = [d]"
    by (auto simp: Let_def)
  moreover have "wd_sent ?w = []" by (simp add: idle_world_def)
  ultimately show ?thesis using run by fastforce
qed

text \<open>Sending changes neither the files nor what has been flushed.\<close>

interpretation storage: world_frame "\<lambda>w w'. wd_files w' = wd_files w \<and> wd_flushed w' = wd_flushed w"
  by unfold_locales simp_all

lemma storage_send_packet: "storage.keeps (send_packet dest h p n)"
  by (intro storage.keeps_send_packet storage.keepsI)
    (auto simp: sendto_def split: list.splits send_result.splits)

text \<open>A step that sends one datagram of a kind.\<close>

definition sends_one :: "(endpoint \<times> bytes \<Rightarrow> bool) \<Rightarrow> 'a outcome \<Rightarrow> world \<Rightarrow> world \<Rightarrow> bool" where
  "sends_one P r w w' \<longleftrightarrow> sends_whole P (call_failed r) w w' \<and>
     (\<forall>a. r = Returned a \<longrightarrow> (\<exists>x. P x \<and> wd_sent w' = wd_sent w @ [x]))"

lemma send_packet_sends_one:
  assumes "send_packet dest h p n w = (r, w')" and "\<And>d. serialize_packet h p n = Inr d \<Longrightarrow> P (dest, d)"
  shows "sends_one P r w w'"
proof -
  have "does (\<lambda>_. True) P UNIV (send_packet dest h p n) (\<lambda>_. True)"
    by (rule does_send_packet) (use assms(2) in auto)
  from doesD(2) [OF this assms(1) subset_UNIV] show ?thesis
    using send_packet_returned(1) [of dest h p n w] assms unfolding sends_one_def by blast
qed

lemma sends_one_ack:
  assumes "send_state_ack sess st w = (r, w')"
  shows "sends_one (\<lambda>(dest, d). dest = ss_client sess \<and>
      is_ack_datagram (ss_session_id sess) (sv_tracker st) (sa_accepted_bitmap_bits (ss_accepted sess)) d) r w w'"
    and "wd_files w' = wd_files w \<and> wd_flushed w' = wd_flushed w"
proof -
  let ?h = "(make_header ACK (ss_session_id sess) (sv_ack_number st))\<lparr>flags := FLAG_SACK\<rparr>"
  let ?ser = "serialize_ack (make_ack_snapshot (sv_tracker st) (sa_accepted_bitmap_bits (ss_accepted sess)))"
  from assms consider e where "?ser = Inl e" "r = Thrown e" "w' = w"
    | bs where "?ser = Inr bs" "send_packet (ss_client sess) ?h (Some bs) (length bs) w = (r, w')"
    by (cases ?ser) (auto simp: send_state_ack_def send_ack_def io_throw_def)
  then have "sends_one (\<lambda>(dest, d). dest = ss_client sess \<and>
      is_ack_datagram (ss_session_id sess) (sv_tracker st) (sa_accepted_bitmap_bits (ss_accepted sess)) d) r w w' \<and>
    wd_files w' = wd_files w \<and> wd_flushed w' = wd_flushed w"
  proof cases
    case (2 bs)
    from storage.keepsD [OF storage_send_packet 2(2)] 2 show ?thesis
      by (intro conjI send_packet_sends_one [OF 2(2)]) (auto simp: is_ack_datagram_def)
  qed (simp add: sends_one_def)
  then show "sends_one (\<lambda>(dest, d). dest = ss_client sess \<and>
      is_ack_datagram (ss_session_id sess) (sv_tracker st) (sa_accepted_bitmap_bits (ss_accepted sess)) d) r w w'"
    "wd_files w' = wd_files w \<and> wd_flushed w' = wd_flushed w" by blast+
qed

text \<open>Completing: the file is flushed, and only then the COMPLETE_ACK is sent.\<close>

lemma complete_outcome:
  assumes "io_bind (sync_file k f contents) (\<lambda>_. io_bind (send_packet dest h (Some p) n) (\<lambda>_. io_return a)) w = (r, w')"
  shows "wd_files w' = wd_files w @ snd (sync_output k f)"
    and "case fst (sync_output k f) of
      Inl e \<Rightarrow> r = Thrown e \<and> wd_flushed w' = wd_flushed w \<and> wd_sent w' = wd_sent w
    | Inr _ \<Rightarrow> wd_flushed w' = wd_flushed w @ [contents] \<and> (r = Returned b \<longrightarrow> b = a) \<and>
        sends_one (\<lambda>(to, d). to = dest \<and> serialize_packet h (Some p) n = Inr d) r w w'"
proof -
  obtain o' calls where s: "sync_output k f = (o', calls)" by fastforce
  let ?w = "w\<lparr>wd_files := wd_files w @ calls, wd_flushed := wd_flushed w @ [contents]\<rparr>"
  let ?P = "\<lambda>(to, d). to = dest \<and> serialize_packet h (Some p) n = Inr d"
  have "wd_files w' = wd_files w @ calls \<and> (case o' of
      Inl e \<Rightarrow> r = Thrown e \<and> wd_flushed w' = wd_flushed w \<and> wd_sent w' = wd_sent w
    | Inr _ \<Rightarrow> wd_flushed w' = wd_flushed w @ [contents] \<and> (r = Returned b \<longrightarrow> b = a) \<and> sends_one ?P r w w')"
  proof (cases o')
    case (Inl e)
    then show ?thesis using assms s
      by (auto simp: sync_file_def io_bind_def log_files_def io_throw_def)
  next
    case (Inr u)
    obtain x v where x: "send_packet dest h (Some p) n ?w = (x, v)" by fastforce
    have "sync_file k f contents w = (Returned (), ?w)"
      using s Inr by (simp add: sync_file_def io_bind_def log_files_def log_flushed_def io_return_def)
    with assms x have r: "r = (case x of Returned _ \<Rightarrow> Returned a | Thrown e \<Rightarrow> Thrown e | Blocked \<Rightarrow> Blocked)" "w' = v"
      by (auto simp: io_bind_def io_return_def split: outcome.splits)
    have "sends_one ?P x ?w v" by (rule send_packet_sends_one [OF x]) simp
    then have "sends_one ?P r w v"
      unfolding r by (cases x) (auto simp: sends_one_def sends_whole_def)
    moreover have "wd_files v = wd_files ?w \<and> wd_flushed v = wd_flushed ?w"
      by (rule storage.keepsD [OF storage_send_packet x])
    ultimately show ?thesis using Inr r by (auto split: outcome.splits)
  qed
  with s show "wd_files w' = wd_files w @ snd (sync_output k f)"
    "case fst (sync_output k f) of
      Inl e \<Rightarrow> r = Thrown e \<and> wd_flushed w' = wd_flushed w \<and> wd_sent w' = wd_sent w
    | Inr _ \<Rightarrow> wd_flushed w' = wd_flushed w @ [contents] \<and> (r = Returned b \<longrightarrow> b = a) \<and> sends_one ?P r w w'"
    by simp_all
qed

text \<open>With every chunk received the cumulative acknowledgement is the number of chunks.\<close>

lemma received_all_iff:
  assumes "server_inv sess st"
  shows "received_set (sv_tracker st) = {..<unat (sp_total_chunks (ss_start sess))} \<longleftrightarrow> complete (sv_tracker st)"
    and "complete (sv_tracker st) \<Longrightarrow> rt_cumulative_ack (sv_tracker st) = sp_total_chunks (ss_start sess)"
proof -
  let ?n = "sp_total_chunks (ss_start sess)"
  have inv: "tracker_inv (sv_tracker st)" "length (rt_received (sv_tracker st)) = unat ?n"
    using assms by (simp_all add: server_inv_def)
  show full: "received_set (sv_tracker st) = {..<unat ?n} \<longleftrightarrow> complete (sv_tracker st)"
    using rt.full_iff [OF inv(1)] inv(2) by simp
  have "first_gap {..<unat ?n} = unat ?n" by (rule first_gap_eqI) simp_all
  then show "rt_cumulative_ack (sv_tracker st) = ?n" if "complete (sv_tracker st)"
    using rt.unat_cum [OF inv(1)] that full by (simp add: word_unat_eq_iff)
qed

text \<open>C10: The server reports success only when it is true, and only after a flush.  A COMPLETE with a wrong
  number or a payload is ignored.  One that finds every chunk received makes the server flush the
  output: if that fails, its error is thrown and nothing is sent; if it succeeds, the contents have
  been flushed whatever happens then, and one COMPLETE_ACK with the success payload goes to the client,
  which ends the transfer when it could be sent.  A COMPLETE that comes too early flushes nothing and
  is answered with one ACK of the tracker, and nothing changes but the number of the next ACK.\<close>

theorem completion_only_when_done:
  assumes "handle_complete k f sess packet st w = (r, w')" and "server_inv sess st"
  shows "if number (view_header packet) \<noteq> sp_total_chunks (ss_start sess) \<or> view_payload_size packet \<noteq> 0
    then r = Returned (Continue st) \<and> w' = w
    else if received_set (sv_tracker st) = {..<unat (sp_total_chunks (ss_start sess))}
    then wd_files w' = wd_files w @ snd (sync_output k f) \<and>
      (case fst (sync_output k f) of
         Inl e \<Rightarrow> r = Thrown e \<and> wd_flushed w' = wd_flushed w \<and> wd_sent w' = wd_sent w
       | Inr _ \<Rightarrow> wd_flushed w' = wd_flushed w @ [sv_output st] \<and>
           (r = Returned sig \<longrightarrow> sig = Completed st (serialize_complete_ack (completion_payload sess st))) \<and>
           sends_one (\<lambda>(dest, d). dest = ss_client sess \<and>
             is_complete_ack_datagram sess (serialize_complete_ack (completion_payload sess st)) d) r w w')
    else wd_files w' = wd_files w \<and> wd_flushed w' = wd_flushed w \<and>
      (r = Returned sig \<longrightarrow> sig = Continue (st\<lparr>sv_ack_number := sv_ack_number st + 1\<rparr>)) \<and>
      sends_one (\<lambda>(dest, d). dest = ss_client sess \<and> is_ack_datagram (ss_session_id sess)
        (sv_tracker st) (sa_accepted_bitmap_bits (ss_accepted sess)) d) r w w'"
proof -
  let ?n = "sp_total_chunks (ss_start sess)"
  let ?p = "serialize_complete_ack (completion_payload sess st)"
  note full = received_all_iff [OF assms(2)]
  consider (ignored) "number (view_header packet) \<noteq> ?n \<or> view_payload_size packet \<noteq> 0"
    | (finished) "number (view_header packet) = ?n" "view_payload_size packet = 0" "complete (sv_tracker st)"
    | (early) "number (view_header packet) = ?n" "view_payload_size packet = 0" "\<not> complete (sv_tracker st)" by blast
  then show ?thesis
  proof cases
    case ignored
    then show ?thesis using assms(1) by (auto simp: handle_complete_def Let_def io_return_def)
  next
    case finished
    with assms(1) full(2) have "io_bind (sync_file k f (sv_output st)) (\<lambda>_. io_bind (send_packet (ss_client sess)
        (make_header COMPLETE_ACK (ss_session_id sess) ?n) (Some ?p) (length ?p)) (\<lambda>_. io_return (Completed st ?p))) w = (r, w')"
      by (simp add: handle_complete_def Let_def)
    note C = complete_outcome(1) [OF this] complete_outcome(2) [OF this, where b = sig]
    show ?thesis using C finished full(1)
      by (cases "fst (sync_output k f)") (simp_all add: is_complete_ack_datagram_def)
  next
    case early
    obtain x v where x: "send_state_ack sess st w = (x, v)" by fastforce
    with assms(1) early have r: "r = (case x of
        Returned _ \<Rightarrow> Returned (Continue (st\<lparr>sv_ack_number := sv_ack_number st + 1\<rparr>))
      | Thrown e \<Rightarrow> Thrown e | Blocked \<Rightarrow> Blocked)" "w' = v"
      by (auto simp: handle_complete_def Let_def io_bind_def io_return_def split: outcome.splits)
    have "sends_one P r w v" if "sends_one P x w v" for P
      using that unfolding r by (cases x) (auto simp: sends_one_def)
    with sends_one_ack [OF x] early full(1) r show ?thesis by (auto split: outcome.splits)
  qed
qed

theorem completion_only_when_done_witness:
  "\<exists>w w' payload. handle_complete example_kernel example_output example_session (example_view COMPLETE 1 [])
      (example_done 42) w = (Returned (Completed (example_done 42) payload), w') \<and>
    wd_flushed w' = wd_flushed w @ [sv_output (example_done 42)] \<and> length (wd_sent w') = Suc (length (wd_sent w))"
proof -
  obtain n d where C: "\<And>w rs. wd_sends w = Sent n # rs \<Longrightarrow>
     handle_complete example_kernel example_output example_session (example_view COMPLETE 1 []) (example_done 42) w =
     (Returned (Completed (example_done 42) (serialize_complete_ack (completion_payload example_session (example_done 42)))),
      w\<lparr>wd_sends := rs, wd_files := wd_files w @ [Msync_call 4096 1], wd_flushed := wd_flushed w @ [[42]],
        wd_sent := wd_sent w @ [(example_client, d)]\<rparr>)"
    using example_handle_complete [of 42] by blast
  then have "\<exists>w'. handle_complete example_kernel example_output example_session (example_view COMPLETE 1 [])
      (example_done 42) (idle_world\<lparr>wd_sends := [Sent n]\<rparr>) =
     (Returned (Completed (example_done 42) (serialize_complete_ack (completion_payload example_session (example_done 42)))), w')"
    by simp
  then obtain w' where run: "handle_complete example_kernel example_output example_session (example_view COMPLETE 1 [])
      (example_done 42) (idle_world\<lparr>wd_sends := [Sent n]\<rparr>) =
     (Returned (Completed (example_done 42) (serialize_complete_ack (completion_payload example_session (example_done 42)))), w')" ..
  have inv: "server_inv example_session (example_done 42)"
    using example_done_inv [of 42]
    by (simp add: server_inv_def) (simp add: example_done_def example_mark kAckPacketThreshold_def)
  have "fst (sync_output example_kernel example_output) = Inr ()"
    by (simp add: sync_output_def example_kernel_def example_output_def)
  moreover have "received_set (sv_tracker (example_done 42)) = {..<unat (sp_total_chunks (ss_start example_session))}"
    using received_all_iff(1) [OF inv] example_complete(1) [of 42] by blast
  ultimately have "wd_flushed w' = wd_flushed (idle_world\<lparr>wd_sends := [Sent n]\<rparr>) @ [sv_output (example_done 42)] \<and>
      sends_one (\<lambda>(dest, d). dest = ss_client example_session \<and> is_complete_ack_datagram example_session
        (serialize_complete_ack (completion_payload example_session (example_done 42))) d)
        (Returned (Completed (example_done 42) (serialize_complete_ack (completion_payload example_session (example_done 42)))))
        (idle_world\<lparr>wd_sends := [Sent n]\<rparr>) w'"
    using completion_only_when_done [OF run inv] by simp
  then have "wd_flushed w' = wd_flushed (idle_world\<lparr>wd_sends := [Sent n]\<rparr>) @ [sv_output (example_done 42)] \<and>
      length (wd_sent w') = Suc (length (wd_sent (idle_world\<lparr>wd_sends := [Sent n]\<rparr>)))"
    unfolding sends_one_def by force
  with run show ?thesis by blast
qed

text \<open>C27: The server releases everything.  However a run of \<^verbatim>\<open>run_server\<close> with a valid socket ends, by
  returning or by any exception, the socket has been closed exactly once and every descriptor and
  mapping that was acquired has been released.\<close>

theorem run_server_releases_everything:
  assumes "run_server socket_fd rcvbuf_rc bind_rc k options w = (r, w')"
    and "r \<noteq> Blocked" and "0 \<le> socket_fd"
  shows "wd_closed w' = wd_closed w @ [socket_fd] \<and>
    (\<exists>calls. wd_files w' = wd_files w @ calls \<and> held_after calls = ([], []))"
proof (cases "rcvbuf_rc = 0 \<and> bind_rc = 0")
  case False
  then show ?thesis using assms
    by (auto simp: run_server_def io_defs throw_errno_def close_socket_def held_after_def split: if_splits)
next
  case True
  let ?w = "w\<lparr>wd_printed := wd_printed w @ [(Cout, waiting_line options)]\<rparr>"
  obtain s w1 where s: "serve_client k (so_output options) (so_mtu options) socket_fd ?w = (s, w1)" by fastforce
  have R: "s \<noteq> Blocked" "w' = (if \<exists>u. s = Returned u then w1 else w1\<lparr>wd_closed := wd_closed w1 @ [socket_fd]\<rparr>)"
    using assms True s
    by (auto simp: run_server_def io_defs close_socket_def print_lines_def split: outcome.splits)
  from serve_client_resources [OF s R(1)] show ?thesis using R by (cases s) auto
qed

theorem run_server_releases_everything_witness:
  "wd_closed (snd (run_server 3 0 1 example_kernel example_server_options idle_world)) = [3]"
proof -
  have run: "run_server 3 0 1 example_kernel example_server_options idle_world =
      (Thrown (Runtime_error ''bind failed: ''), idle_world\<lparr>wd_closed := [3]\<rparr>)"
    by (simp add: run_server_def io_defs throw_errno_def close_socket_def idle_world_def)
  from run_server_releases_everything [OF this] have "wd_closed (idle_world\<lparr>wd_closed := [3]\<rparr>) = [3]"
    by (simp add: idle_world_def)
  then show ?thesis by (simp add: run)
qed

text \<open>The time wait repeats one datagram.  After the transfer the server sends nothing but the
  COMPLETE_ACK it has already sent, byte for byte, only to the client, and at most once for every
  datagram it receives.\<close>

lemma time_wait_repeats_complete_ack:
  assumes "time_wait client sid n payload w = (Returned u, w')"
  shows "\<exists>ds. wd_sent w' = wd_sent w @ ds \<and>
    length ds + length (wd_recvs w') \<le> length (wd_recvs w) \<and>
    (\<forall>(dest, d) \<in> set ds. dest = client \<and>
       serialize_packet (make_header COMPLETE_ACK sid n) (Some payload) (length payload) = Inr d)"
proof -
  obtain t w1 where "clock_now w = (Returned t, w1)"
    and "time_wait_loop client sid n payload (t + kTimeWait) w1 = (Returned u, w')"
    using assms by (auto simp: time_wait_def io_bind_returned)
  from time_wait_loop_sends [OF this(2)] clock_now_returned [OF this(1)] show ?thesis by auto
qed

end
