(* ===== verification/Example_Run.thy ===== *)
theory Example_Run
  imports Client_Invariant Server_Properties
begin

unbundle bit_operations_syntax

text \<open>
  One whole session on concrete scripts, evaluated: the server of \<open>server_example\<close> receives START, one
  DATA packet and COMPLETE, the client of \<open>client_example\<close> sends a file of one byte and receives the
  datagrams that server sent.  The witnesses of the properties of the client and of the whole
  transfer are taken from it.
\<close>

section \<open>Running the client on a script\<close>

lemma expected_view_example:
  assumes "parses_to d v" and "length d \<le> kReceiveBufferBytes"
    and "session_id (view_header v) = sid" and "ptype (view_header v) = t"
  shows "expected_view server t sid server d = Some v"
  using assms by (simp add: expected_view_def parses_to_def)

lemma receive_expected_one:
  assumes "wd_recvs w = Datagram server d # rs" and "wd_polls w = Poll_ready # ps"
    and "wd_clock w = t0 # t1 # t2 # ts" and "t1 < t0 + ms timeout"
    and "length d \<le> kReceiveBufferBytes" and "expected_view server ty sid server d = Some v"
  shows "receive_expected server ty sid timeout None w =
    (Returned (Some v, None), w\<lparr>wd_recvs := rs, wd_polls := ps, wd_clock := ts,
       wd_polled := wd_polled w @ [max 1 ((t0 + ms timeout - t2) div ms 1)]\<rparr>)"
  using assms
  by (simp add: receive_expected_def io_bind_def clock_now_def receive_loop.simps receive_round_def
      timed_poll_def poll_socket_def recvfrom_def io_return_def)

lemma drain_nothing:
  assumes "wd_recvs w = Recv_would_block # rs"
  shows "drain_acks server sid window w = (Returned window, w\<lparr>wd_recvs := rs\<rparr>)"
  using assms by (simp add: drain_acks.simps recvfrom_def)

lemma drain_ack:
  assumes "wd_recvs w = Datagram server d # Recv_would_block # rs" and "wd_clock w = t # ts"
    and "length d \<le> kReceiveBufferBytes" and "expected_view server ACK sid server d = Some v"
    and "flags (view_header v) AND FLAG_SACK \<noteq> 0"
    and "deserialize_ack (view_payload v) (view_payload_size v) = Some ack"
    and "ak_bitmap_bits ack = kDefaultAckBitmapBits"
  shows "drain_acks server sid window w =
    (Returned (process_ack window ack t), w\<lparr>wd_recvs := rs, wd_clock := ts\<rparr>)"
  using assms
  by (simp add: drain_acks.simps [of server sid window w] recvfrom_def drain_one_def apply_ack_packet_def
      io_bind_def clock_now_def io_return_def drain_nothing)

lemma send_loop_ok:
  assumes "wd_sends w = Sent (length d) # rs"
  shows "send_loop what dest d w = (Returned (), w\<lparr>wd_sends := rs, wd_sent := wd_sent w @ [(dest, d)]\<rparr>)"
  using assms by (simp add: send_loop.simps sendto_def)

section \<open>A window with one chunk\<close>

definition w_fresh :: sender_window where
  "w_fresh = \<lparr>sw_total_chunks = 1, sw_logical_window_chunks = 5794, sw_sack_coverage_chunks = 8192,
     sw_base = 0, sw_next_sequence = 0, sw_outstanding_chunks = 0, sw_chunks = [fresh_chunk],
     sw_retransmission_queue = [], sw_last_base_advance_time = 0, sw_base_advancement_events = 0,
     sw_total_base_stall_time = 0, sw_longest_base_stall_time = 0\<rparr>"

definition w_selected :: sender_window where
  "w_selected = w_fresh\<lparr>sw_next_sequence := 1, sw_outstanding_chunks := 1\<rparr>"

definition w_sent :: sender_window where
  "w_sent = w_selected\<lparr>sw_chunks := [fresh_chunk\<lparr>cs_state := IN_FLIGHT\<rparr>]\<rparr>"

definition first_packet :: send_decision where
  "first_packet = \<lparr>sequence = 0, retransmission = False, fast_retransmission = False\<rparr>"

lemma w_steps:
  "make_sender_window 1 5794 8192 0 = Inr w_fresh"
  "check_timeouts w_fresh t r = w_fresh"
  "select_next_packet w_fresh = (Some first_packet, w_selected)"
  "mark_sent w_selected 0 0 = Inr w_sent"
  by (simp_all add: make_sender_window_def w_fresh_def check_timeouts_def select_next_packet_def
      can_send_new_def first_packet_def w_selected_def mark_sent_def chunk_at_def fresh_chunk_def
      w_sent_def update_chunk_def)

lemma w_reachable: "sender_reachable 1 5794 8192 0 w_sent"
  using reachable_steps(4) [OF reachable_steps(3) [OF sender_reachable.created [OF w_steps(1)] w_steps(3)] w_steps(4)] .

lemma w_acked:
  assumes "acknowledges ack 0"
  shows "all_acked (process_ack w_sent ack t)"
proof -
  have inv: "sw_inv w_sent" using reachable_inv [OF w_reachable] by simp
  note P = process_ack_inv [OF inv, of ack t]
  have n: "sw_next_sequence w_sent = 1" "sw_total_chunks w_sent = 1"
    by (simp_all add: w_sent_def w_selected_def w_fresh_def)
  have "0 \<in> acked_set (process_ack w_sent ack t)" using P(4) assms n by simp
  then have "acked_set (process_ack w_sent ack t) = {..<unat (sw_total_chunks (process_ack w_sent ack t))}"
    using sw.acked_bound [OF P(1)] P(2) n by (auto simp: same_frame_def)
  then show ?thesis using all_acked_iff [OF P(1)] by simp
qed

section \<open>The server's run\<close>

definition example_server :: endpoint where
  "example_server = \<lparr>sin_family = 2, sin_port = 9000, sin_addr = 2\<rparr>"

definition example_start_ack :: bytes where
  "example_start_ack = example_datagram START_ACK 0 (serialize_start_ack (acceptance example_session_start))"

definition example_completion :: "u8 \<Rightarrow> complete_ack_payload" where
  "example_completion b = completion_payload example_session (example_done b)"

definition example_complete_ack :: "u8 \<Rightarrow> bytes" where
  "example_complete_ack b = example_datagram COMPLETE_ACK 1 (serialize_complete_ack (example_completion b))"

lemma example_completion_simps:
  "ca_status (example_completion b) = OK" "ca_received_chunks (example_completion b) = 1"
  "ca_received_bytes (example_completion b) = 1"
  by (simp_all add: example_completion_def completion_payload_def example_done_def example_mark)

lemma example_start_ack_sent:
  "length example_start_ack \<le> kReceiveBufferBytes"
  "wd_sends w = Sent (length example_start_ack) # rs \<Longrightarrow>
     send_start_ack example_client 77 (acceptance example_session_start) w =
     (Returned (), w\<lparr>wd_sends := rs, wd_sent := wd_sent w @ [(example_client, example_start_ack)]\<rparr>)"
proof -
  let ?bs = "serialize_start_ack (acceptance example_session_start)"
  have "length ?bs \<le> 65511" by (simp add: serialize_start_ack_layout)
  then have "serialize_packet (make_header START_ACK 77 0) (Some ?bs) (length ?bs) = Inr example_start_ack"
    by (simp add: serialize_packet_layout example_start_ack_def example_datagram_def)
  from send_packet_ok [OF this] show "wd_sends w = Sent (length example_start_ack) # rs \<Longrightarrow>
     send_start_ack example_client 77 (acceptance example_session_start) w =
     (Returned (), w\<lparr>wd_sends := rs, wd_sent := wd_sent w @ [(example_client, example_start_ack)]\<rparr>)"
    by (simp add: send_start_ack_def Let_def)
  show "length example_start_ack \<le> kReceiveBufferBytes"
    by (simp add: example_start_ack_def example_datagram_def serialize_start_ack_layout kReceiveBufferBytes_def)
qed

lemma example_output_opened:
  "open_output example_kernel path 1 = (Inr example_output, [Open_call path 3, Ftruncate_call 3 1, Mmap_call 3 1 (Some 4096)])"
  by (simp add: open_output_def example_kernel_def example_output_def off_t_max_def)

lemma server_example:
  "\<exists>sends d1 ws'. is_ack_datagram 77 (sv_tracker (example_done b)) kDefaultAckBitmapBits d1 \<and>
     run_server 5 0 0 example_kernel example_server_options
       (idle_world\<lparr>wd_recvs := [Datagram example_client example_start_datagram,
          Datagram example_client (example_datagram DATA 0 [b]),
          Datagram example_client (example_datagram COMPLETE 1 [])],
        wd_clock := [1, 4, 5], wd_sends := sends\<rparr>) = (Blocked, ws') \<and>
     wd_sent ws' = [(example_client, example_start_ack), (example_client, d1),
       (example_client, example_complete_ack b)]"
proof -
  let ?p = "serialize_complete_ack (completion_payload example_session (example_done b))"
  let ?ss = "example_session\<lparr>ss_start := example_session_start\<rparr>"
  obtain n1 d1 where d1: "is_ack_datagram 77 (sv_tracker (example_done b)) kDefaultAckBitmapBits d1"
    and D: "\<And>w rs. wd_clock w = [4, 5] \<Longrightarrow> wd_sends w = Sent n1 # rs \<Longrightarrow>
     handle_data example_session (example_view DATA 0 [b]) (init_server_state example_session 1) w =
     (Returned (example_done b), w\<lparr>wd_clock := [], wd_sends := rs, wd_sent := wd_sent w @ [(example_client, d1)]\<rparr>)"
    using example_handle_data [of b] by (auto simp: acceptance_def)
  obtain n2 d2 where d2: "is_complete_ack_datagram example_session ?p d2"
    and C: "\<And>w rs. wd_sends w = Sent n2 # rs \<Longrightarrow>
     handle_complete example_kernel example_output example_session (example_view COMPLETE 1 []) (example_done b) w =
     (Returned (Completed (example_done b) ?p),
      w\<lparr>wd_sends := rs, wd_files := wd_files w @ [Msync_call 4096 1], wd_flushed := wd_flushed w @ [[b]],
        wd_sent := wd_sent w @ [(example_client, d2)]\<rparr>)"
    using example_handle_complete [of b] by blast
  have "length ?p \<le> 65535" by (simp add: serialize_complete_ack_layout)
  then have d2': "d2 = example_complete_ack b"
    using d2 by (simp add: is_complete_ack_datagram_def serialize_packet_layout example_complete_ack_def
        example_completion_def example_datagram_def)
  have P: "wd_recvs w = Datagram example_client (example_datagram t m bs) # rs \<Longrightarrow> length bs \<le> 65511 \<Longrightarrow>
      receive_packet w = (Returned (example_client, example_view t m bs), w\<lparr>wd_recvs := rs\<rparr>)" for w t m bs rs
    using receive_one [OF example_parses] .
  let ?n0 = "length example_start_ack"
  let ?rs = "[Datagram example_client (example_datagram DATA 0 [b]), Datagram example_client (example_datagram COMPLETE 1 [])]"
  let ?start = "idle_world\<lparr>wd_recvs := Datagram example_client example_start_datagram # ?rs,
        wd_clock := [1, 4, 5], wd_sends := [Sent ?n0, Sent n1, Sent n2]\<rparr>"
  let ?w = "?start\<lparr>wd_printed := [(Cout, waiting_line example_server_options)]\<rparr>"
  let ?w1 = "?w\<lparr>wd_recvs := ?rs\<rparr>"
  have await: "await_start 1500 ?w = (Returned (example_client, 77, example_session_start), ?w1)"
    using receive_one [OF example_start_parses, of ?w example_client ?rs]
    by (subst await_start.simps) (simp add: example_start_of example_valid_start example_start_session)
  let ?w2 = "?w1\<lparr>wd_files := [Open_call ''out'' 3, Ftruncate_call 3 1, Mmap_call 3 1 (Some 4096)]\<rparr>"
  let ?w3 = "?w2\<lparr>wd_sends := [Sent n1, Sent n2], wd_sent := [(example_client, example_start_ack)], wd_clock := [4, 5]\<rparr>"
  let ?w5 = "?w3\<lparr>wd_recvs := [], wd_clock := [], wd_sends := [], wd_files := wd_files ?w3 @ [Msync_call 4096 1],
      wd_flushed := [[b]], wd_sent := [(example_client, example_start_ack), (example_client, d1), (example_client, d2)]\<rparr>"
  have loop: "serve_loop example_kernel example_output example_session (init_server_state example_session 1) ?w3 =
      (Returned (example_done b, ?p), ?w5)"
    by (subst serve_loop.simps, subst serve_loop.simps)
      (simp add: P example_handle_packet io_bind_def io_return_def D C idle_world_def)
  let ?w6 = "?w5\<lparr>wd_printed := wd_printed ?w5 @ map (Pair Cout) (server_report example_session (example_done b))\<rparr>"
  have pr: "print_lines Cout (server_report example_session (example_done b)) ?w5 = (Returned (), ?w6)"
    by (simp only: print_lines_def)
  have tw: "time_wait c s n p ?w6 = (Blocked, ?w6)" for c s n p
    by (simp add: time_wait_def io_bind_def clock_now_def)
  have sa: "send_start_ack example_client 77 (acceptance example_session_start) ?w2 =
      (Returned (), ?w2\<lparr>wd_sends := [Sent n1, Sent n2], wd_sent := [(example_client, example_start_ack)]\<rparr>)"
    using example_start_ack_sent(2) [of ?w2] by (simp add: idle_world_def)
  have acc: "ss_accepted example_session = acceptance example_session_start" by (simp add: example_session_def)
  have trans: "serve_transfer example_kernel example_output 5 example_session ?w2 = (Blocked, ?w6)"
    using loop tw sa pr by (simp add: serve_transfer_def conclude_transfer_def io_bind_def acc clock_now_def)
  have sess: "\<lparr>ss_client = example_client, ss_session_id = 77, ss_start = example_session_start,
      ss_accepted = acceptance example_session_start\<rparr> = example_session" by (simp add: example_session_def)
  have "serve_client example_kernel ''out'' 1500 5 ?w = (Blocked, ?w6)"
    using trans await by (simp add: serve_client_def io_bind_def example_output_opened log_files_def sess io_finally_def
        idle_world_def)
  moreover have "print_lines Cout [waiting_line example_server_options] ?start = (Returned (), ?w)"
    by (simp add: print_lines_def idle_world_def)
  moreover have "so_output example_server_options = ''out''" "so_mtu example_server_options = 1500"
    by (simp_all add: example_server_options_def)
  ultimately have "run_server 5 0 0 example_kernel example_server_options ?start = (Blocked, ?w6)"
    by (simp add: run_server_def io_on_throw_def io_bind_def)
  with d1 d2' show ?thesis by (intro exI [of _ "[Sent ?n0, Sent n1, Sent n2]"] exI [of _ d1] exI [of _ ?w6]) simp
qed

section \<open>The client's run\<close>

definition example_options :: client_options where
  "example_options =
     default_client_options\<lparr>co_host := ''server'', co_port := 9000, co_file := ''in''\<rparr>"

definition example_pacer :: pacer where
  "example_pacer = \<lparr>bytes_per_nanosecond = of_nat (unat (95000000 :: u64)) / (kBitsPerByte * kNanosecondsPerSecond),
     tokens_bytes = of_nat kBurstCapacityBytes, last_refill_time = 0\<rparr>"

lemma example_rate: "make_pacer (rate_bps example_options) 0 = Inr example_pacer"
  by (simp add: rate_bps_def example_options_def default_client_options_def make_pacer_def example_pacer_def)

lemma pacer_wait_example:
  assumes "wd_clock w = 0 # ts" and "n \<le> 9015"
  shows "pacer_wait example_pacer n w =
    (Returned (example_pacer\<lparr>tokens_bytes := tokens_bytes example_pacer - of_nat n\<rparr>), w\<lparr>wd_clock := ts\<rparr>)"
  using assms
  by (simp add: pacer_wait_def io_bind_def clock_now_def io_return_def Let_def refill_def example_pacer_def
      kBurstCapacityBytes_def pacer_wait_loop.simps)

definition example_config :: client_config where
  "example_config = \<lparr>cc_server = example_server, cc_session_id = 77, cc_data = Some [42], cc_size = 1,
     cc_chunk_size = 1448, cc_total_chunks = 1, cc_accepted = acceptance example_session_start\<rparr>"

lemma example_config_simps [simp]:
  "cc_server example_config = example_server" "cc_session_id example_config = 77"
  "cc_data example_config = Some [42]" "cc_size example_config = 1" "cc_chunk_size example_config = 1448"
  "cc_total_chunks example_config = 1" "cc_accepted example_config = acceptance example_session_start"
  by (simp_all add: example_config_def)

text \<open>An ACK that reports the chunk.\<close>

definition is_final_ack :: "bytes \<Rightarrow> bool" where
  "is_final_ack d \<longleftrightarrow> length d \<le> kReceiveBufferBytes \<and>
     (\<exists>v ack. expected_view example_server ACK 77 example_server d = Some v \<and>
        flags (view_header v) AND FLAG_SACK \<noteq> 0 \<and>
        deserialize_ack (view_payload v) (view_payload_size v) = Some ack \<and>
        ak_bitmap_bits ack = kDefaultAckBitmapBits \<and> acknowledges ack 0)"

lemma example_ack_final:
  assumes "is_ack_datagram 77 (sv_tracker (example_done b)) kDefaultAckBitmapBits d"
  shows "is_final_ack d"
proof -
  let ?t = "sv_tracker (example_done b)"
  let ?ack = "make_ack_snapshot ?t kDefaultAckBitmapBits"
  obtain k bs where bs: "serialize_ack ?ack = Inr bs"
    and d: "serialize_packet ((make_header ACK 77 k)\<lparr>flags := FLAG_SACK\<rparr>) (Some bs) (length bs) = Inr d"
    using assms by (auto simp: is_ack_datagram_def)
  let ?h = "(make_header ACK 77 k)\<lparr>flags := FLAG_SACK\<rparr>"
  have "bitmap_bytes kDefaultAckBitmapBits = 1024" by (simp add: bitmap_bytes_def kDefaultAckBitmapBits_def)
  then have len: "length bs \<le> 60000"
    using bs snapshot_bitmap(1) [OF example_done_inv, of b kDefaultAckBitmapBits]
    by (auto simp: serialize_ack_layout split: if_splits)
  then have d: "d = header_bytes ?h (length bs) @ bs" using d by (simp add: serialize_packet_layout)
  have s: "sendable_header ?h"
    using sendable_make_header [of ACK 77 k] by (simp add: sendable_header_def FLAG_SACK_def FLAG_CRC32C_def)
  let ?v = "\<lparr>view_header = sent_header ?h (length bs), view_payload = Some bs, view_payload_size = length bs\<rparr>"
  have v: "parses_to d ?v" using parses_header [OF s, of bs] len d by (simp add: kReceiveBufferBytes_def)
  have l: "length d \<le> kReceiveBufferBytes" using len d by (simp add: kReceiveBufferBytes_def)
  have e: "expected_view example_server ACK 77 example_server d = Some ?v"
    by (rule expected_view_example [OF v l]) (simp_all add: sent_header_def make_header_def)
  have f: "flags (view_header ?v) AND FLAG_SACK \<noteq> 0"
    by (simp add: sent_header_def FLAG_SACK_def)
  have "received_set ?t = {..<1}"
    using rt.full_iff [OF example_done_inv, of b] example_complete(1) [of b]
    by (simp add: example_done_def example_mark)
  then have "acknowledges ?ack 0" using example_complete(2) [of b] by (simp add: acknowledges_def)
  moreover have "deserialize_ack (Some bs) (length bs) = Some ?ack" by (rule ack_codec.de_ser [OF bs])
  ultimately show ?thesis using l e f unfolding is_final_ack_def by (intro conjI exI [of _ ?v] exI [of _ ?ack]) simp_all
qed

lemma drain_final:
  assumes "is_final_ack d"
  shows "\<exists>window. all_acked window \<and> (\<forall>w ts rs.
    wd_recvs w = Datagram example_server d # Recv_would_block # rs \<longrightarrow> wd_clock w = 0 # ts \<longrightarrow>
    drain_acks example_server 77 w_sent w = (Returned window, w\<lparr>wd_recvs := rs, wd_clock := ts\<rparr>))"
proof -
  from assms obtain v ack where A: "length d \<le> kReceiveBufferBytes"
    "expected_view example_server ACK 77 example_server d = Some v" "flags (view_header v) AND FLAG_SACK \<noteq> 0"
    "deserialize_ack (view_payload v) (view_payload_size v) = Some ack"
    "ak_bitmap_bits ack = kDefaultAckBitmapBits" "acknowledges ack 0" by (auto simp: is_final_ack_def)
  show ?thesis
    using w_acked [OF A(6), of 0] drain_ack [OF _ _ A(1-5)]
    by (intro exI [of _ "process_ack w_sent ack 0"]) simp
qed

lemma example_client_send:
  assumes "is_final_ack d"
    and "wd_recvs w = Datagram example_server d # Recv_would_block # rs"
    and "wd_clock w = 0 # 0 # 0 # 0 # 0 # 0 # 0 # ts" and "wd_sends w = Sent 25 # ss"
  shows "\<exists>st. all_acked (cl_window st) \<and>
    client_send example_config first_packet
        (init_client_state w_fresh example_pacer 0\<lparr>cl_window := w_selected\<rparr>) w =
      (Returned st, w\<lparr>wd_recvs := rs, wd_clock := ts, wd_sends := ss,
         wd_sent := wd_sent w @ [(example_server, example_datagram DATA 0 [42])]\<rparr>)"
proof -
  obtain window where acked: "all_acked window"
    and drain: "\<And>w ts rs. wd_recvs w = Datagram example_server d # Recv_would_block # rs \<Longrightarrow> wd_clock w = 0 # ts \<Longrightarrow>
      drain_acks example_server 77 w_sent w = (Returned window, w\<lparr>wd_recvs := rs, wd_clock := ts\<rparr>)"
    using drain_final [OF assms(1)] by blast
  let ?st = "init_client_state w_fresh example_pacer 0"
  have st: "cl_pacer ?st = example_pacer" "cl_diagnostics ?st = no_diagnostics" "cl_sent_first_data ?st = False"
    by (simp_all add: init_client_state_def)
  have diag: "end_no_send 0 no_diagnostics = no_diagnostics" by (simp add: end_no_send_def no_diagnostics_def)
  have send: "send_data_packet example_server (make_header DATA 77 0) (Some [42]) 1 w =
      (Returned (), w\<lparr>wd_sends := ss, wd_sent := wd_sent w @ [(example_server, example_datagram DATA 0 [42])]\<rparr>)"
    if "wd_sends w = Sent 25 # ss" for w ss
    using send_loop_ok [of w "example_datagram DATA 0 [42]" ss] that
    by (simp add: send_data_packet_def io_defs serialize_packet_header_layout example_datagram_def)
  have hdr: "data_header example_config first_packet = make_header DATA 77 0"
    "data_from example_config 0 = Some [42]"
    by (simp_all add: data_header_def first_packet_def data_from_def)
  have fp: "sequence first_packet = 0" "retransmission first_packet = False" by (simp_all add: first_packet_def)
  have pw: "pacer_wait example_pacer (kIpv4UdpOverhead + kHeaderSize + 1) w =
    (Returned (example_pacer\<lparr>tokens_bytes := tokens_bytes example_pacer - 53\<rparr>), w\<lparr>wd_clock := ts\<rparr>)"
    if "wd_clock w = 0 # ts" for w ts
    using pacer_wait_example [OF that, of 53] by (simp add: kIpv4UdpOverhead_def kHeaderSize_def)
  show ?thesis
    using assms(2-4) acked
    by (simp add: client_send_def client_pace_def note_first_data_def clock_now_def io_bind_def io_return_def
        Let_def st diag fp hdr pw send w_steps io_sum_def client_drain_def count_sent_def drain del: One_nat_def)
qed

lemma example_client_round:
  assumes "is_final_ack d"
    and "wd_recvs w = Recv_would_block # Datagram example_server d # Recv_would_block # rs"
    and "wd_clock w = 0 # 0 # 0 # 0 # 0 # 0 # 0 # 0 # 0 # ts" and "wd_sends w = Sent 25 # ss"
  shows "\<exists>st. all_acked (cl_window st) \<and>
    client_round example_config (init_client_state w_fresh example_pacer 0) w =
      (Returned st, w\<lparr>wd_recvs := rs, wd_clock := ts, wd_sends := ss,
         wd_sent := wd_sent w @ [(example_server, example_datagram DATA 0 [42])]\<rparr>)"
proof -
  let ?st0 = "init_client_state w_fresh example_pacer 0"
  have win: "cl_window ?st0 = w_fresh" "cl_next_window_sample ?st0 = ms 100" "?st0\<lparr>cl_window := w_fresh\<rparr> = ?st0"
    by (simp_all add: init_client_state_def kWindowSampleInterval_def)
  let ?w1 = "w\<lparr>wd_recvs := Datagram example_server d # Recv_would_block # rs\<rparr>"
  have "client_drain example_config ?st0 w = (Returned ?st0, ?w1)"
    using drain_nothing [OF assms(2)] win by (simp add: client_drain_def io_defs)
  with example_client_send [OF assms(1), of "?w1\<lparr>wd_clock := 0 # 0 # 0 # 0 # 0 # 0 # 0 # ts\<rparr>" rs ts ss] assms(3,4)
  show ?thesis
    by (simp add: client_round_def io_bind_def [of "client_drain _ _"] clock_now_def io_bind_def [of clock_now]
        w_steps win sample_window_def ms_def io_return_def Let_def)
qed

lemma example_start_handshake:
  assumes "wd_recvs w = Datagram example_server example_start_ack # rs" and "wd_polls w = Poll_ready # ps"
    and "wd_clock w = 0 # 0 # 0 # ts" and "wd_sends w = Sent 48 # ss"
  shows "\<exists>polled. start_handshake kControlAttempts example_server 77 example_session_start w =
    (Returned (acceptance example_session_start), w\<lparr>wd_recvs := rs, wd_polls := ps, wd_clock := ts,
       wd_sends := ss, wd_sent := wd_sent w @ [(example_server, example_start_datagram)], wd_polled := polled\<rparr>)"
proof -
  let ?bs = "serialize_start_ack (acceptance example_session_start)"
  let ?v = "example_view START_ACK 0 ?bs"
  have "length ?bs \<le> 65511" by (simp add: serialize_start_ack_layout)
  then have p: "parses_to example_start_ack ?v" unfolding example_start_ack_def by (rule example_parses)
  have e: "expected_view example_server START_ACK 77 example_server example_start_ack = Some ?v"
    by (rule expected_view_example [OF p example_start_ack_sent(1)]) simp_all
  have ser: "serialize_packet (make_header START 77 0) (Some (serialize_start example_session_start)) 24 =
      Inr example_start_datagram"
    by (simp add: serialize_packet_layout example_start_datagram_def)
  have len: "length example_start_datagram = 48" by (simp add: example_start_datagram_def)
  have de: "deserialize_start_ack (Some ?bs) (length ?bs) = Some (acceptance example_session_start)"
    by (rule start_ack_codec.de_ser) simp
  let ?w1 = "w\<lparr>wd_sends := ss, wd_sent := wd_sent w @ [(example_server, example_start_datagram)]\<rparr>"
  have s: "send_packet example_server (make_header START 77 0) (Some (serialize_start example_session_start)) 24 w =
      (Returned (), ?w1)"
    using send_packet_ok [OF ser] assms(4) len by simp
  have "kControlTimeoutMs = 1000" by (simp add: kControlTimeoutMs_def)
  then obtain polled where r: "receive_expected example_server START_ACK 77 kControlTimeoutMs None ?w1 =
      (Returned (Some ?v, None), ?w1\<lparr>wd_recvs := rs, wd_polls := ps, wd_clock := ts, wd_polled := polled\<rparr>)"
    using receive_expected_one [OF _ _ _ _ example_start_ack_sent(1) e, of ?w1 rs ps 0 0 0 ts kControlTimeoutMs] assms(1-3)
    by (auto simp: ms_def)
  have st: "sa_status (acceptance s) = OK" for s by (simp add: acceptance_def)
  have k: "kControlAttempts = Suc (kControlAttempts - 1)" by (simp add: kControlAttempts_def)
  show ?thesis
    by (intro exI [of _ polled], subst k, subst start_handshake.simps)
      (simp add: s r de st Let_def io_bind_def io_return_def)
qed

lemma example_complete_handshake:
  assumes "wd_recvs w = Datagram example_server (example_complete_ack b) # rs" and "wd_polls w = Poll_ready # ps"
    and "wd_clock w = 0 # 0 # 0 # ts" and "wd_sends w = Sent 24 # ss"
  shows "\<exists>polled. complete_handshake kControlAttempts example_server 77 1 w =
    (Returned (example_completion b), w\<lparr>wd_recvs := rs, wd_polls := ps, wd_clock := ts,
       wd_sends := ss, wd_sent := wd_sent w @ [(example_server, example_datagram COMPLETE 1 [])], wd_polled := polled\<rparr>)"
proof -
  let ?bs = "serialize_complete_ack (example_completion b)"
  let ?v = "example_view COMPLETE_ACK 1 ?bs"
  have "length ?bs \<le> 65511" by (simp add: serialize_complete_ack_layout)
  then have p: "parses_to (example_complete_ack b) ?v" unfolding example_complete_ack_def by (rule example_parses)
  have l: "length (example_complete_ack b) \<le> kReceiveBufferBytes"
    by (simp add: example_complete_ack_def example_datagram_def serialize_complete_ack_layout kReceiveBufferBytes_def)
  have e: "expected_view example_server COMPLETE_ACK 77 example_server (example_complete_ack b) = Some ?v"
    by (rule expected_view_example [OF p l]) simp_all
  have ser: "serialize_packet (make_header COMPLETE 77 1) None 0 = Inr (example_datagram COMPLETE 1 [])"
    by (simp add: serialize_packet_empty example_datagram_def)
  have len: "length (example_datagram COMPLETE 1 []) = 24" by (simp add: example_datagram_def)
  have de: "deserialize_complete_ack (Some ?bs) (length ?bs) = Some (example_completion b)"
    by (rule complete_ack_codec.de_ser) simp
  let ?w1 = "w\<lparr>wd_sends := ss, wd_sent := wd_sent w @ [(example_server, example_datagram COMPLETE 1 [])]\<rparr>"
  have s: "send_packet example_server (make_header COMPLETE 77 1) None 0 w = (Returned (), ?w1)"
    using send_packet_ok [OF ser] assms(4) len by simp
  have "kControlTimeoutMs = 1000" by (simp add: kControlTimeoutMs_def)
  then obtain polled where r: "receive_expected example_server COMPLETE_ACK 77 kControlTimeoutMs None ?w1 =
      (Returned (Some ?v, None), ?w1\<lparr>wd_recvs := rs, wd_polls := ps, wd_clock := ts, wd_polled := polled\<rparr>)"
    using receive_expected_one [OF _ _ _ _ l e, of ?w1 rs ps 0 0 0 ts kControlTimeoutMs] assms(1-3)
    by (auto simp: ms_def)
  have k: "kControlAttempts = Suc (kControlAttempts - 1)" by (simp add: kControlAttempts_def)
  show ?thesis
    by (intro exI [of _ polled], subst k, subst complete_handshake.simps)
      (simp add: s r de example_completion_simps Let_def io_bind_def io_return_def)
qed

lemma example_client_transfer:
  assumes "is_final_ack d"
    and "wd_recvs w = [Recv_would_block, Datagram example_server d, Recv_would_block,
      Datagram example_server (example_complete_ack b)]" and "wd_polls w = [Poll_ready]"
    and "wd_clock w = 0 # 0 # 0 # 0 # 0 # 0 # 0 # 0 # 0 # 0 # 0 # 0 # 0 # 0 # 0 # 0 # 0 # []"
    and "wd_sends w = [Sent 25, Sent 24]"
  shows "\<exists>report w'. client_transfer example_options example_config w = (Returned report, w') \<and>
    wd_sent w' = wd_sent w @ [(example_server, example_datagram DATA 0 [42]), (example_server, example_datagram COMPLETE 1 [])]"
proof -
  let ?w3 = "w\<lparr>wd_clock := 0 # 0 # 0 # 0 # 0 # 0 # 0 # 0 # 0 # 0 # 0 # 0 # 0 # 0 # []\<rparr>"
  let ?w4 = "?w3\<lparr>wd_recvs := [Datagram example_server (example_complete_ack b)], wd_clock := [0, 0, 0, 0, 0],
    wd_sends := [Sent 24], wd_sent := wd_sent w @ [(example_server, example_datagram DATA 0 [42])]\<rparr>"
  let ?w5 = "w\<lparr>wd_recvs := [Datagram example_server (example_complete_ack b)], wd_sends := [Sent 24],
    wd_sent := wd_sent w @ [(example_server, example_datagram DATA 0 [42])], wd_clock := [0, 0, 0, 0]\<rparr>"
  let ?st0 = "init_client_state w_fresh example_pacer 0"
  obtain st where st: "all_acked (cl_window st)" "client_round example_config ?st0 ?w3 = (Returned st, ?w4)"
    using example_client_round [OF assms(1), of ?w3 "[Datagram example_server (example_complete_ack b)]"
        "[0, 0, 0, 0, 0]" "[Sent 24]"] assms(2,5) by auto
  have "\<not> all_acked (cl_window ?st0)" by (simp add: init_client_state_def w_fresh_def all_acked_def)
  then have loop: "client_loop example_config ?st0 ?w3 = (Returned st, ?w4)"
    using st by (subst client_loop.simps) (simp add: client_loop.simps [of _ st])
  obtain polled where comp: "complete_handshake kControlAttempts example_server 77 1 ?w5 =
    (Returned (example_completion b), ?w5\<lparr>wd_recvs := [], wd_polls := [], wd_clock := [0],
       wd_sends := [], wd_sent := wd_sent ?w5 @ [(example_server, example_datagram COMPLETE 1 [])], wd_polled := polled\<rparr>)"
    using example_complete_handshake [of ?w5 b "[]" "[]" "[0]" "[]"] assms(3) by auto
  have win: "make_sender_window 1 (sa_accepted_window_chunks (acceptance example_session_start))
      (ucast (sa_accepted_bitmap_bits (acceptance example_session_start))) 0 = Inr w_fresh"
    using w_steps(1) by (simp add: acceptance_def example_session_start_def kDefaultAckBitmapBits_def min_def)
  show ?thesis
    using assms(4) by (simp add: client_transfer_def client_exchange_def print_lines_def io_bind_def clock_now_def io_sum_def io_return_def win example_rate
        loop comp Let_def example_completion_simps)
qed

lemma client_example:
  assumes "is_final_ack d"
  shows "\<exists>report wc'. run_client (\<lambda>_ _. Inr example_server) example_kernel [42] 6 0 [(0, 77)] example_options
      (idle_world\<lparr>wd_recvs := [Datagram example_server example_start_ack, Recv_would_block, Datagram example_server d,
          Recv_would_block, Datagram example_server (example_complete_ack b)],
        wd_polls := [Poll_ready, Poll_ready], wd_clock := replicate 20 0,
        wd_sends := [Sent 48, Sent 25, Sent 24]\<rparr>) = (Returned report, wc') \<and>
    wd_sent wc' = [(example_server, example_start_datagram), (example_server, example_datagram DATA 0 [42]),
      (example_server, example_datagram COMPLETE 1 [])]"
proof -
  let ?rs = "[Recv_would_block, Datagram example_server d, Recv_would_block, Datagram example_server (example_complete_ack b)]"
  let ?w0 = "idle_world\<lparr>wd_recvs := Datagram example_server example_start_ack # ?rs,
        wd_polls := [Poll_ready, Poll_ready], wd_clock := replicate 20 0, wd_sends := [Sent 48, Sent 25, Sent 24]\<rparr>"
  let ?f = "\<lparr>mf_fd = 3, mf_data = Some 4096, mf_size = 1\<rparr> :: mapped_file"
  let ?calls = "[Open_call ''in'' 3, Fstat_call 3, Mmap_call 3 1 (Some 4096)]"
  have opened: "open_input example_kernel ''in'' = (Inr ?f, ?calls)"
    by (simp add: open_input_def example_kernel_def)
  let ?w1 = "?w0\<lparr>wd_files := ?calls\<rparr>"
  let ?ts = "0 # 0 # 0 # 0 # 0 # 0 # 0 # 0 # 0 # 0 # 0 # 0 # 0 # 0 # 0 # 0 # 0 # [] :: time_ns list"
  have clock: "replicate 20 (0 :: time_ns) = 0 # 0 # 0 # ?ts" by (simp add: numeral_eq_Suc)
  obtain polled where start: "start_handshake kControlAttempts example_server 77 example_session_start ?w1 =
    (Returned (acceptance example_session_start), ?w1\<lparr>wd_recvs := ?rs, wd_polls := [Poll_ready], wd_clock := ?ts,
       wd_sends := [Sent 25, Sent 24], wd_sent := [(example_server, example_start_datagram)], wd_polled := polled\<rparr>)"
    (is "_ = (_, ?w2)")
    using example_start_handshake [of ?w1 ?rs "[Poll_ready]" ?ts "[Sent 25, Sent 24]"] clock
    by (auto simp: idle_world_def)
  obtain report w' where T: "client_transfer example_options example_config ?w2 = (Returned report, w')"
    "wd_sent w' = [(example_server, example_start_datagram), (example_server, example_datagram DATA 0 [42]), (example_server, example_datagram COMPLETE 1 [])]"
    using example_client_transfer [OF assms, of ?w2 b] by auto
  have valid: "valid_acceptance (acceptance example_session_start)"
    by (simp add: valid_acceptance_def acceptance_def example_session_start_def kDefaultAckBitmapBits_def min_def)
  have req: "start_request 1 1448 1 = example_session_start"
    by (simp add: start_request_def example_session_start_def default_window_chunks_def kDefaultWindowBytes_def
        kDefaultAckIntervalMs_def)
  have sess: "client_session 0 [(0, 77)] example_options (Some [42]) 1 1448 1 example_server ?w1 = (Returned report, w')"
    using start T(1) valid
    by (simp add: client_session_def random_session_id.simps Let_def io_bind_def req example_config_def)
  have chunks: "chunk_size_for_mtu (co_mtu example_options) = Inr 1448" "chunk_count 1 1448 = Inr 1"
    "\<not> default_window_chunks 1448 > ucast kDefaultAckBitmapBits"
    by (simp_all add: chunk_size_for_mtu_def example_options_def default_client_options_def kIpv4UdpOverhead_def
        kHeaderSize_def chunk_count_def default_window_chunks_def kDefaultWindowBytes_def
        kDefaultAckBitmapBits_def)
  have "send_file (\<lambda>_ _. Inr example_server) [42] 6 0 [(0, 77)] example_options ?f ?w1 =
      (Returned report, w'\<lparr>wd_closed := wd_closed w' @ [6]\<rparr>)"
    using sess chunks by (simp add: send_file_def io_bind_def io_sum_def io_return_def resolve_server_def
        io_on_throw_def close_socket_def)
  then have "run_client (\<lambda>_ _. Inr example_server) example_kernel [42] 6 0 [(0, 77)] example_options ?w0 =
    (Returned report, w'\<lparr>wd_closed := wd_closed w' @ [6], wd_files := wd_files w' @ close_input ?f\<rparr>)"
    using opened by (simp add: run_client_def example_options_def io_bind_def log_files_def idle_world_def io_finally_def io_return_def)
  with T(2) show ?thesis by simp
qed

end
