(* ===== verification/Client_Properties.thy ===== *)
theory Client_Properties
  imports Example_Run Client_Trace
begin

unbundle bit_operations_syntax

text \<open>
  The properties of the client.
\<close>

section \<open>The pacer on the clock of the world\<close>

interpretation readings: world_frame "\<lambda>w w'. set (wd_clock w') \<subseteq> set (wd_clock w)"
  by unfold_locales auto

lemma readings_clock: "readings.keeps clock_now"
  by (rule readings.keepsI) (auto simp: clock_now_def split: list.splits)

text \<open>The rounds of the loop are those of \<open>wait_loop\<close>, for any oracle that starts with the clock readings
  at which the waits ended.\<close>

lemma pacer_wait_loop_refines:
  "pacer_wait_loop pb cap now p w = (Returned p', w') \<Longrightarrow>
   \<exists>ts. set ts \<subseteq> set (wd_clock w) \<and>
     (\<forall>wake k. (\<forall>i a. i < length ts \<longrightarrow> wake (k + i) a = ts ! i) \<longrightarrow> wait_loop wake k pb cap now p = Some p')"
proof (induction pb cap now p w rule: pacer_wait_loop.induct)
  case (1 pb cap now p w)
  show ?case
  proof (cases "tokens_bytes p < pb")
    case False
    then show ?thesis using 1(2)
      by (intro exI [of _ "[]"]) (simp add: pacer_wait_loop.simps [of pb cap now p w] wait_loop.simps)
  next
    case True
    let ?m = "io_bind (perform_waits (wait_actions p pb cap now)) (\<lambda>_. clock_now)"
    obtain t v where m: "?m w = (Returned t, v)"
      and rest: "pacer_wait_loop pb cap t (refill p t cap) v = (Returned p', w')"
      using 1(2) True
      by (subst (asm) pacer_wait_loop.simps) (auto split: prod.splits outcome.splits)
    obtain v0 where v0: "perform_waits (wait_actions p pb cap now) w = (Returned (), v0)" "clock_now v0 = (Returned t, v)"
      using m by (auto simp: io_bind_returned)
    have sub: "t \<in> set (wd_clock w)" "set (wd_clock v) \<subseteq> set (wd_clock w)"
      using readings.keepsD [OF readings.keeps_perform_waits [OF readings_clock] v0(1)]
        clock_now_returned [OF v0(2)] by auto
    obtain ts where ts: "set ts \<subseteq> set (wd_clock v)"
      and IH: "\<And>wake k. (\<forall>i a. i < length ts \<longrightarrow> wake (k + i) a = ts ! i) \<Longrightarrow>
        wait_loop wake k pb cap t (refill p t cap) = Some p'"
      using 1(1) [OF True m [symmetric] refl rest] by blast
    have "wait_loop wake k pb cap now p = Some p'"
      if wake: "\<forall>i a. i < length (t # ts) \<longrightarrow> wake (k + i) a = (t # ts) ! i" for wake k
    proof -
      have "wake k a = t" for a using wake [rule_format, of 0] by simp
      moreover have "\<forall>i a. i < length ts \<longrightarrow> wake (Suc k + i) a = ts ! i"
        using wake [rule_format, of "Suc _"] by simp
      ultimately show ?thesis using IH [of wake "Suc k"] True by (subst wait_loop.simps) (simp add: Let_def)
    qed
    then show ?thesis using sub ts by (intro exI [of _ "t # ts"]) auto
  qed
qed

section \<open>At most ten attempts\<close>

lemma send_loop_once: "length (wd_sent (snd (send_loop what dest d w))) \<le> Suc (length (wd_sent w))"
proof (induction what dest d w rule: send_loop.induct)
  case (1 what dest d w)
  obtain r v where s: "sendto dest d w = (r, v)" by fastforce
  show ?case
  proof (cases "r = Returned Send_interrupted")
    case True
    then have "wd_sent v = wd_sent w"
      using s by (auto simp: sendto_def split: list.splits send_result.splits)
    with 1 [OF s [symmetric] True refl] s True show ?thesis by (subst send_loop.simps) simp
  next
    case False
    then show ?thesis using s
      by (subst send_loop.simps) (auto simp: sendto_def throw_errno_def split: list.splits send_result.splits if_splits)
  qed
qed

lemma send_packet_once: "length (wd_sent (snd (send_packet dest h p n w))) \<le> Suc (length (wd_sent w))"
  using send_loop_once [of "''sendto failed: ''" dest _ w]
  by (simp add: send_packet_def io_defs split: sum.splits)

lemma start_handshake_attempts:
  "length (wd_sent (snd (start_handshake n server sid start w))) \<le> length (wd_sent w) + n"
proof (induction n arbitrary: w)
  case (Suc n)
  let ?p = "serialize_start start"
  obtain r w1 where s: "send_packet server (make_header START sid 0) (Some ?p) (length ?p) w = (r, w1)" by fastforce
  have len: "length (wd_sent w1) \<le> Suc (length (wd_sent w))" using send_packet_once [of server _ _ _ w] s by (metis snd_conv)
  obtain r' w2 where v: "receive_expected server START_ACK sid kControlTimeoutMs None w1 = (r', w2)" by fastforce
  have "wd_sent w2 = wd_sent w1"
    using sent.keepsD [OF sent.keeps_receive_expected [OF sent_keeps(1-3)] v] .
  then have len2: "length (wd_sent w2) \<le> Suc (length (wd_sent w))" using len by simp
  show ?case
    using Suc.IH [of w2] len len2 s v
    by (auto simp: Let_def io_bind_def io_throw_def io_return_def split: outcome.splits option.splits prod.splits if_splits)
qed (simp add: io_throw_def)

section \<open>The plan of the example\<close>

definition example_input :: mapped_file where
  "example_input = \<lparr>mf_fd = 3, mf_data = Some 4096, mf_size = 1\<rparr>"

lemma example_plan:
  "client_plan (\<lambda>_ _. Inr example_server) example_kernel [42] [(0, 77)] example_options example_input 1448 1
     example_server 77"
  by (simp add: client_plan_def open_input_def example_kernel_def example_input_def resolve_server_def
      chunk_size_for_mtu_def example_options_def default_client_options_def kIpv4UdpOverhead_def
      kHeaderSize_def chunk_count_def random_session_id.simps Let_def)

text \<open>The run of the example, with a fixed server.\<close>

lemma example_client_run:
  "\<exists>w w' st completed. wd_sent w = [] \<and>
     run_client (\<lambda>_ _. Inr example_server) example_kernel [42] 6 0 [(0, 77)] example_options w =
       (Returned (st, completed), w') \<and>
     wd_sent w' = [(example_server, example_start_datagram), (example_server, example_datagram DATA 0 [42]),
       (example_server, example_datagram COMPLETE 1 [])]"
proof -
  obtain d where d: "is_ack_datagram 77 (sv_tracker (example_done 42)) kDefaultAckBitmapBits d"
    using server_example [of 42] by blast
  obtain sends polls clock recvs report w' where "run_client (\<lambda>_ _. Inr example_server) example_kernel [42] 6 0 [(0, 77)] example_options
      (idle_world\<lparr>wd_recvs := recvs, wd_polls := polls, wd_clock := clock, wd_sends := sends\<rparr>) = (Returned report, w')"
    "wd_sent w' = [(example_server, example_start_datagram), (example_server, example_datagram DATA 0 [42]),
       (example_server, example_datagram COMPLETE 1 [])]"
    using client_example [OF example_ack_final [OF d], of 42] by blast
  moreover have "wd_sent (idle_world\<lparr>wd_recvs := recvs, wd_polls := polls, wd_clock := clock, wd_sends := sends\<rparr>) = []"
    by (simp add: idle_world_def)
  ultimately show ?thesis by (metis surj_pair)
qed

section \<open>Properties\<close>

text \<open>C13: The client sends nothing but the transfer.  Whatever arrives and however the run ends, every
  datagram goes to the resolved server and is the START request, a DATA packet with one chunk of the
  file under its number, or the COMPLETE of this session.  Each is sent whole; only when the run ends
  with a runtime error may the last thing on the wire be the first \<open>n\<close> bytes of one of these, where \<open>n\<close> is
  what the last call of \<^verbatim>\<open>sendto\<close> or \<^verbatim>\<open>sendmsg\<close> reported.\<close>

theorem client_sends_only_the_file:
  assumes "client_plan getaddrinfo k contents randoms options f c n server sid"
    and "run_client getaddrinfo k contents socket_fd discover_rc randoms options w = (r, w')"
  shows "sends_whole (client_sends server contents (start_request (mf_size f) c n) sid) (call_failed r) w w'"
  by (rule doesD(2) [OF does_run_client [OF assms(1)] assms(2) subset_refl])

theorem client_sends_only_the_file_witness:
  "client_sends example_server [42] (start_request 1 1448 1) 77 (example_server, example_datagram DATA 0 [42])"
proof -
  obtain w w' st completed where w: "wd_sent w = []" and
    run: "run_client (\<lambda>_ _. Inr example_server) example_kernel [42] 6 0 [(0, 77)] example_options w =
       (Returned (st, completed), w')" and
    s: "wd_sent w' = [(example_server, example_start_datagram), (example_server, example_datagram DATA 0 [42]),
       (example_server, example_datagram COMPLETE 1 [])]"
    using example_client_run by blast
  show ?thesis using client_sends_only_the_file [OF example_plan run]
    by (simp add: sends_whole_def w s example_input_def)
qed

text \<open>C11: The client reports success only when the server has confirmed it.  When a run returns, every
  chunk is acknowledged in its window, and a COMPLETE_ACK of this session from the server has arrived
  that reports success with all chunks and all bytes of the file.  Its counters add up: each chunk was
  sent for the first time exactly once, so the DATA packets are the chunks plus the retransmissions,
  and these are the fast ones plus those after a timeout.\<close>

theorem client_success_confirmed:
  assumes "client_plan getaddrinfo k contents randoms options f c n server sid"
    and "run_client getaddrinfo k contents socket_fd discover_rc randoms options w =
      (Returned (st, completed), w')"
  shows "acked_set (cl_window st) = {..<unat n} \<and>
    cl_sent_data_packets st = ucast n + cl_retransmitted_packets st \<and>
    cl_retransmitted_packets st =
      fast_retransmits (cl_diagnostics st) + rto_retransmits (cl_diagnostics st) \<and>
    ca_status completed = OK \<and> ca_received_chunks completed = n \<and> ca_received_bytes completed = mf_size f \<and>
    (\<exists>bs packet. Datagram server bs \<in> set (wd_recvs w) \<and> parses_to bs packet \<and>
       session_id (view_header packet) = sid \<and> ptype (view_header packet) = COMPLETE_ACK \<and>
       deserialize_complete_ack (view_payload packet) (view_payload_size packet) = Some completed)"
  using doesD(3) [OF does_run_client [OF assms(1)] assms(2) subset_refl]
  by (auto simp: client_report_ok_def counted_def success_arrived_def arrived_def)

theorem client_success_confirmed_witness:
  "\<exists>w st completed w'. run_client (\<lambda>_ _. Inr example_server) example_kernel [42] 6 0 [(0, 77)] example_options w =
      (Returned (st, completed), w') \<and> acked_set (cl_window st) = {0} \<and> ca_received_bytes completed = 1 \<and>
    cl_sent_data_packets st = 1 + cl_retransmitted_packets st"
proof -
  obtain w w' st completed where run: "run_client (\<lambda>_ _. Inr example_server) example_kernel [42] 6 0 [(0, 77)] example_options w =
       (Returned (st, completed), w')"
    using example_client_run by blast
  have "{..<unat (1 :: u32)} = {0}" by (auto simp: lessThan_def)
  with client_success_confirmed [OF example_plan run] run show ?thesis by (auto simp: example_input_def)
qed

text \<open>C31: How the client fails.  Once the file is open, the MTU accepted and the server resolved, a run
  that throws throws a \<^verbatim>\<open>runtime_error\<close>, or the pacer's error for a rate of zero: no packet from the network
  can make the sender window, the diagnostics or a codec throw.\<close>

theorem client_errors:
  assumes "client_plan getaddrinfo k contents randoms options f c n server sid"
    and "run_client getaddrinfo k contents socket_fd discover_rc randoms options w = (Thrown e, w')"
  shows "(\<exists>s. e = Runtime_error s) \<or> e = Invalid_argument ''pacing rate must be greater than zero''"
  using doesD(3) [OF does_run_client [OF assms(1)] assms(2) subset_refl]
  by (auto simp: pacing_error_def runtime_error_def)

lemma example_no_socket:
  "run_client (\<lambda>_ _. Inr example_server) example_kernel [42] (- 1) 0 [(0, 77)] example_options idle_world =
     (Thrown (Runtime_error ''socket failed: ''), idle_world\<lparr>wd_files :=
        [Open_call ''in'' 3, Fstat_call 3, Mmap_call 3 1 (Some 4096), Munmap_call 4096 1, Close_call 3]\<rparr>)"
  by (simp add: run_client_def send_file_def io_bind_def log_files_def io_finally_def io_throw_def throw_errno_def
      example_options_def default_client_options_def open_input_def example_kernel_def idle_world_def
      chunk_size_for_mtu_def kIpv4UdpOverhead_def kHeaderSize_def chunk_count_def default_window_chunks_def
      kDefaultWindowBytes_def kDefaultAckBitmapBits_def resolve_server_def close_input_def)

theorem client_errors_witness:
  "\<exists>w w' e. run_client (\<lambda>_ _. Inr example_server) example_kernel [42] (- 1) 0 [(0, 77)] example_options w =
     (Thrown e, w') \<and> e = Runtime_error ''socket failed: ''"
  using client_errors [OF example_plan example_no_socket] example_no_socket by blast

text \<open>C34: The client releases everything.  However a run ends, by returning or by any exception, the
  descriptor and the mapping of the input file have been released, and the socket is closed exactly
  once when it has been opened.\<close>

theorem run_client_releases_everything:
  assumes "run_client getaddrinfo k contents fd rc randoms options w = (r, w')" and "r \<noteq> Blocked"
  shows "(\<exists>calls. wd_files w' = wd_files w @ calls \<and> held_after calls = ([], [])) \<and>
    wd_closed w' = wd_closed w @ (if opens_socket getaddrinfo k options fd then [fd] else [])"
  by (rule run_client_resources [OF assms])

theorem run_client_releases_everything_witness:
  "held_after [Open_call ''in'' 3, Fstat_call 3, Mmap_call 3 1 (Some 4096), Munmap_call 4096 1, Close_call 3] = ([], [])"
  using run_client_releases_everything [OF example_no_socket] by (simp add: idle_world_def)

text \<open>The START handshake is bounded and needs an answer.  The client sends at most ten START
  datagrams; it goes on only with a START_ACK of its session that came from the server and reports \<open>OK\<close>.\<close>

lemma start_handshake_bounded:
  assumes "start_handshake kControlAttempts server sid start w = (r, w')"
  shows "length (wd_sent w') \<le> length (wd_sent w) + 10 \<and>
    (case r of
       Returned accepted \<Rightarrow> sa_status accepted = OK \<and>
         (\<exists>bs packet. Datagram server bs \<in> set (wd_recvs w) \<and> parses_to bs packet \<and>
            session_id (view_header packet) = sid \<and> ptype (view_header packet) = START_ACK \<and>
            deserialize_start_ack (view_payload packet) (view_payload_size packet) = Some accepted)
     | Thrown e \<Rightarrow> \<exists>s. e = Runtime_error s
     | Blocked \<Rightarrow> True)"
proof -
  have "length (wd_sent w') \<le> length (wd_sent w) + 10"
    using start_handshake_attempts [of kControlAttempts server sid start w] assms by (simp add: kControlAttempts_def)
  moreover note doesD(3) [OF does_start_handshake [where contents = "[]"] assms subset_refl]
  ultimately show ?thesis
    by (cases r) (auto simp: acceptance_arrived_def arrived_def runtime_error_def)
qed

text \<open>C36: The client waits exactly as its pacer says.  \<^verbatim>\<open>wait_for_slot\<close> run on the clock refines
  the pacer's own loop: the first reading starts it, each wait ends at a later reading of the same
  clock, and the resulting pacer has paid for the packet out of tokens and elapsed time.\<close>

theorem pacer_wait_refines:
  assumes "pacer_wait p n w = (Returned p', w')"
  shows "\<exists>wake. wait_for_slot wake p n (hd (wd_clock w)) = Some p' \<and>
    (\<forall>k actions. wake k actions \<in> set (wd_clock w)) \<and>
    within_credit p p' (of_nat n) \<and> 0 \<le> tokens_bytes p'"
proof -
  let ?pb = "of_nat n :: rat"
  let ?cap = "max (of_nat kBurstCapacityBytes) ?pb"
  obtain now w1 q where now: "clock_now w = (Returned now, w1)"
    and loop: "pacer_wait_loop ?pb ?cap now (refill p now ?cap) w1 = (Returned q, w')"
    and p': "p' = q\<lparr>tokens_bytes := tokens_bytes q - ?pb\<rparr>"
    using assms by (auto simp: pacer_wait_def Let_def io_bind_returned)
  note N = clock_now_returned [OF now]
  obtain ts where ts: "set ts \<subseteq> set (wd_clock w1)"
    and R: "\<And>wake k. (\<forall>i a. i < length ts \<longrightarrow> wake (k + i) a = ts ! i) \<Longrightarrow>
      wait_loop wake k ?pb ?cap now (refill p now ?cap) = Some q"
    using pacer_wait_loop_refines [OF loop] by blast
  let ?wake = "\<lambda>i (a :: wait_action list). if i < length ts then ts ! i else now"
  have slot: "wait_for_slot ?wake p n (hd (wd_clock w)) = Some p'"
    using R [of ?wake 0] N p' by (simp add: wait_for_slot_def Let_def)
  moreover have "\<forall>k actions. ?wake k actions \<in> set (wd_clock w)"
    using ts N by (auto simp: subset_iff dest: nth_mem)
  ultimately show ?thesis using wait_for_slot_result(1,2) [OF slot] by blast
qed

theorem pacer_wait_refines_witness:
  "\<exists>p' w'. pacer_wait example_pacer 53 (idle_world\<lparr>wd_clock := [0]\<rparr>) = (Returned p', w') \<and>
     0 \<le> tokens_bytes p' \<and> within_credit example_pacer p' 53"
proof -
  obtain p' w' where run: "pacer_wait example_pacer 53 (idle_world\<lparr>wd_clock := [0]\<rparr>) = (Returned p', w')"
    using pacer_wait_example [of "idle_world\<lparr>wd_clock := [0]\<rparr>" "[]" 53] by simp
  with pacer_wait_refines [OF run] show ?thesis by auto
qed

end
