(* ===== verification/Transfer_System.thy ===== *)
theory Transfer_System
  imports Server_Delivery Example_Run Programs
begin

unbundle bit_operations_syntax

text \<open>
  The two programs together, over a network that may lose, duplicate, delay, reorder and cut
  datagrams and carry anything else between other addresses.
\<close>

section \<open>What the client's datagrams parse to\<close>

lemma client_datagram_parses:
  assumes d: "client_datagram contents start sid d"
    and chunks: "chunk_count (sp_file_size start) (sp_chunk_size start) = Inr (sp_total_chunks start)"
    and len: "length contents = unat (sp_file_size start)" and small: "unat (sp_chunk_size start) \<le> 65483"
    and v: "parses_to (take k d) v"
  shows "session_id (view_header v) = sid"
    and "ptype (view_header v) = START \<Longrightarrow> start_of v \<in> {None, Some start}"
    and "ptype (view_header v) = DATA \<Longrightarrow>
      view_payload v = Some (chunk_bytes contents (sp_chunk_size start) (number (view_header v)))"
proof -
  have size: "of_nat (length contents) = sp_file_size start" "length contents < 18446744073709551616"
    using len unat_u64_less [of "sp_file_size start"] by simp_all
  consider (start) "d = header_bytes (make_header START sid 0) (length (serialize_start start)) @ serialize_start start"
    | (data) s fl where "s < sp_total_chunks start"
      "d = header_bytes ((make_header DATA sid s)\<lparr>flags := fl\<rparr>)
        (length (chunk_bytes contents (sp_chunk_size start) s)) @ chunk_bytes contents (sp_chunk_size start) s"
    | (complete) "d = header_bytes (make_header COMPLETE sid (sp_total_chunks start)) (length ([] :: bytes)) @ []"
    using d
    by (auto simp: client_datagram_def start_datagram_def data_datagram_def complete_datagram_def Let_def
        serialize_start_layout)
  then have "session_id (view_header v) = sid \<and>
    (ptype (view_header v) = START \<longrightarrow> start_of v \<in> {None, Some start}) \<and>
    (ptype (view_header v) = DATA \<longrightarrow>
      view_payload v = Some (chunk_bytes contents (sp_chunk_size start) (number (view_header v))))"
  proof cases
    case start
    have "length (serialize_start start) \<le> 65535" by (simp add: serialize_start_layout)
    from cut_parses [OF v [unfolded start] this] start_codec.de_ser [of start "serialize_start start"]
    show ?thesis by (simp add: sent_header_def make_header_def start_of_def Let_def)
  next
    case (data s fl)
    have "length (chunk_bytes contents (sp_chunk_size start) s) \<le> 65535"
      using length_chunk_bytes [of contents "sp_chunk_size start" "sp_total_chunks start" s] chunks size data(1)
        chunk_in_file(2) [OF chunks data(1)] small by simp
    from cut_parses [OF v [unfolded data(2)] this] show ?thesis
      by (simp add: sent_header_def make_header_def)
  next
    case complete
    have "length ([] :: bytes) \<le> 65535" by simp
    from cut_parses [OF v [unfolded complete] this] show ?thesis
      by (simp add: sent_header_def make_header_def)
  qed
  then show "session_id (view_header v) = sid"
    "ptype (view_header v) = START \<Longrightarrow> start_of v \<in> {None, Some start}"
    "ptype (view_header v) = DATA \<Longrightarrow>
      view_payload v = Some (chunk_bytes contents (sp_chunk_size start) (number (view_header v)))" by blast+
qed

section \<open>The transfer\<close>

lemma client_brings_file:
  assumes plan: "client_plan getaddrinfo kc contents randoms options f c n server_addr sid"
    and run: "run_client getaddrinfo kc contents fdc rc randoms options wc = (x, wc')"
    and fresh: "wd_sent wc = []"
    and net: "\<And>bs. Datagram client_addr bs \<in> set rs \<Longrightarrow> (server_addr, bs) \<in> set (wd_sent wc')"
  shows "faithful contents client_addr rs"
proof -
  let ?start = "start_request (mf_size f) c n"
  have start: "sp_file_size ?start = mf_size f" "sp_chunk_size ?start = c" "sp_total_chunks ?start = n"
    by (simp_all add: start_request_def)
  have p: "length contents = unat (mf_size f)" "chunk_count (mf_size f) c = Inr n" "unat c \<le> 65483"
    using plan by (auto simp: client_plan_def chunk_size_for_mtu_Inr)
  note E = sends_whole_emits [OF doesD(2) [OF does_run_client [OF plan, of UNIV] run]]
  have sent: "\<exists>k d. client_datagram contents ?start sid d \<and> bs = take k d"
    if "Datagram client_addr bs \<in> set rs" for bs
    using net [OF that] E fresh by (auto simp: emits_def client_sends_def)
  show ?thesis
    unfolding faithful_def
  proof (intro allI impI)
    fix bs packet start bs' packet'
    assume A: "Datagram client_addr bs \<in> set rs \<and> parses_to bs packet \<and> start_of packet = Some start"
    then obtain k d where d: "client_datagram contents ?start sid d" "bs = take k d" using sent by blast
    have "ptype (view_header packet) = START" using A by (auto simp: start_of_def Let_def split: if_splits)
    then have st: "start = ?start"
      using client_datagram_parses(2) [OF d(1), of k packet] A d(2) p start by simp
    moreover have "view_payload packet' = Some (chunk_bytes contents c (number (view_header packet')))"
      if B: "Datagram client_addr bs' \<in> set rs" "parses_to bs' packet'" "ptype (view_header packet') = DATA"
    proof -
      obtain k d where d: "client_datagram contents ?start sid d" "bs' = take k d" using sent [OF B(1)] by blast
      show ?thesis using client_datagram_parses(3) [OF d(1)] B d(2) p start by simp
    qed
    ultimately show "length contents = unat (sp_file_size start) \<and>
        (Datagram client_addr bs' \<in> set rs \<and> parses_to bs' packet' \<and> ptype (view_header packet') = DATA \<longrightarrow>
         view_payload packet' = Some (chunk_bytes contents (sp_chunk_size start) (number (view_header packet'))))"
      using p(1) start by simp
  qed
qed

text \<open>A client that returns has heard from the server.\<close>

lemma success_needs_reply:
  assumes "run_client getaddrinfo kc contents fdc rc randoms options wc = (Returned report, wc')"
    and "\<And>f. fst (open_input kc (co_file options)) = Inr f \<Longrightarrow> length contents = unat (mf_size f)"
    and "resolve_server getaddrinfo options = Inr server_addr"
  shows "\<exists>f c n sid bs packet.
    client_plan getaddrinfo kc contents randoms options f c n server_addr sid \<and>
    Datagram server_addr bs \<in> set (wd_recvs wc) \<and> parses_to bs packet \<and>
    ptype (view_header packet) = COMPLETE_ACK"
proof -
  obtain f c n server sid where plan: "client_plan getaddrinfo kc contents randoms options f c n server sid"
    using run_client_planned [OF assms(1)] assms(2) by blast
  moreover from this have "server = server_addr" using assms(3) by (simp add: client_plan_def)
  ultimately show ?thesis
    using doesD(3) [OF does_run_client [OF plan] assms(1) subset_refl]
    by (auto simp: client_report_ok_def success_arrived_def arrived_def)
qed

lemma run_client_delivers:
  assumes "run_client getaddrinfo kc contents fdc rc randoms options wc = (Returned report, wc')"
    and "\<And>f. fst (open_input kc (co_file options)) = Inr f \<Longrightarrow> length contents = unat (mf_size f)"
    and "resolve_server getaddrinfo options = Inr server_addr"
    and "run_server fds rcvbuf_rc bind_rc ks server_opts ws = (r, ws')"
    and "wd_sent wc = []" and "wd_sent ws = []"
    and "\<And>bs. Datagram server_addr bs \<in> set (wd_recvs wc) \<Longrightarrow> (client_addr, bs) \<in> set (wd_sent ws')"
    and "\<And>bs. Datagram client_addr bs \<in> set (wd_recvs ws) \<Longrightarrow> (server_addr, bs) \<in> set (wd_sent wc')"
  shows "wd_flushed ws' = wd_flushed ws @ [contents]"
proof -
  obtain f c n sid bs packet where plan: "client_plan getaddrinfo kc contents randoms options f c n server_addr sid"
    and ack: "Datagram server_addr bs \<in> set (wd_recvs wc)" "parses_to bs packet"
      "ptype (view_header packet) = COMPLETE_ACK"
    using success_needs_reply [OF assms(1-3)] by blast
  have "faithful contents client_addr (wd_recvs ws)"
    by (rule client_brings_file [OF plan assms(1,5,8)])
  note S = run_server_delivers [OF this assms(4)]
  from ack have "completion client_addr (client_addr, bs)" by (auto simp: completion_def)
  moreover have "(client_addr, bs) \<in> set (wd_sent ws')" by (rule assms(7) [OF ack(1)])
  ultimately have "\<not> silent client_addr ws ws'" using assms(6) by (auto simp: silent_def emits_def)
  then show ?thesis using S by blast
qed

text \<open>C1: A transfer that succeeds is correct.  Let the client program send a file and the server
  program run against it, each from its command line, over a network that brings from each to the
  other only what was sent to it, in any order, any number of times or never, while anyone else may
  send the two anything.  If the client exits with status 0 (not because of \<^verbatim>\<open>--help\<close>), then the
  server has flushed, once, a file whose contents are exactly the client's, however the server itself
  ends.\<close>

theorem transfer_correct:
  assumes "client_main stod getaddrinfo kc contents fdc rc randoms argvc wc = (Returned 0, wc')"
    and "parse_client_options stod argvc = Inr (Parsed options)"
    and "\<And>f. fst (open_input kc (co_file options)) = Inr f \<Longrightarrow> length contents = unat (mf_size f)"
    and "resolve_server getaddrinfo options = Inr server_addr"
    and "server_main fds rcvbuf_rc bind_rc ks argvs ws = (r, ws')"
    and "wd_sent wc = []" and "wd_sent ws = []"
    and "\<And>bs. Datagram server_addr bs \<in> set (wd_recvs wc) \<Longrightarrow> (client_addr, bs) \<in> set (wd_sent ws')"
    and "\<And>bs. Datagram client_addr bs \<in> set (wd_recvs ws) \<Longrightarrow> (server_addr, bs) \<in> set (wd_sent wc')"
  shows "wd_flushed ws' = wd_flushed ws @ [contents]"
proof -
  obtain report where C: "run_client getaddrinfo kc contents fdc rc randoms options wc = (Returned report, wc')"
    using client_main_zero [OF assms(1,2)] by blast
  obtain v where v: "ws' = v\<lparr>wd_printed := wd_printed ws'\<rparr>"
    and cases: "v = ws \<or> (\<exists>s opts. run_server fds rcvbuf_rc bind_rc ks opts ws = (s, v))"
    using server_main_cases [OF assms(5)] by blast
  have same: "wd_sent v = wd_sent ws'" "wd_flushed v = wd_flushed ws'" by (subst v, simp)+
  from cases show ?thesis
  proof
    assume "\<exists>s opts. run_server fds rcvbuf_rc bind_rc ks opts ws = (s, v)"
    then obtain s opts where S: "run_server fds rcvbuf_rc bind_rc ks opts ws = (s, v)" by blast
    have "wd_flushed v = wd_flushed ws @ [contents]"
      by (rule run_client_delivers [OF C assms(3,4) S assms(6,7) _ assms(9)])
        (use assms(8) same in auto)
    then show ?thesis by (simp add: same)
  next
    assume "v = ws"
    then have "\<And>bs. Datagram server_addr bs \<notin> set (wd_recvs wc)" using assms(7,8) same by fastforce
    then show ?thesis using success_needs_reply [OF C assms(3,4)] by blast
  qed
qed

text \<open>The command lines of the example.\<close>

definition example_client_argv :: "string list" where
  "example_client_argv = [''client'', ''--host'', ''server'', ''--port'', ''9000'', ''--file'', ''in'']"

definition example_server_argv :: "string list" where
  "example_server_argv = [''server'', ''--port'', ''9000'', ''--output'', ''out'']"

lemma example_port: "parse_port ''9000'' = Inr 9000"
proof -
  have "decimal 9000 = ''9000''" by (simp add: decimal.simps char_of_def bit_0)
  then show ?thesis using parse_port_decimal [of 9000] by simp
qed

lemma example_client_options: "parse_client_options stod example_client_argv = Inr (Parsed example_options)"
  by (simp add: parse_client_options_def example_client_argv_def example_port default_client_options_def
      example_options_def chunk_size_for_mtu_def kIpv4UdpOverhead_def kHeaderSize_def)

lemma example_server_argv_parsed:
  "parse_server_options example_server_argv = Inr (Parsed example_server_options)"
  by (simp add: parse_server_options_def example_server_argv_def example_port default_server_options_def
      example_server_options_def chunk_size_for_mtu_def kIpv4UdpOverhead_def kHeaderSize_def)

theorem transfer_correct_witness:
  "\<exists>wc wc' ws ws' r.
     client_main (\<lambda>_. Inr None) (\<lambda>_ _. Inr example_server) example_kernel [42] 6 0 [(0, 77)] example_client_argv wc =
       (Returned 0, wc') \<and>
     server_main 5 0 0 example_kernel example_server_argv ws = (r, ws') \<and>
     wd_recvs ws = map (Datagram example_client \<circ> snd) (wd_sent wc') \<and> wd_flushed ws' = [[42]]"
proof -
  obtain sends d ws' where d: "is_ack_datagram 77 (sv_tracker (example_done 42)) kDefaultAckBitmapBits d"
    and S: "run_server 5 0 0 example_kernel example_server_options
       (idle_world\<lparr>wd_recvs := [Datagram example_client example_start_datagram,
          Datagram example_client (example_datagram DATA 0 [42]),
          Datagram example_client (example_datagram COMPLETE 1 [])],
        wd_clock := [1, 4, 5], wd_sends := sends\<rparr>) = (Blocked, ws')" (is "run_server _ _ _ _ _ ?ws = _")
    and s: "wd_sent ws' = [(example_client, example_start_ack), (example_client, d),
       (example_client, example_complete_ack 42)]"
    using server_example [of 42] by blast
  let ?wc = "idle_world\<lparr>wd_recvs := [Datagram example_server example_start_ack, Recv_would_block, Datagram example_server d,
          Recv_would_block, Datagram example_server (example_complete_ack 42)],
        wd_polls := [Poll_ready, Poll_ready], wd_clock := replicate 20 0,
        wd_sends := [Sent 48, Sent 25, Sent 24]\<rparr>"
  obtain report wc' where C: "run_client (\<lambda>_ _. Inr example_server) example_kernel [42] 6 0 [(0, 77)] example_options ?wc =
      (Returned report, wc')"
    and c: "wd_sent wc' = [(example_server, example_start_datagram), (example_server, example_datagram DATA 0 [42]),
      (example_server, example_datagram COMPLETE 1 [])]"
    using client_example [OF example_ack_final [OF d], of 42] by blast
  have f: "length [42 :: u8] = unat (mf_size f)" if "fst (open_input example_kernel (co_file example_options)) = Inr f" for f
    using that by (auto simp: open_input_def example_kernel_def)
  have C': "client_main (\<lambda>_. Inr None) (\<lambda>_ _. Inr example_server) example_kernel [42] 6 0 [(0, 77)] example_client_argv ?wc = (Returned 0, wc')"
    using C by (simp add: client_main_def Let_def example_client_options exit_status_def)
  have S': "server_main 5 0 0 example_kernel example_server_argv ?ws = (Blocked, ws')"
    using S by (simp add: server_main_def Let_def example_server_argv_parsed exit_status_def)
  have "wd_flushed ws' = wd_flushed ?ws @ [[42]]"
    by (rule transfer_correct [OF C' example_client_options f _ S', where server_addr = example_server and client_addr = example_client])
      (simp_all add: resolve_server_def s c idle_world_def disj_commute)
  with C' S' c show ?thesis by (intro exI [of _ ?wc] exI [of _ wc'] exI [of _ ?ws] exI [of _ ws'] exI [of _ Blocked])
      (simp add: idle_world_def)
qed

end
