(* ===== verification/Wire_Typing.thy ===== *)
theory Wire_Typing
  imports Server_Delivery Client_Invariant
begin

unbundle bit_operations_syntax

text \<open>
  The types of the wire: a datagram is well typed when it parses and its payload has the form that the
  type in its header calls for.  Both programs send well-typed datagrams only, and each only those of
  its role, on every path.
\<close>

section \<open>Well-typed datagrams\<close>

definition payload_typed :: "packet_view \<Rightarrow> bool" where
  "payload_typed v \<longleftrightarrow>
     (let p = view_payload v; n = view_payload_size v
      in case ptype (view_header v) of
           START \<Rightarrow> deserialize_start p n \<noteq> None
         | START_ACK \<Rightarrow> deserialize_start_ack p n \<noteq> None
         | DATA \<Rightarrow> 0 < n
         | ACK \<Rightarrow> flags (view_header v) AND FLAG_SACK \<noteq> 0 \<and> deserialize_ack p n \<noteq> None
         | COMPLETE \<Rightarrow> n = 0
         | COMPLETE_ACK \<Rightarrow> deserialize_complete_ack p n \<noteq> None
         | ERROR \<Rightarrow> False)"

definition well_typed :: "packet_type set \<Rightarrow> bytes \<Rightarrow> bool" where
  "well_typed types d \<longleftrightarrow> (\<exists>v. deserialize_packet_view (Some d) (length d) = Inr v \<and>
     ptype (view_header v) \<in> types \<and> payload_typed v)"

definition server_types :: "packet_type set" where
  "server_types = {START_ACK, ACK, COMPLETE_ACK}"

definition client_types :: "packet_type set" where
  "client_types = {START, DATA, COMPLETE}"

lemma sent_header_simps [simp]:
  "ptype (sent_header h n) = ptype h" "flags (sent_header h n) = flags h"
  by (simp_all add: sent_header_def)

text \<open>A datagram made by a codec has the type of its header.\<close>

lemma codec_typed:
  assumes "payload_codec ser de" and "sendable_header h" and "ser p = Inr bs"
    and "serialize_packet h (Some bs) (length bs) = Inr d" and "ptype h \<in> types"
    and "\<And>v. ptype (view_header v) = ptype h \<Longrightarrow> flags (view_header v) = flags h \<Longrightarrow>
      de (view_payload v) (view_payload_size v) = Some p \<Longrightarrow> payload_typed v"
  shows "well_typed types d"
  using payload_codec.message_roundtrip [OF assms(1-3)] assms(4-6) unfolding well_typed_def
  by fastforce

lemma sendable_made: "sendable_header (make_header t sid n)"
  "sendable_header ((make_header ACK sid n)\<lparr>flags := FLAG_SACK\<rparr>)"
  by (simp_all add: sendable_header_def make_header_def default_header_def FLAG_SACK_def FLAG_CRC32C_def)

lemma start_ack_typed:
  "serialize_packet (make_header START_ACK sid n) (Some (serialize_start_ack p)) (length (serialize_start_ack p)) = Inr d \<Longrightarrow>
     well_typed server_types d"
  by (rule codec_typed [OF start_ack_codec.payload_codec_axioms sendable_made(1), of p _ START_ACK sid n])
    (simp_all add: server_types_def payload_typed_def)

lemma complete_ack_typed:
  "serialize_packet (make_header COMPLETE_ACK sid n) (Some (serialize_complete_ack p)) (length (serialize_complete_ack p)) =
     Inr d \<Longrightarrow> well_typed server_types d"
  by (rule codec_typed [OF complete_ack_codec.payload_codec_axioms sendable_made(1), of p _ COMPLETE_ACK sid n])
    (simp_all add: server_types_def payload_typed_def)

lemma ack_typed:
  "serialize_ack p = Inr bs \<Longrightarrow>
   serialize_packet ((make_header ACK sid n)\<lparr>flags := FLAG_SACK\<rparr>) (Some bs) (length bs) = Inr d \<Longrightarrow>
     well_typed server_types d"
  by (rule codec_typed [OF ack_codec.payload_codec_axioms sendable_made(2), of p bs sid n])
    (simp_all add: server_types_def payload_typed_def FLAG_SACK_def)

section \<open>The server\<close>

text \<open>A step of the server sends well-typed datagrams; \<open>Q\<close> is what is known of its value.\<close>

definition sends_typed :: "packet_type set \<Rightarrow> endpoint \<times> bytes \<Rightarrow> bool" where
  "sends_typed types = (\<lambda>(dest, d). well_typed types d)"

definition typed :: "'a io \<Rightarrow> ('a \<Rightarrow> bool) \<Rightarrow> bool" where
  "typed m Q \<longleftrightarrow> does (\<lambda>_. True) (sends_typed server_types) UNIV m Q"

lemma typedI:
  assumes "\<And>w r w'. m w = (r, w') \<Longrightarrow> sends_whole (sends_typed server_types) (call_failed r) w w' \<and>
    (\<forall>a. r = Returned a \<longrightarrow> Q a)"
  shows "typed m Q"
  unfolding typed_def using assms by (intro doesI) (auto split: outcome.splits)

lemma typedD:
  assumes "typed m Q" and "m w = (r, w')"
  shows "sends_whole (sends_typed server_types) (call_failed r) w w'" and "r = Returned a \<Longrightarrow> Q a"
  using doesD(2,3) [OF assms(1) [unfolded typed_def] assms(2) subset_UNIV] by auto

lemma typed_return: "Q a \<Longrightarrow> typed (io_return a) Q"
  unfolding typed_def by (rule does_return)

lemma typed_throw: "typed (io_throw e) Q" "typed (throw_errno what) Q"
  unfolding typed_def by (simp_all add: does_throw does_throw_errno)

lemma typed_sum: "(\<And>a. r = Inr a \<Longrightarrow> Q a) \<Longrightarrow> typed (io_sum r) Q"
  unfolding typed_def by (intro does_sum TrueI)

lemma typed_bind: "typed m S \<Longrightarrow> (\<And>a. S a \<Longrightarrow> typed (f a) Q) \<Longrightarrow> typed (io_bind m f) Q"
  unfolding typed_def by (rule does_bind)

lemma typed_then: "typed m (\<lambda>_. True) \<Longrightarrow> (\<And>a. typed (f a) Q) \<Longrightarrow> typed (io_bind m f) Q"
  by (rule typed_bind)

lemma typed_if: "(b \<Longrightarrow> typed m Q) \<Longrightarrow> (\<not> b \<Longrightarrow> typed m' Q) \<Longrightarrow> typed (if b then m else m') Q"
  by simp

lemmas typed_intros = typed_return typed_throw typed_then typed_if TrueI

text \<open>What reads, waits, prints or logs sends nothing.\<close>

interpretation unsent: world_frame "\<lambda>w w'. wd_sends w' = wd_sends w \<and> wd_sent w' = wd_sent w"
  by unfold_locales auto

lemma unsent_keeps:
  "unsent.keeps clock_now" "unsent.keeps (recvfrom n)" "unsent.keeps (poll_socket t)"
  "unsent.keeps (log_files calls)" "unsent.keeps (close_socket fd)" "unsent.keeps (print_lines stream ls)"
  "unsent.keeps (log_flushed d)"
  by (auto intro!: unsent.keepsI simp: syscall_defs split: list.splits)

lemma typed_unsent: "unsent.keeps m \<Longrightarrow> typed m (\<lambda>_. True)"
  by (rule typedI) (auto dest: unsent.keepsD)

lemmas typed_reads = unsent_keeps [THEN typed_unsent] typed_unsent [OF unsent.keeps_receive_packet [OF unsent_keeps(2)]]

lemma typed_send_packet:
  assumes "\<And>d. serialize_packet h p n = Inr d \<Longrightarrow> well_typed server_types d"
  shows "typed (send_packet dest h p n) (\<lambda>_. True)"
  unfolding typed_def by (rule does_send_packet) (use assms in \<open>auto simp: sends_typed_def\<close>)

lemma typed_sends:
  "typed (send_start_ack client sid response) (\<lambda>_. True)" "typed (send_ack client sid k tracker bits) (\<lambda>_. True)"
proof -
  show "typed (send_start_ack client sid response) (\<lambda>_. True)"
    unfolding send_start_ack_def Let_def by (intro typed_send_packet start_ack_typed)
  show "typed (send_ack client sid k tracker bits) (\<lambda>_. True)"
    unfolding send_ack_def
    by (rule typed_bind [OF typed_sum [where Q = "\<lambda>p. serialize_ack (make_ack_snapshot tracker bits) = Inr p"]])
      (auto intro!: typed_send_packet ack_typed)
qed

text \<open>The value of an iteration that completes is the payload of a COMPLETE_ACK.\<close>

definition acks_completion :: "server_signal \<Rightarrow> bool" where
  "acks_completion sig \<longleftrightarrow> (\<forall>st p. sig = Completed st p \<longrightarrow> (\<exists>c. p = serialize_complete_ack c))"

lemma typed_sync: "typed (sync_file k f contents) (\<lambda>_. True)"
  unfolding sync_file_def case_prod_beta Let_def by (intro typed_intros typed_reads typed_sum)

lemma typed_handle_data: "typed (handle_data sess packet st) (\<lambda>_. True)"
  unfolding handle_data_def send_state_ack_def Let_def
  by (intro typed_intros typed_sends typed_reads)

lemma typed_handle_complete: "typed (handle_complete k f sess packet st) acks_completion"
  unfolding handle_complete_def send_state_ack_def Let_def
  by (intro typed_intros typed_sends typed_sync typed_send_packet complete_ack_typed)
    (auto simp: acks_completion_def)

lemma typed_handle_packet: "typed (handle_packet k f sess source packet st) acks_completion"
  unfolding handle_packet_def answer_start_def Let_def
  by (intro typed_intros typed_sends typed_handle_data typed_handle_complete) (simp_all add: acks_completion_def)

text \<open>The loops.\<close>

lemma typed_await_start: "typed (await_start mtu) (\<lambda>_. True)"
proof (rule typedI)
  fix w r w'
  show "await_start mtu w = (r, w') \<Longrightarrow> sends_whole (sends_typed server_types) (call_failed r) w w' \<and>
    (\<forall>a. r = Returned a \<longrightarrow> True)"
  proof (induction mtu w arbitrary: r w' rule: await_start.induct)
    case (1 mtu w)
    obtain x w1 where recv: "receive_packet w = (x, w1)" by fastforce
    note V = typedD(1) [OF typed_reads(8) recv]
    show ?case
    proof (cases x)
      case (Returned y)
      obtain client packet where y: "y = (client, packet)" by fastforce
      obtain s w2 where send: "send_start_ack client (session_id (view_header packet))
          (rejection INVALID_REQUEST) w1 = (s, w2)" by fastforce
      have V1: "sends_whole (sends_typed server_types) False w w1" using V Returned by simp
      note S = sends_whole_trans [OF V1 typedD(1) [OF typed_sends(1) send]]
      show ?thesis
        using 1 recv send V1 S
        by (auto simp: await_start.simps [of mtu w] Returned y split: outcome.splits option.splits sum.splits if_splits
            intro: sends_whole_failed sends_whole_trans)
    qed (use 1 recv V in \<open>auto simp: await_start.simps [of mtu w]\<close>)
  qed
qed

lemma typed_serve_loop: "typed (serve_loop k f sess st) (\<lambda>(_, p). \<exists>c. p = serialize_complete_ack c)"
proof (rule typedI)
  fix w r w'
  show "serve_loop k f sess st w = (r, w') \<Longrightarrow> sends_whole (sends_typed server_types) (call_failed r) w w' \<and>
    (\<forall>a. r = Returned a \<longrightarrow> (case a of (_, p) \<Rightarrow> \<exists>c. p = serialize_complete_ack c))"
  proof (induction k f sess st w arbitrary: r w' rule: serve_loop.induct)
    case (1 k f sess st w)
    obtain x w1 where recv: "receive_packet w = (x, w1)" by fastforce
    note V = typedD(1) [OF typed_reads(8) recv]
    show ?case
    proof (cases x)
      case (Returned y)
      obtain source packet where y: "y = (source, packet)" by fastforce
      obtain s w2 where handle: "handle_packet k f sess source packet st w1 = (s, w2)" by fastforce
      have V1: "sends_whole (sends_typed server_types) False w w1" using V Returned by simp
      note S = sends_whole_trans [OF V1 typedD(1) [OF typed_handle_packet handle]]
      show ?thesis
      proof (cases "\<exists>st1. s = Returned (Continue st1)")
        case True
        then obtain st1 where s: "s = Returned (Continue st1)" ..
        then have "serve_loop k f sess st1 w2 = (r, w')"
          using 1(2) recv handle Returned y by (simp add: serve_loop.simps [of k f sess st w])
        from 1(1) [OF recv [symmetric] Returned y [symmetric] handle [symmetric] s refl this] S show ?thesis
          by (auto simp: s intro: sends_whole_trans)
      next
        case False
        then show ?thesis
          using 1(2) recv handle Returned y S typedD(2) [OF typed_handle_packet handle]
          by (auto simp: serve_loop.simps [of k f sess st w] acks_completion_def split: outcome.splits server_signal.splits)
      qed
    qed (use 1(2) recv V in \<open>auto simp: serve_loop.simps [of k f sess st w]\<close>)
  qed
qed

lemma typed_time_wait_round:
  "typed (time_wait_round client sid n (serialize_complete_ack c) deadline) (\<lambda>_. True)"
proof -
  have answer: "typed (case received of
      Datagram source buffer \<Rightarrow>
        if repeats_complete client sid n source buffer
        then io_bind (send_packet client (make_header COMPLETE_ACK sid n)
               (Some (serialize_complete_ack c)) (length (serialize_complete_ack c))) (\<lambda>_.
             io_bind clock_now (\<lambda>now''. io_return (Some (now'' + kTimeWait))))
        else io_return (Some deadline)
    | Recv_interrupted \<Rightarrow> io_return (Some deadline)
    | Recv_would_block \<Rightarrow> throw_errno ''recvfrom failed: ''
    | Recv_failed \<Rightarrow> throw_errno ''recvfrom failed: '') (\<lambda>_. True)" for received
    by (cases received)
      (auto intro!: typed_intros typed_send_packet complete_ack_typed typed_reads)
  have polled: "typed (case ready of
      Poll_ready \<Rightarrow> io_bind (recvfrom kReceiveBufferBytes) f
    | Poll_timeout \<Rightarrow> io_return a | Poll_interrupted \<Rightarrow> io_return b
    | Poll_failed \<Rightarrow> throw_errno ''poll failed: '') (\<lambda>_. True)" if "\<And>received. typed (f received) (\<lambda>_. True)" for ready f a b
    using that by (cases ready) (auto intro!: typed_intros typed_reads)
  show ?thesis
    unfolding time_wait_round_def
    by (intro typed_intros polled answer typed_reads)
qed

lemma typed_time_wait: "typed (time_wait client sid n (serialize_complete_ack c)) (\<lambda>_. True)"
proof -
  have "typed (time_wait_loop client sid n (serialize_complete_ack c) deadline) (\<lambda>_. True)" for deadline
  proof (rule typedI)
    fix w r w'
    obtain p where p: "p = serialize_complete_ack c" by simp
    have "time_wait_loop client sid n p deadline w = (r, w') \<Longrightarrow> p = serialize_complete_ack c \<Longrightarrow>
      sends_whole (sends_typed server_types) (call_failed r) w w'"
    proof (induction client sid n p deadline w arbitrary: r w' rule: time_wait_loop.induct)
      case (1 client sid n p deadline w)
      obtain x v where round: "time_wait_round client sid n p deadline w = (x, v)" by fastforce
      note V = typedD(1) [OF typed_time_wait_round round [unfolded 1(3)]]
      show ?case
      proof (cases "\<exists>deadline'. x = Returned (Some deadline')")
        case True
        then obtain deadline' where x: "x = Returned (Some deadline')" ..
        then have "time_wait_loop client sid n p deadline' v = (r, w')"
          using 1(2) round by (simp add: time_wait_loop.simps [of client sid n p deadline w])
        from 1(1) [OF round [symmetric] x refl this 1(3)] V show ?thesis by (auto simp: x intro: sends_whole_trans)
      next
        case False
        then show ?thesis using 1(2) round V
          by (auto simp: time_wait_loop.simps [of client sid n p deadline w] split: outcome.splits option.splits)
      qed
    qed
    then show "time_wait_loop client sid n (serialize_complete_ack c) deadline w = (r, w') \<Longrightarrow>
      sends_whole (sends_typed server_types) (call_failed r) w w' \<and> (\<forall>a. r = Returned a \<longrightarrow> True)" using p by simp
  qed
  then show ?thesis unfolding time_wait_def by (intro typed_then typed_reads)
qed

text \<open>The program.\<close>

lemma typed_serve_transfer: "typed (serve_transfer k f fd sess) (\<lambda>_. True)"
proof -
  have "typed (conclude_transfer fd sess st p) (\<lambda>_. True)" if "\<exists>c. p = serialize_complete_ack c" for st p
    using that unfolding conclude_transfer_def by (auto intro!: typed_then typed_reads typed_time_wait)
  then show ?thesis
    unfolding serve_transfer_def
    by (intro typed_then typed_sends typed_reads typed_bind [OF typed_serve_loop]) auto
qed

lemma typed_serve_client: "typed (serve_client k path mtu fd) (\<lambda>_. True)"
proof -
  have clean: "typed (io_finally m (log_files calls)) Q" if "typed m Q" for m :: "unit io" and calls Q
    using that unfolding typed_def by (intro does_finally quiet_log)
  show ?thesis
    unfolding serve_client_def Let_def case_prod_beta
    by (intro typed_then typed_await_start typed_reads)
      (auto intro!: clean typed_serve_transfer typed_then typed_sends typed_throw split: sum.split)
qed

lemma typed_run_server: "typed (run_server fd rcvbuf_rc bind_rc k options) (\<lambda>_. True)"
proof -
  have clean: "typed (io_on_throw m (close_socket fd)) Q" if "typed m Q" for m :: "unit io" and Q
    using that unfolding typed_def by (intro does_on_throw quiet_log)
  show ?thesis
    unfolding run_server_def
    by (intro typed_if typed_throw clean typed_then typed_reads typed_serve_client)
qed

section \<open>The client\<close>

lemma client_datagram_typed:
  assumes "client_datagram contents start sid d"
    and "chunk_count (sp_file_size start) (sp_chunk_size start) = Inr (sp_total_chunks start)"
    and "length contents = unat (sp_file_size start)" and "unat (sp_chunk_size start) \<le> 65483"
  shows "well_typed client_types d"
  using assms(1) unfolding client_datagram_def
proof (elim disjE exE conjE)
  assume d: "d = start_datagram start sid"
  have "serialize_packet (make_header START sid 0) (Some (serialize_start start))
      (length (serialize_start start)) = Inr d"
    by (simp add: d serialize_packet_layout serialize_start_layout start_datagram_def)
  then show ?thesis
    by (rule codec_typed [OF start_codec.payload_codec_axioms sendable_made(1), of start _ START sid 0, rotated])
      (simp_all add: client_types_def payload_typed_def)
next
  fix s fl assume s: "s < sp_total_chunks start" and fl: "fl \<in> {0, FLAG_RETRANSMITTED}"
    and d: "d = data_datagram contents start sid fl s"
  let ?chunk = "chunk_bytes contents (sp_chunk_size start) s"
  let ?h = "(make_header DATA sid s)\<lparr>flags := fl\<rparr>"
  have "of_nat (length contents) = sp_file_size start" using assms(3) by simp
  then have len: "length ?chunk = chunk_length (sp_file_size start) (sp_chunk_size start) s"
    using length_chunk_bytes [of contents "sp_chunk_size start" "sp_total_chunks start" s] assms(2,3) s
      unat_u64_less [of "sp_file_size start"] by simp
  have "length ?chunk \<le> 65535"
    using chunk_in_file(2) [OF assms(2) s] assms(4) unfolding len by simp
  moreover have "sendable_header ?h"
    using fl by (auto simp: sendable_header_def make_header_def default_header_def FLAG_RETRANSMITTED_def FLAG_CRC32C_def)
  moreover have "0 < length ?chunk" unfolding len by (rule chunk_in_file(3) [OF assms(2) s])
  ultimately show ?thesis
    using deserialize_header_bytes [of ?h ?chunk]
    by (simp add: d data_datagram_def Let_def well_typed_def client_types_def payload_typed_def make_header_def)
next
  assume "d = complete_datagram start sid"
  then show ?thesis
    using deserialize_header_bytes [of "make_header COMPLETE sid (sp_total_chunks start)" "[]"] sendable_made(1)
    by (simp add: complete_datagram_def well_typed_def client_types_def payload_typed_def make_header_def)
qed

lemma client_sends_typed:
  assumes plan: "client_plan getaddrinfo k contents randoms options f c n server sid"
    and "client_sends server contents (start_request (mf_size f) c n) sid x"
  shows "sends_typed client_types x"
proof -
  have p: "length contents = unat (mf_size f)" "chunk_size_for_mtu (co_mtu options) = Inr c"
    "chunk_count (mf_size f) c = Inr n"
    using plan by (simp_all add: client_plan_def)
  obtain dest d where d: "client_datagram contents (start_request (mf_size f) c n) sid d" "x = (dest, d)"
    using assms(2) by (auto simp: client_sends_def)
  have "unat c \<le> 65483" using p(2) by (auto simp: chunk_size_for_mtu_Inr)
  then have "well_typed client_types d"
    using client_datagram_typed [OF d(1)] p by (simp add: start_request_def)
  then show ?thesis by (simp add: sends_typed_def d(2))
qed

end
