(* ===== verification/Output_Properties.thy ===== *)
theory Output_Properties
  imports Program_Output Client_Properties Transfer_System Wire_Typing
begin

text \<open>
  The properties of what the programs send and print in a whole run.
\<close>

section \<open>The client\<close>

text \<open>C12: A successful client follows the abstract sender.  The datagrams of a run that returns are, in
  this order, one to ten copies of the START, a legal schedule of DATA packets, and one to ten copies
  of the COMPLETE, all to the server.  In the schedule the chunks are sent for the first time in the
  order of the file, each exactly once, unflagged, and every other packet repeats, with the
  retransmission flag, a chunk sent before.  The two counters of the client are the lengths of the
  schedule and of its retransmissions, modulo \<^verbatim>\<open>2^64\<close>.\<close>

theorem client_run_refines_schedule:
  assumes "client_plan getaddrinfo k contents randoms options f c n server sid"
    and "run_client getaddrinfo k contents socket_fd discover_rc randoms options w =
      (Returned (st, completed), w')"
  shows "\<exists>starts ks finals.
    wd_sent w' = wd_sent w @ starts @
      map (scheduled server contents (start_request (mf_size f) c n) sid) ks @ finals \<and>
    copies 10 (server, start_datagram (start_request (mf_size f) c n) sid) starts \<and>
    copies 10 (server, complete_datagram (start_request (mf_size f) c n) sid) finals \<and>
    schedule 0 ks = Some n \<and>
    cl_sent_data_packets st = of_nat (length ks) \<and>
    cl_retransmitted_packets st = of_nat (length (filter snd ks))"
  using tracesD [OF traces_run_client [OF assms(1)] assms(2)] by (auto simp: run_trace_def)

theorem client_run_refines_schedule_witness:
  "\<exists>w w' st completed. run_client (\<lambda>_ _. Inr example_server) example_kernel [42] 6 0 [(0, 77)] example_options w =
      (Returned (st, completed), w') \<and>
    (\<exists>ks. schedule 0 ks = Some 1 \<and> cl_sent_data_packets st = of_nat (length ks))"
proof -
  obtain w w' st completed where
    run: "run_client (\<lambda>_ _. Inr example_server) example_kernel [42] 6 0 [(0, 77)] example_options w =
       (Returned (st, completed), w')"
    using example_client_run by blast
  from client_run_refines_schedule [OF example_plan run] run show ?thesis by blast
qed

lemma uint_u64_of_nat: "uint (of_nat m :: u64) = int m mod 18446744073709551616"
  by (simp add: unsigned_of_nat take_bit_eq_mod of_nat_mod)

text \<open>C35: The client's report is printed exactly when it returns, and its numbers are true.  A run that
  throws or blocks prints nothing; one that returns has sent copies of the START, then the DATA packets
  of a schedule that covers the file, then copies of the COMPLETE, and prints the report.  The report
  states the session, the size of the file, how many DATA packets are between the STARTs and the
  COMPLETEs, and how many of them carry the retransmission flag, both modulo \<^verbatim>\<open>2^64\<close>.\<close>

theorem client_report_true:
  assumes "client_plan getaddrinfo k contents randoms options f c n server sid"
    and "run_client getaddrinfo k contents socket_fd discover_rc randoms options w = (r, w')"
  shows "case r of
      Returned (st, completed) \<Rightarrow> \<exists>starts ks finals cfg end_time.
        wd_sent w' = wd_sent w @ starts @
          map (scheduled server contents (start_request (mf_size f) c n) sid) ks @ finals \<and>
        copies 10 (server, start_datagram (start_request (mf_size f) c n) sid) starts \<and>
        copies 10 (server, complete_datagram (start_request (mf_size f) c n) sid) finals \<and>
        schedule 0 ks = Some n \<and>
        wd_printed w' = wd_printed w @ map (Pair Cout) (client_report cfg st completed end_time) \<and>
        take 5 (client_report cfg st completed end_time) =
          [[Text ''Transfer complete''],
           whole_line ''  session: '' (uint sid),
           whole_line ''  file bytes: '' (int (length contents)),
           whole_line ''  DATA packets: '' (int (length ks) mod 18446744073709551616),
           whole_line ''  retransmitted DATA packets: '' (int (length (filter snd ks)) mod 18446744073709551616)]
    | _ \<Rightarrow> wd_printed w' = wd_printed w"
proof (cases r)
  case (Returned report)
  obtain st completed where report: "report = (st, completed)" by fastforce
  note run = assms(2) [unfolded Returned report]
  obtain starts ks finals where T: "wd_sent w' = wd_sent w @ starts @
      map (scheduled server contents (start_request (mf_size f) c n) sid) ks @ finals"
    "copies 10 (server, start_datagram (start_request (mf_size f) c n) sid) starts"
    "copies 10 (server, complete_datagram (start_request (mf_size f) c n) sid) finals" "schedule 0 ks = Some n"
    "cl_sent_data_packets st = of_nat (length ks)"
    "cl_retransmitted_packets st = of_nat (length (filter snd ks))"
    using tracesD [OF traces_run_client [OF assms(1)] run] by (auto simp: run_trace_def)
  have plan: "fst (open_input k (co_file options)) = Inr f" "random_session_id randoms = Some sid"
    "length contents = unat (mf_size f)"
    using assms(1) by (simp_all add: client_plan_def)
  obtain cfg end_time where P: "cc_size cfg = mf_size f" "cc_session_id cfg = sid"
    "wd_printed w' = wd_printed w @ map (Pair Cout) (client_report cfg st completed end_time)"
    using printsD [OF prints_run_client run] plan by (auto simp: reports_def)
  have "take 5 (client_report cfg st completed end_time) =
      [[Text ''Transfer complete''],
       whole_line ''  session: '' (uint sid),
       whole_line ''  file bytes: '' (int (length contents)),
       whole_line ''  DATA packets: '' (int (length ks) mod 18446744073709551616),
       whole_line ''  retransmitted DATA packets: '' (int (length (filter snd ks)) mod 18446744073709551616)]"
    by (simp add: client_report_def transfer_lines_def take_Cons' P(1,2) T(5,6) plan(3) uint_u64_of_nat)
  with T(1-4) P(3) show ?thesis unfolding Returned report outcome.case prod.case by blast
qed (use printsD [OF prints_run_client assms(2)] in simp_all)

theorem client_report_true_witness:
  "\<exists>w w' st completed. run_client (\<lambda>_ _. Inr example_server) example_kernel [42] 6 0 [(0, 77)] example_options w =
      (Returned (st, completed), w') \<and>
    (\<exists>report. wd_printed w' = wd_printed w @ map (Pair Cout) report \<and>
       hd report = [Text ''Transfer complete''])"
proof -
  obtain w w' st completed where
    run: "run_client (\<lambda>_ _. Inr example_server) example_kernel [42] 6 0 [(0, 77)] example_options w =
       (Returned (st, completed), w')"
    using example_client_run by blast
  obtain report x where "wd_printed w' = wd_printed w @ map (Pair Cout) report"
    "take 5 report = [Text ''Transfer complete''] # x"
    using client_report_true [OF example_plan run] by auto
  moreover from this(2) have "hd report = [Text ''Transfer complete'']" by (cases report) auto
  ultimately show ?thesis using run by blast
qed

section \<open>The types of the wire\<close>

text \<open>C14: Both programs keep to the types of the wire.  Whatever arrives and however the runs end, every
  datagram the server sends is a START_ACK, an ACK or a COMPLETE_ACK, and every datagram the client sends
  is a START, a DATA packet or a COMPLETE, that parses and whose payload decodes as the type in its
  header says.  All are sent whole; only when the run ends with a runtime error may the last thing on the
  wire be the first \<open>n\<close> bytes of such a datagram, where \<open>n\<close> is what its last call of \<^verbatim>\<open>sendto\<close> or
  \<^verbatim>\<open>sendmsg\<close> reported.\<close>

theorem programs_send_typed:
  assumes "run_server fds rcvbuf_rc bind_rc ks server_opts ws = (r, ws')"
    and "client_plan getaddrinfo k contents randoms options f c n server sid"
    and "run_client getaddrinfo k contents socket_fd discover_rc randoms options wc = (x, wc')"
  shows "sends_whole (sends_typed server_types) (call_failed r) ws ws' \<and>
    sends_whole (sends_typed client_types) (call_failed x) wc wc'"
proof
  show "sends_whole (sends_typed server_types) (call_failed r) ws ws'"
    by (rule typedD(1) [OF typed_run_server assms(1)])
  show "sends_whole (sends_typed client_types) (call_failed x) wc wc'"
    by (rule sends_whole_mono [OF doesD(2) [OF does_run_client [OF assms(2)] assms(3) subset_refl]])
      (rule client_sends_typed [OF assms(2)])
qed

theorem programs_send_typed_witness:
  "\<exists>ws r ws'. run_server 5 0 0 example_kernel example_server_options ws = (r, ws') \<and>
     length (wd_sent ws') = 3 \<and> list_all (sends_typed server_types) (wd_sent ws')"
proof -
  obtain sends d ws' where S: "run_server 5 0 0 example_kernel example_server_options
       (idle_world\<lparr>wd_recvs := [Datagram example_client example_start_datagram,
          Datagram example_client (example_datagram DATA 0 [42]),
          Datagram example_client (example_datagram COMPLETE 1 [])],
        wd_clock := [1, 4, 5], wd_sends := sends\<rparr>) = (Blocked, ws')" (is "run_server _ _ _ _ _ ?ws = _")
    and s: "wd_sent ws' = [(example_client, example_start_ack), (example_client, d),
       (example_client, example_complete_ack 42)]"
    using server_example [of 42] by blast
  obtain w w' st completed where
    run: "run_client (\<lambda>_ _. Inr example_server) example_kernel [42] 6 0 [(0, 77)] example_options w =
       (Returned (st, completed), w')"
    using example_client_run by blast
  have "wd_sent ?ws = []" by (simp add: idle_world_def)
  with programs_send_typed [OF S example_plan run] have "list_all (sends_typed server_types) (wd_sent ws')"
    by (auto simp: sends_whole_def list_all_iff)
  moreover have "length (wd_sent ws') = 3" by (simp add: s)
  ultimately show ?thesis using S by blast
qed

section \<open>The main functions\<close>

text \<open>C32: How the client program ends and what it says.  With a valid command line the client ends with
  status 0 or 1, or waits for the system.  Status 0 goes with exactly the report on standard output and
  nothing on standard error; status 1 with nothing but the error, under the name of the program, and
  the usage, on standard error.\<close>

theorem client_main_output:
  assumes "client_main stod getaddrinfo k contents fd rc randoms argv w = (r, w')"
    and "parse_client_options stod argv = Inr (Parsed options)"
  shows "(r = Blocked \<and> wd_printed w' = wd_printed w) \<or>
    (r = Returned 0 \<and> (\<exists>cfg st completed end_time.
       wd_printed w' = wd_printed w @ map (Pair Cout) (client_report cfg st completed end_time))) \<or>
    (r = Returned 1 \<and> (\<exists>e. wd_printed w' = wd_printed w @
       map (Pair Cerr) ([Text ''client: '', Text (error_text e)] # client_usage (program_name argv))))"
proof -
  let ?run = "run_client getaddrinfo k contents fd rc randoms options"
  have "exit_status ''client: '' (client_usage (program_name argv)) ?run w = (r, w')"
    using assms by (simp add: client_main_def Let_def)
  then show ?thesis
  proof (cases rule: exit_status_cases)
    case (success report)
    then show ?thesis using printsD [OF prints_run_client success(1)] by (auto simp: reports_def)
  next
    case (failure e v)
    then show ?thesis using printsD [OF prints_run_client failure(1)] by auto
  next
    case blocked
    then show ?thesis using printsD [OF prints_run_client blocked(1)] by simp
  qed
qed

theorem client_main_output_witness:
  "\<exists>w'. client_main (\<lambda>_. Inr None) (\<lambda>_ _. Inr example_server) example_kernel [42] (- 1) 0 [(0, 77)] example_client_argv
      idle_world = (Returned 1, w') \<and>
    (\<exists>e. wd_printed w' = map (Pair Cerr) ([Text ''client: '', Text (error_text e)] # client_usage ''client''))"
proof -
  let ?m = "client_main (\<lambda>_. Inr None) (\<lambda>_ _. Inr example_server) example_kernel [42] (- 1) 0 [(0, 77)] example_client_argv"
  obtain w' where run: "?m idle_world = (Returned 1, w')"
    by (simp add: client_main_def Let_def example_client_options exit_status_def example_no_socket fail_with_run)
  have "program_name example_client_argv = ''client''"
    by (simp add: example_client_argv_def program_name_def)
  moreover have "wd_printed idle_world = []" by (simp add: idle_world_def)
  ultimately show ?thesis
    using client_main_output [OF run example_client_options] run by simp
qed

text \<open>C33: How the server program ends and what it says.  With a valid command line the server prints on
  standard output nothing, or that it waits, or that and the report of one transfer.  It prints the
  report only after the output file has been received completely and flushed, with the contents it
  then has, and always when it ends with status 0; the report states as many unique chunks as the file
  has.  Status 1 goes with the error and the usage on standard error, and nothing else puts anything
  there.\<close>

theorem server_main_output:
  assumes "server_main fd rcvbuf_rc bind_rc k argv w = (r, w')"
    and "parse_server_options argv = Inr (Parsed options)"
  shows "\<exists>out err. wd_printed w' = wd_printed w @ map (Pair Cout) out @ map (Pair Cerr) err \<and>
    (case r of
       Returned status \<Rightarrow> status \<in> {0, 1} \<and> (status = 0 \<longleftrightarrow> err = []) \<and>
         (status = 1 \<longleftrightarrow> (\<exists>e. err = [Text ''server: '', Text (error_text e)] # server_usage (program_name argv))) \<and>
         (status = 0 \<longrightarrow> 1 < length out)
     | Thrown e \<Rightarrow> False
     | Blocked \<Rightarrow> err = []) \<and>
    (out = [] \<or> out = [waiting_line options] \<or>
     (\<exists>sess st. out = waiting_line options # server_report sess st \<and>
        wd_flushed w' = wd_flushed w @ [sv_output st] \<and>
        length (sv_output st) = unat (sp_file_size (ss_start sess)) \<and>
        complete (sv_tracker st) \<and> rt_received_count (sv_tracker st) = sp_total_chunks (ss_start sess)))"
proof -
  let ?run = "run_server fd rcvbuf_rc bind_rc k options"
  have out: "\<exists>out. wd_printed v = wd_printed w @ map (Pair Cout) out \<and> ((\<exists>u. s = Returned u) \<longrightarrow> 1 < length out) \<and>
      (out = [] \<or> out = [waiting_line options] \<or>
       (\<exists>sess st. out = waiting_line options # server_report sess st \<and>
          wd_flushed v = wd_flushed w @ [sv_output st] \<and>
          length (sv_output st) = unat (sp_file_size (ss_start sess)) \<and>
          complete (sv_tracker st) \<and> rt_received_count (sv_tracker st) = sp_total_chunks (ss_start sess)))"
    if run: "?run w = (s, v)" for s v
  proof (cases "wd_printed v = wd_printed w \<and> (\<forall>u. s \<noteq> Returned u)")
    case True
    then show ?thesis by (intro exI [of _ "[]"]) simp
  next
    case False
    with run_server_printed [OF run] obtain u where
      u: "wd_printed u = wd_printed w @ [(Cout, waiting_line options)]" "wd_flushed u = wd_flushed w"
      and alt: "(wd_printed v = wd_printed u \<and> (\<forall>x. s \<noteq> Returned x)) \<or> transfer_reported u v"
      by (auto split: if_splits)
    from alt show ?thesis
    proof
      assume "wd_printed v = wd_printed u \<and> (\<forall>x. s \<noteq> Returned x)"
      with u show ?thesis by (intro exI [of _ "[waiting_line options]"]) simp
    next
      assume "transfer_reported u v"
      then obtain sess st where t: "server_inv sess st" "complete (sv_tracker st)"
        "wd_flushed v = wd_flushed u @ [sv_output st]"
        "wd_printed v = wd_printed u @ map (Pair Cout) (server_report sess st)"
        by (auto simp: transfer_reported_def)
      have "rt_received_count (sv_tracker st) = sp_total_chunks (ss_start sess)"
        using t(1,2) rt.unat_count [of "sv_tracker st"] rt.full_iff [of "sv_tracker st"]
        by (simp add: server_inv_def word_unat_eq_iff)
      moreover have "length (sv_output st) = unat (sp_file_size (ss_start sess))"
        using t(1) by (simp add: server_inv_def)
      moreover have "server_report sess st \<noteq> []" by (simp add: server_report_def Let_def)
      ultimately show ?thesis
        using t(2-4) u
        by (intro exI [of _ "waiting_line options # server_report sess st"] conjI impI disjI2
            exI [of _ sess] exI [of _ st]) simp_all
    qed
  qed
  have "exit_status ''server: '' (server_usage (program_name argv)) ?run w = (r, w')"
    using assms by (simp add: server_main_def Let_def)
  then show ?thesis
  proof (cases rule: exit_status_cases)
    case (success a)
    from out [OF success(1)] success(2) show ?thesis by (elim exE) (rule exI, rule exI [of _ "[]"], auto)
  next
    case (failure e v)
    from out [OF failure(1)] failure(2,3) show ?thesis
      by (elim exE)
        (rule exI, rule exI [of _ "[Text ''server: '', Text (error_text e)] # server_usage (program_name argv)"], auto)
  next
    case blocked
    from out [OF blocked(1)] blocked(2) show ?thesis by (elim exE) (rule exI, rule exI [of _ "[]"], auto)
  qed
qed

theorem server_main_output_witness:
  "\<exists>w'. server_main 3 0 1 example_kernel example_server_argv idle_world = (Returned 1, w') \<and>
    (\<exists>out err. wd_printed w' = map (Pair Cout) out @ map (Pair Cerr) err \<and> err \<noteq> [])"
proof -
  obtain w' where run: "server_main 3 0 1 example_kernel example_server_argv idle_world = (Returned 1, w')"
    by (simp add: server_main_def Let_def example_server_argv_parsed exit_status_def run_server_def io_defs
        throw_errno_def close_socket_def fail_with_run)
  obtain out err where "wd_printed w' = wd_printed idle_world @ map (Pair Cout) out @ map (Pair Cerr) err"
    "err \<noteq> []"
    using server_main_output [OF run example_server_argv_parsed] by auto
  with run show ?thesis by (auto simp: idle_world_def)
qed

end
