(* ===== verification/Server_Progress.thy ===== *)
theory Server_Progress
  imports Server_Delivery
begin

text \<open>
  The server gets to its end.  If every chunk arrives and after them a COMPLETE, then the main loop does
  not wait for a datagram any more, whatever else has arrived: it ends, unless a system call fails or
  the system lets it wait for the clock or for a send.
\<close>

section \<open>What a step can wait for\<close>

text \<open>A step that does not receive waits only where the clock or the results of sends have run out.\<close>

definition starves :: "'a io \<Rightarrow> bool" where
  "starves m \<longleftrightarrow> (\<forall>w w'. m w = (Blocked, w') \<longrightarrow> wd_clock w' = [] \<or> wd_sends w' = [])"

lemma starvesD: "starves m \<Longrightarrow> m w = (Blocked, w') \<Longrightarrow> wd_clock w' = [] \<or> wd_sends w' = []"
  by (simp add: starves_def)

lemma starves_basic:
  "starves (io_return a)" "starves (io_throw e)" "starves (throw_errno what)" "starves clock_now"
  "starves (log_files calls)" "starves (log_flushed d)"
  by (auto simp: starves_def io_return_def io_throw_def syscall_defs split: list.splits)

lemma starves_sum: "starves (io_sum r)"
  by (cases r) (simp_all add: starves_basic io_sum_def)

lemma starves_bind: "starves m \<Longrightarrow> (\<And>a. starves (f a)) \<Longrightarrow> starves (io_bind m f)"
  unfolding starves_def io_bind_def by (auto split: prod.splits outcome.splits)

lemma starves_if: "starves m \<Longrightarrow> starves m' \<Longrightarrow> starves (if b then m else m')"
  by simp

lemma starves_send_loop: "starves (send_loop what dest d)"
  unfolding starves_def
proof (intro allI impI)
  fix w w'
  show "send_loop what dest d w = (Blocked, w') \<Longrightarrow> wd_clock w' = [] \<or> wd_sends w' = []"
  proof (induction what dest d w rule: send_loop.induct)
    case (1 what dest d w)
    obtain r v where s: "sendto dest d w = (r, v)" by fastforce
    show ?case
    proof (cases "r = Returned Send_interrupted")
      case True
      with 1(2) s have "send_loop what dest d v = (Blocked, w')" by (simp add: send_loop.simps [of what dest d w])
      from 1(1) [OF s [symmetric] True refl this] show ?thesis .
    next
      case False
      with 1(2) s show ?thesis
        by (auto simp: send_loop.simps [of what dest d w] sendto_def throw_errno_def
            split: outcome.splits send_result.splits list.splits if_splits)
    qed
  qed
qed

lemma starves_send_packet: "starves (send_packet dest h p n)"
  unfolding send_packet_def by (intro starves_bind starves_sum starves_send_loop)

lemmas starves_intros = starves_basic starves_sum starves_bind starves_if starves_send_packet

lemma starves_handle_packet: "starves (handle_packet k f sess source packet st)"
  unfolding handle_packet_def handle_complete_def handle_data_def answer_start_def send_state_ack_def
    send_start_ack_def send_ack_def sync_file_def Let_def case_prod_beta
  by (intro starves_intros)

section \<open>Arrivals\<close>

text \<open>A datagram that does not parse is dropped.\<close>

definition junk :: "recv_result \<Rightarrow> bool" where
  "junk x \<longleftrightarrow> (\<forall>source bs packet. x = Datagram source bs \<longrightarrow> \<not> parses_to bs packet)"

text \<open>While a datagram that parses is to come, receiving does not block: it gives the first that parses.\<close>

lemma receive_packet_arrives:
  "wd_recvs w = pre @ Datagram src bs # post \<Longrightarrow> parses_to bs v \<Longrightarrow> receive_packet w = (r, w') \<Longrightarrow>
   (\<exists>e. r = Thrown e) \<or>
   (\<exists>source packet bs' dropped. r = Returned (source, packet) \<and>
      wd_recvs w = dropped @ Datagram source bs' # wd_recvs w' \<and> parses_to bs' packet \<and> list_all junk dropped)"
proof (induction pre arbitrary: w)
  case Nil
  let ?bs = "take kReceiveBufferBytes bs"
  have "receive_packet w = (Returned (src, v), w\<lparr>wd_recvs := post\<rparr>)"
    using Nil(1,2)
    by (simp add: receive_packet.simps [of w] recvfrom_def parses_to_def del: length_take)
  with Nil(3) have "r = Returned (src, v)" "w' = w\<lparr>wd_recvs := post\<rparr>" by simp_all
  then show ?case using Nil(1,2)
    by (intro disjI2 exI [of _ src] exI [of _ v] exI [of _ bs] exI [of _ "[]"]) simp
next
  case (Cons x pre)
  let ?w = "w\<lparr>wd_recvs := pre @ Datagram src bs # post\<rparr>"
  have recv: "recvfrom kReceiveBufferBytes w = (Returned (case x of
      Datagram src bs \<Rightarrow> Datagram src (take kReceiveBufferBytes bs) | _ \<Rightarrow> x), ?w)"
    using Cons(2) by (simp add: recvfrom_def)
  have again: ?case if j: "junk x" and run: "receive_packet ?w = (r, w')"
    using Cons(1) [of ?w, OF _ Cons(3) run, simplified]
  proof (elim disjE exE conjE)
    fix source packet bs' dropped
    assume "r = Returned (source, packet)" "pre @ Datagram src bs # post = dropped @ Datagram source bs' # wd_recvs w'"
      "parses_to bs' packet" "list_all junk dropped"
    then show ?thesis using Cons(2) j
      by (intro disjI2 exI [of _ source] exI [of _ packet] exI [of _ bs'] exI [of _ "x # dropped"]) simp
  qed simp_all
  show ?case
  proof (cases x)
    case (Datagram source bs')
    let ?bs = "take kReceiveBufferBytes bs'"
    show ?thesis
    proof (cases "deserialize_packet_view (Some ?bs) (length ?bs)")
      case (Inl e)
      have "junk x" using Inl by (simp add: junk_def Datagram parses_to_def del: length_take)
      moreover have "receive_packet ?w = (r, w')"
        using Cons(4) recv Inl by (simp add: receive_packet.simps [of w] Datagram del: length_take)
      ultimately show ?thesis by (rule again)
    next
      case (Inr packet)
      then have "r = Returned (source, packet)" "w' = ?w"
        using Cons(4) recv by (simp_all add: receive_packet.simps [of w] Datagram del: length_take)
      moreover have "parses_to bs' packet" using Inr by (simp add: parses_to_def del: length_take)
      ultimately show ?thesis using Cons(2) Datagram
        by (intro disjI2 exI [of _ source] exI [of _ packet] exI [of _ bs'] exI [of _ "[]"]) simp
    qed
  next
    case Recv_interrupted
    then have "receive_packet ?w = (r, w')"
      using Cons(4) recv by (simp add: receive_packet.simps [of w])
    then show ?thesis by (intro again) (simp add: junk_def Recv_interrupted)
  qed (use Cons(4) recv in \<open>auto simp: receive_packet.simps [of w] throw_errno_def\<close>)
qed

text \<open>A DATA packet of the session that brings chunk \<open>s\<close>, and the COMPLETE of the session.\<close>

definition brings :: "session \<Rightarrow> u32 \<Rightarrow> packet_view \<Rightarrow> bool" where
  "brings sess s packet \<longleftrightarrow> ptype (view_header packet) = DATA \<and>
     session_id (view_header packet) = ss_session_id sess \<and> number (view_header packet) = s \<and>
     acceptable sess packet"

definition finishes :: "session \<Rightarrow> packet_view \<Rightarrow> bool" where
  "finishes sess packet \<longleftrightarrow> ptype (view_header packet) = COMPLETE \<and>
     session_id (view_header packet) = ss_session_id sess \<and>
     number (view_header packet) = sp_total_chunks (ss_start sess) \<and> view_payload_size packet = 0"

text \<open>What is still missing arrives from the client before a COMPLETE of the client.\<close>

definition rest_arrives :: "session \<Rightarrow> nat set \<Rightarrow> recv_result list \<Rightarrow> bool" where
  "rest_arrives sess have_chunks rs \<longleftrightarrow> (\<exists>pre bs packet post.
     rs = pre @ Datagram (ss_client sess) bs # post \<and> parses_to bs packet \<and> finishes sess packet \<and>
     (\<forall>s < sp_total_chunks (ss_start sess). unat s \<in> have_chunks \<or>
        (\<exists>bs' packet'. Datagram (ss_client sess) bs' \<in> set pre \<and> parses_to bs' packet' \<and>
           brings sess s packet')))"

text \<open>A packet that brings a chunk makes it received.\<close>

lemma handle_packet_brings:
  assumes "session_ok sess" and "server_inv sess st" and "view_ok packet"
    and "handle_packet k f sess (ss_client sess) packet st w = (Returned sig, w')" and "brings sess s packet"
  shows "unat s \<in> received_set (sv_tracker (signal_state sig))"
proof -
  obtain st' where "handle_data sess packet st w = (Returned st', w')" "sig = Continue st'"
    using assms(4,5) by (auto simp: handle_packet_def brings_def same_endpoint_eq io_bind_returned)
  with handle_data_result(2) [OF assms(1-3) this(1)] assms(5) show ?thesis by (simp add: brings_def)
qed

text \<open>With every chunk received, a COMPLETE completes.\<close>

lemma complete_when_all:
  assumes inv: "server_inv sess st"
    and all: "\<And>s. s < sp_total_chunks (ss_start sess) \<Longrightarrow> unat s \<in> received_set (sv_tracker st)"
  shows "complete (sv_tracker st)" and "rt_cumulative_ack (sv_tracker st) = sp_total_chunks (ss_start sess)"
proof -
  let ?n = "sp_total_chunks (ss_start sess)"
  have T: "tracker_inv (sv_tracker st)" "length (rt_received (sv_tracker st)) = unat ?n"
    using inv by (simp_all add: server_inv_def)
  have "i \<in> received_set (sv_tracker st)" if "i < unat ?n" for i
    using all [of "of_nat i"] unat_of_nat_below [of i ?n] that by (simp add: word_less_nat_alt)
  moreover have "received_set (sv_tracker st) \<subseteq> {..<unat ?n}" using T(2) by (auto simp: received_set_def)
  ultimately show c: "complete (sv_tracker st)" using rt.full_iff [OF T(1)] T(2) by auto
  then show "rt_cumulative_ack (sv_tracker st) = ?n"
    using rt.full_cum [OF T(1)] T(2) by (simp add: word_unat_eq_iff)
qed

lemma handle_packet_finishes:
  assumes "server_inv sess st" and "finishes sess packet"
    and "\<And>s. s < sp_total_chunks (ss_start sess) \<Longrightarrow> unat s \<in> received_set (sv_tracker st)"
  shows "handle_packet k f sess (ss_client sess) packet st w \<noteq> (Returned (Continue st'), w')"
proof
  assume run: "handle_packet k f sess (ss_client sess) packet st w = (Returned (Continue st'), w')"
  note F = assms(2) [unfolded finishes_def]
  have "handle_packet k f sess (ss_client sess) packet st = handle_complete k f sess packet st"
    using F by (simp add: handle_packet_def same_endpoint_eq)
  then show False
    using run F complete_when_all [OF assms(1,3)]
    by (auto simp: handle_complete_def Let_def io_bind_returned)
qed

section \<open>The main loop ends\<close>

text \<open>The arrival of a packet that parses, when the COMPLETE is still to come or is that packet.\<close>

lemma rest_arrives_cases:
  assumes "rest_arrives sess R (dropped @ Datagram source bs # rest)" and "list_all junk dropped"
    and "parses_to bs packet"
  obtains
    (now) "source = ss_client sess" "finishes sess packet"
      "\<And>s. s < sp_total_chunks (ss_start sess) \<Longrightarrow> unat s \<in> R"
  | (later) "\<And>R'. R \<subseteq> R' \<Longrightarrow>
      (\<And>s. source = ss_client sess \<Longrightarrow> brings sess s packet \<Longrightarrow> unat s \<in> R') \<Longrightarrow> rest_arrives sess R' rest"
proof -
  obtain pre cbs cp post where C: "dropped @ Datagram source bs # rest = pre @ Datagram (ss_client sess) cbs # post"
    "parses_to cbs cp" "finishes sess cp"
    and need: "\<And>s. s < sp_total_chunks (ss_start sess) \<Longrightarrow> unat s \<in> R \<or>
      (\<exists>bs' packet'. Datagram (ss_client sess) bs' \<in> set pre \<and> parses_to bs' packet' \<and> brings sess s packet')"
    using assms(1) by (auto simp: rest_arrives_def)
  have nj: "Datagram src ds \<notin> set dropped" if "parses_to ds v" for src ds v
    using assms(2) that by (auto simp: list_all_iff junk_def)
  from C(1) consider
    (eq) "dropped = pre" "Datagram source bs = Datagram (ss_client sess) cbs"
    | (inside) pre' where "pre = dropped @ Datagram source bs # pre'" "rest = pre' @ Datagram (ss_client sess) cbs # post"
    | (before) mid where "dropped = pre @ Datagram (ss_client sess) cbs # mid"
    by (auto simp: append_eq_append_conv2 append_eq_Cons_conv Cons_eq_append_conv)
  then show ?thesis
  proof cases
    case eq
    then have "cp = packet" using C(2) assms(3) by (auto dest: parses_to_unique)
    then show ?thesis using eq C(3) need nj by (intro now) blast+
  next
    case inside
    show ?thesis
    proof (rule later)
      fix R' assume R: "R \<subseteq> R'" and b: "\<And>s. source = ss_client sess \<Longrightarrow> brings sess s packet \<Longrightarrow> unat s \<in> R'"
      have "unat s \<in> R' \<or> (\<exists>bs' packet'. Datagram (ss_client sess) bs' \<in> set pre' \<and>
          parses_to bs' packet' \<and> brings sess s packet')" if s: "s < sp_total_chunks (ss_start sess)" for s
        using need [OF s] R b [of s] nj inside(1) parses_to_unique [OF assms(3)] by auto
      then show "rest_arrives sess R' rest"
        unfolding rest_arrives_def using inside(2) C(2,3) by blast
    qed
  next
    case before
    then show ?thesis using nj [OF C(2)] by auto
  qed
qed

lemma serve_loop_ends:
  "session_ok sess \<Longrightarrow> server_inv sess st \<Longrightarrow> rest_arrives sess (received_set (sv_tracker st)) (wd_recvs w) \<Longrightarrow>
     serve_loop k f sess st w = (Blocked, w') \<Longrightarrow> wd_clock w' = [] \<or> wd_sends w' = []"
proof (induction k f sess st w rule: serve_loop.induct)
  case (1 k f sess st w)
  obtain pre bs v post where A: "wd_recvs w = pre @ Datagram (ss_client sess) bs # post" "parses_to bs v"
    using 1(4) by (auto simp: rest_arrives_def)
  obtain x w1 where recv: "receive_packet w = (x, w1)" by fastforce
  from receive_packet_arrives [OF A recv] show ?case
  proof (elim disjE exE conjE)
    fix e assume "x = Thrown e"
    then show ?thesis using 1(5) recv by (simp add: serve_loop.simps [of k f sess st w])
  next
    fix source packet bs' dropped
    assume x: "x = Returned (source, packet)" and rs: "wd_recvs w = dropped @ Datagram source bs' # wd_recvs w1"
      and p: "parses_to bs' packet" and d: "list_all junk dropped"
    obtain s w2 where handle: "handle_packet k f sess source packet st w1 = (s, w2)" by fastforce
    have r2: "wd_recvs w2 = wd_recvs w1" by (rule recvs.keepsD [OF recvs_handle_packet handle])
    have ok: "view_ok packet" using receive_packet_result [OF recv [unfolded x]] by blast
    show ?thesis
    proof (cases "\<exists>st1. s = Returned (Continue st1)")
      case True
      then obtain st1 where s: "s = Returned (Continue st1)" ..
      note handle' = handle [unfolded s]
      note H = handle_packet_result [OF 1(2,3) ok handle']
      have rest: "serve_loop k f sess st1 w2 = (Blocked, w')"
        using 1(5) recv x handle s by (simp add: serve_loop.simps [of k f sess st w])
      have "rest_arrives sess (received_set (sv_tracker st1)) (wd_recvs w2)"
        using 1(4) [unfolded rs] d p
      proof (cases rule: rest_arrives_cases)
        case now
        then show ?thesis using handle_packet_finishes [OF 1(3)] handle' by blast
      next
        case later
        show ?thesis
          unfolding r2
        proof (rule later)
          show "received_set (sv_tracker st) \<subseteq> received_set (sv_tracker st1)" using H by simp
          show "unat j \<in> received_set (sv_tracker st1)" if "source = ss_client sess" "brings sess j packet" for j
            using handle_packet_brings [OF 1(2,3) ok _ that(2)] handle' that(1) by force
        qed
      qed
      with 1(1) [OF recv [symmetric] x refl handle [symmetric] s refl 1(2) _ _ rest] H show ?thesis by simp
    next
      case False
      then have "s = Blocked" "w' = w2"
        using 1(5) recv x handle
        by (auto simp: serve_loop.simps [of k f sess st w] split: outcome.splits server_signal.splits)
      then show ?thesis using starvesD [OF starves_handle_packet] handle by simp
    qed
  qed
qed

end
