(* ===== verification/Server_Faults.thy ===== *)
theory Server_Faults
  imports Wire_Typing Ack_Exchange
begin

text \<open>
  Why the server's main loop throws: only because a system call has failed, never because of what a
  datagram contains.
\<close>

section \<open>Failures of the system\<close>

text \<open>
  The error of a step that has thrown is that of a system call: a \<^verbatim>\<open>recvfrom\<close> or a \<^verbatim>\<open>sendto\<close> whose
  result, the last one used up, was a failure or, for a send, a number of bytes different from the
  length of the datagram, or else the flush of the output file, whose calls are then the last ones
  made on files.
\<close>

definition recv_failure :: "frft_error \<Rightarrow> world \<Rightarrow> world \<Rightarrow> bool" where
  "recv_failure e w w' \<longleftrightarrow> e = Runtime_error (''recvfrom failed: '' @ wd_strerror w) \<and>
     (\<exists>used. wd_recvs w = used @ wd_recvs w' \<and> used \<noteq> [] \<and> last used \<in> {Recv_would_block, Recv_failed})"

definition send_failure :: "frft_error \<Rightarrow> world \<Rightarrow> world \<Rightarrow> bool" where
  "send_failure e w w' \<longleftrightarrow> e = Runtime_error (''sendto failed: '' @ wd_strerror w) \<and>
     (\<exists>used. wd_sends w = used @ wd_sends w' \<and> used \<noteq> [] \<and>
        (last used = Send_failed \<or>
         (\<exists>n dest d. last used = Sent n \<and> n \<noteq> length d \<and> well_typed server_types d \<and>
            wd_sent w' \<noteq> [] \<and> last (wd_sent w') = (dest, take n d))))"

definition system_failure :: "file_kernel \<Rightarrow> mapped_file \<Rightarrow> frft_error \<Rightarrow> world \<Rightarrow> world \<Rightarrow> bool" where
  "system_failure k f e w w' \<longleftrightarrow>
     recv_failure e w w' \<or> send_failure e w w' \<or>
     (fst (sync_output k f) = Inl e \<and> (\<exists>before. wd_files w' = before @ snd (sync_output k f)))"

text \<open>Results of calls are used up from the front, and the text of \<^verbatim>\<open>strerror\<close> does not change.\<close>

definition uses :: "world \<Rightarrow> world \<Rightarrow> bool" where
  "uses w w' \<longleftrightarrow> wd_strerror w' = wd_strerror w \<and>
     (\<exists>used. wd_recvs w = used @ wd_recvs w') \<and> (\<exists>used. wd_sends w = used @ wd_sends w')"

interpretation uses: world_frame uses
proof
  show "uses w w" for w by (simp add: uses_def)
  show "uses u w" if "uses u v" "uses v w" for u v w
    using that unfolding uses_def by (elim conjE exE) simp
qed

lemma uses_keeps:
  "uses.keeps clock_now" "uses.keeps (sendto dest d)" "uses.keeps (recvfrom n)"
  "uses.keeps (log_files calls)" "uses.keeps (log_flushed d)"
  by (auto intro!: uses.keepsI simp: uses_def syscall_defs split: list.splits send_result.splits)

lemma system_failure_later:
  assumes "uses u v" and "system_failure k f e v w"
  shows "system_failure k f e u w"
proof -
  obtain a b where U: "wd_strerror v = wd_strerror u" "wd_recvs u = a @ wd_recvs v" "wd_sends u = b @ wd_sends v"
    using assms(1) by (auto simp: uses_def)
  have recv: "recv_failure e u w" if f: "recv_failure e v w"
  proof -
    obtain used where "wd_recvs v = used @ wd_recvs w" "used \<noteq> []" "last used \<in> {Recv_would_block, Recv_failed}"
      "e = Runtime_error (''recvfrom failed: '' @ wd_strerror v)"
      using f unfolding recv_failure_def by blast
    with U show ?thesis unfolding recv_failure_def by (intro conjI exI [of _ "a @ used"]) simp_all
  qed
  have send: "send_failure e u w" if f: "send_failure e v w"
  proof -
    obtain used where "wd_sends v = used @ wd_sends w" "used \<noteq> []"
      "last used = Send_failed \<or> (\<exists>n dest d. last used = Sent n \<and> n \<noteq> length d \<and> well_typed server_types d \<and>
         wd_sent w \<noteq> [] \<and> last (wd_sent w) = (dest, take n d))"
      "e = Runtime_error (''sendto failed: '' @ wd_strerror v)"
      using f unfolding send_failure_def by blast
    with U show ?thesis unfolding send_failure_def by (intro conjI exI [of _ "b @ used"]) simp_all
  qed
  show ?thesis using assms(2) recv send unfolding system_failure_def by blast
qed

section \<open>The judgement\<close>

text \<open>A step throws only failures of the system.\<close>

definition faults :: "file_kernel \<Rightarrow> mapped_file \<Rightarrow> 'a io \<Rightarrow> bool" where
  "faults k f m \<longleftrightarrow> uses.keeps m \<and> (\<forall>w e w'. m w = (Thrown e, w') \<longrightarrow> system_failure k f e w w')"

lemma faultsI:
  "uses.keeps m \<Longrightarrow> (\<And>w e w'. m w = (Thrown e, w') \<Longrightarrow> system_failure k f e w w') \<Longrightarrow> faults k f m"
  by (simp add: faults_def)

lemma faultsD: "faults k f m \<Longrightarrow> m w = (Thrown e, w') \<Longrightarrow> system_failure k f e w w'"
  by (simp add: faults_def)

lemma faults_uses: "faults k f m \<Longrightarrow> m w = (r, w') \<Longrightarrow> uses w w'"
  by (auto simp: faults_def intro: uses.keepsD)

lemma faults_return: "faults k f (io_return a)"
  by (simp add: faults_def uses.keeps_return) (simp add: io_return_def)

lemma faults_clock: "faults k f clock_now"
  by (simp add: faults_def uses_keeps) (simp add: clock_now_def split: list.splits)

lemma faults_bind_value:
  assumes m: "faults k f m" and g: "\<And>w a w'. m w = (Returned a, w') \<Longrightarrow> faults k f (g a)"
  shows "faults k f (io_bind m g)"
proof (rule faultsI)
  show "uses.keeps (io_bind m g)"
    by (rule uses.keeps_bind_value) (use m g in \<open>auto simp: faults_def\<close>)
  fix w e w' assume run: "io_bind m g w = (Thrown e, w')"
  obtain r v where mw: "m w = (r, v)" by fastforce
  show "system_failure k f e w w'"
  proof (cases r)
    case (Returned a)
    with run mw have "g a v = (Thrown e, w')" by (simp add: io_bind_def)
    with faultsD [OF g [OF mw [unfolded Returned]]] faults_uses [OF m mw] show ?thesis
      by (blast intro: system_failure_later)
  qed (use run mw faultsD [OF m] in \<open>auto simp: io_bind_def\<close>)
qed

lemma faults_bind: "faults k f m \<Longrightarrow> (\<And>a. faults k f (g a)) \<Longrightarrow> faults k f (io_bind m g)"
  by (rule faults_bind_value)

lemma faults_if: "(b \<Longrightarrow> faults k f m) \<Longrightarrow> (\<not> b \<Longrightarrow> faults k f m') \<Longrightarrow> faults k f (if b then m else m')"
  by simp

lemma faults_send_loop:
  assumes "well_typed server_types d"
  shows "faults k f (send_loop ''sendto failed: '' dest d)"
proof (rule faultsI)
  show "uses.keeps (send_loop ''sendto failed: '' dest d)" by (intro uses.keeps_send_loop uses_keeps)
  fix w e w'
  define what where "what = ''sendto failed: ''"
  have "send_loop what dest d w = (Thrown e, w') \<Longrightarrow> what = ''sendto failed: '' \<Longrightarrow>
    well_typed server_types d \<Longrightarrow> system_failure k f e w w'"
  proof (induction what dest d w rule: send_loop.induct)
    case (1 what dest d w)
    obtain r v where s: "sendto dest d w = (r, v)" by fastforce
    show ?case
    proof (cases "r = Returned Send_interrupted")
      case True
      with 1(2) s have "send_loop what dest d v = (Thrown e, w')" by (simp add: send_loop.simps [of what dest d w])
      from 1(1) [OF s [symmetric] True refl this 1(3,4)] uses.keepsD [OF uses_keeps(2) s] show ?thesis
        by (rule system_failure_later [rotated])
    next
      case False
      obtain x xs where x: "wd_sends w = x # xs"
        using 1(2) s by (cases "wd_sends w") (auto simp: send_loop.simps [of what dest d w] sendto_def)
      have e: "e = Runtime_error (what @ wd_strerror w)" and w':
        "x = Send_failed \<and> w' = w\<lparr>wd_sends := xs\<rparr> \<or> (\<exists>n. x = Sent n \<and> n \<noteq> length d \<and>
           w' = w\<lparr>wd_sends := xs, wd_sent := wd_sent w @ [(dest, take n d)]\<rparr>)"
        using 1(2) s False x
        by (auto simp: send_loop.simps [of what dest d w] sendto_def throw_errno_def split: send_result.splits if_splits)
      have "wd_sends w = [x] @ wd_sends w'" using w' x by auto
      moreover have "last [x] = Send_failed \<or> (\<exists>n dest d. last [x] = Sent n \<and> n \<noteq> length d \<and>
          well_typed server_types d \<and> wd_sent w' \<noteq> [] \<and> last (wd_sent w') = (dest, take n d))"
        using w' 1(4) by auto
      ultimately have "send_failure e w w'"
        unfolding send_failure_def e 1(3) by blast
      then show ?thesis by (simp add: system_failure_def)
    qed
  qed
  then show "send_loop ''sendto failed: '' dest d w = (Thrown e, w') \<Longrightarrow> system_failure k f e w w'"
    using assms by (simp add: what_def)
qed

lemma faults_send_packet:
  assumes "serialize_packet h p n = Inr d" and "well_typed server_types d"
  shows "faults k f (send_packet dest h p n)"
  using faults_send_loop [OF assms(2)] by (simp add: send_packet_def assms(1))

section \<open>The steps of the server\<close>

lemma faults_start_ack: "faults k f (send_start_ack client sid response)"
proof -
  let ?p = "serialize_start_ack response"
  obtain d where d: "serialize_packet (make_header START_ACK sid 0) (Some ?p) (length ?p) = Inr d"
    by (simp add: serialize_packet_layout serialize_start_ack_layout)
  show ?thesis unfolding send_start_ack_def Let_def by (rule faults_send_packet [OF d start_ack_typed [OF d]])
qed

lemma faults_state_ack:
  assumes "session_ok sess" and "tracker_inv (sv_tracker st)"
  shows "faults k f (send_state_ack sess st)"
proof -
  let ?ack = "make_ack_snapshot (sv_tracker st) kDefaultAckBitmapBits"
  let ?h = "(make_header ACK (ss_session_id sess) (sv_ack_number st))\<lparr>flags := FLAG_SACK\<rparr>"
  obtain bs where bs: "serialize_ack ?ack = Inr bs" using snapshot_wire [OF assms(2)] by blast
  have "bitmap_bytes kDefaultAckBitmapBits = 1024" by (simp add: bitmap_bytes_def kDefaultAckBitmapBits_def)
  then have "length bs \<le> 65535"
    using bs snapshot_bitmap(1) [OF assms(2), of kDefaultAckBitmapBits] by (auto simp: serialize_ack_layout split: if_splits)
  then obtain d where d: "serialize_packet ?h (Some bs) (length bs) = Inr d" by (simp add: serialize_packet_layout)
  have "sa_accepted_bitmap_bits (ss_accepted sess) = kDefaultAckBitmapBits"
    using assms(1) by (simp add: session_ok_def acceptance_def)
  then show ?thesis
    using faults_send_packet [OF d ack_typed [OF bs d]] by (simp add: send_state_ack_def send_ack_def bs)
qed

lemma faults_sync: "faults k f (sync_file k f contents)"
proof (rule faultsI)
  show "uses.keeps (sync_file k f contents)"
    unfolding sync_file_def case_prod_beta Let_def by (intro uses.keeps_intros uses_keeps)
  show "system_failure k f e w w'" if "sync_file k f contents w = (Thrown e, w')" for w e w'
    using that by (auto simp: sync_file_def io_bind_def log_files_def io_sum_def io_throw_def io_return_def log_flushed_def
        system_failure_def split: prod.splits sum.splits)
qed

lemma faults_handle_data:
  assumes "session_ok sess" and "server_inv sess st" and "view_ok packet"
  shows "faults k f (handle_data sess packet st)"
proof (cases "acceptable sess packet")
  case False
  then have "handle_data sess packet st = io_return st"
    by (auto simp: acceptable_def handle_data_def Let_def not_le)
  then show ?thesis by (simp add: faults_return)
next
  case True
  let ?s = "number (view_header packet)"
  let ?arrive = "if has_received (sv_tracker st) ?s
    then io_return (st\<lparr>sv_duplicate_packets := sv_duplicate_packets st + 1\<rparr>)
    else io_bind clock_now (\<lambda>now. io_return (store_chunk sess ?s packet now st))"
  have ack: "faults k f (ack_step sess packet dup st1)" if "tracker_inv (sv_tracker st1)" for dup st1
    using that unfolding ack_step_def Let_def
    by (intro faults_bind faults_clock faults_if faults_state_ack [OF assms(1)] faults_return) simp
  have arrive: "faults k f ?arrive" by (intro faults_if faults_bind faults_clock faults_return)
  show ?thesis
    unfolding handle_data_accepted [OF True]
  proof (rule faults_bind_value [OF arrive])
    fix w st1 w1 assume "?arrive w = (Returned st1, w1)"
    from arrival_returned [OF this] obtain t where "st1 = after_arrival sess packet t st" by blast
    with after_arrival_inv(1) [OF assms(1,2) True assms(3), of t]
    show "faults k f (ack_step sess packet (has_received (sv_tracker st) ?s) st1)" by (intro ack) simp
  qed
qed

lemma faults_handle_complete:
  assumes "session_ok sess" and "server_inv sess st"
  shows "faults k f (handle_complete k f sess packet st)"
proof -
  let ?p = "serialize_complete_ack (completion_payload sess st)"
  obtain d where d: "serialize_packet (make_header COMPLETE_ACK (ss_session_id sess) (sp_total_chunks (ss_start sess)))
      (Some ?p) (length ?p) = Inr d"
    by (simp add: serialize_packet_layout serialize_complete_ack_layout)
  have "tracker_inv (sv_tracker st)" using assms(2) by (simp add: server_inv_def)
  then show ?thesis
    unfolding handle_complete_def Let_def
    by (intro faults_if faults_return faults_bind faults_state_ack [OF assms(1)] faults_sync
        faults_send_packet [OF d complete_ack_typed [OF d]])
qed

lemma faults_handle_packet:
  assumes "session_ok sess" and "server_inv sess st" and "view_ok packet"
  shows "faults k f (handle_packet k f sess source packet st)"
  unfolding handle_packet_def answer_start_def Let_def
  by (intro faults_if faults_bind faults_return faults_start_ack faults_handle_data [OF assms]
      faults_handle_complete [OF assms(1,2)])

lemma faults_receive_packet: "faults k f receive_packet"
proof (rule faultsI)
  show "uses.keeps receive_packet" by (rule uses.keeps_receive_packet [OF uses_keeps(3)])
  fix w e w'
  show "receive_packet w = (Thrown e, w') \<Longrightarrow> system_failure k f e w w'"
  proof (induction w rule: receive_packet.induct)
    case (1 w)
    obtain x xs where x: "wd_recvs w = x # xs"
      using 1(3) by (cases "wd_recvs w") (auto simp: receive_packet.simps [of w] recvfrom_def)
    let ?w = "w\<lparr>wd_recvs := xs\<rparr>"
    have rf: "recvfrom kReceiveBufferBytes w = (Returned (case x of
        Datagram src bs \<Rightarrow> Datagram src (take kReceiveBufferBytes bs) | _ \<Rightarrow> x), ?w)"
      by (simp add: recvfrom_def x)
    have u: "uses w ?w" using x by (simp add: uses_def)
    show ?case
    proof (cases x)
      case (Datagram src bs)
      note rf' = rf [unfolded Datagram recv_result.case]
      from 1(3) obtain err where err: "deserialize_packet_view (Some (take kReceiveBufferBytes bs))
          (length (take kReceiveBufferBytes bs)) = Inl err" "receive_packet ?w = (Thrown e, w')"
        by (subst (asm) receive_packet.simps) (auto simp: rf' simp del: length_take split: sum.splits)
      from system_failure_later [OF u 1(1) [OF rf' [symmetric] refl refl err]] show ?thesis .
    next
      case Recv_interrupted
      note rf' = rf [unfolded Recv_interrupted recv_result.case]
      from 1(3) have "receive_packet ?w = (Thrown e, w')" by (subst (asm) receive_packet.simps) (simp add: rf')
      from system_failure_later [OF u 1(2) [OF rf' [symmetric] refl refl this]] show ?thesis .
    qed (use 1(3) in \<open>subst (asm) receive_packet.simps,
        auto simp: rf x throw_errno_def system_failure_def recv_failure_def\<close>)+
  qed
qed

section \<open>The main loop\<close>

text \<open>Whatever arrives, the main loop throws only failures of the system.\<close>

lemma serve_loop_faults:
  "session_ok sess \<Longrightarrow> server_inv sess st \<Longrightarrow> serve_loop k f sess st w = (Thrown e, w') \<Longrightarrow>
     system_failure k f e w w'"
proof (induction k f sess st w rule: serve_loop.induct)
  case (1 k f sess st w)
  obtain x w1 where recv: "receive_packet w = (x, w1)" by fastforce
  note u1 = faults_uses [OF faults_receive_packet recv]
  show ?case
  proof (cases x)
    case (Returned y)
    obtain source packet where y: "y = (source, packet)" by fastforce
    have ok: "view_ok packet" using receive_packet_result [OF recv [unfolded Returned y]] by blast
    obtain s w2 where handle: "handle_packet k f sess source packet st w1 = (s, w2)" by fastforce
    note H = faults_handle_packet [OF 1(2,3) ok, of k f source]
    show ?thesis
    proof (cases "\<exists>st1. s = Returned (Continue st1)")
      case True
      then obtain st1 where s: "s = Returned (Continue st1)" ..
      then have rest: "serve_loop k f sess st1 w2 = (Thrown e, w')"
        using 1(4) recv handle Returned y by (simp add: serve_loop.simps [of k f sess st w])
      have "server_inv sess st1" using handle_packet_result [OF 1(2,3) ok handle [unfolded s]] by simp
      from 1(1) [OF recv [symmetric] Returned y [symmetric] handle [symmetric] s refl 1(2) this rest]
      show ?thesis by (rule system_failure_later [OF uses.ok_trans [OF u1 faults_uses [OF H handle]]])
    next
      case False
      then have "s = Thrown e" "w' = w2"
        using 1(4) recv handle Returned y
        by (auto simp: serve_loop.simps [of k f sess st w] split: outcome.splits server_signal.splits)
      with faultsD [OF H] handle show ?thesis by (blast intro: system_failure_later [OF u1])
    qed
  qed (use 1(4) recv faultsD [OF faults_receive_packet] in \<open>auto simp: serve_loop.simps [of k f sess st w]\<close>)
qed

end
