(* ===== verification/Progress_Properties.thy ===== *)
theory Progress_Properties
  imports Client_Properties Server_Progress Server_Faults
begin

text \<open>
  Progress of both programs: the client sends again what is overdue, and the server's main loop comes
  to its end once everything has arrived.
\<close>

section \<open>The client\<close>

lemma client_round_after_drain:
  assumes drain: "client_drain cfg st w = (Returned st1, w1)" and clock: "wd_clock w1 = t # ts"
    and run: "client_round cfg st w = (Returned st', w')"
    and sel: "select_next_packet (check_timeouts (cl_window st1) t (ms kDefaultRtoMs)) = (Some d, window)"
  obtains st2 w2 where "client_send cfg d (st2\<lparr>cl_window := window\<rparr>) w2 = (Returned st', w')"
    "wd_sent w2 = wd_sent w"
proof -
  obtain sample_time w2 st2 w3 where c: "clock_now (w1\<lparr>wd_clock := ts\<rparr>) = (Returned sample_time, w2)"
    and s: "sample_window sample_time
       (st1\<lparr>cl_window := check_timeouts (cl_window st1) t (ms kDefaultRtoMs)\<rparr>) w2 = (Returned st2, w3)"
    and rest: "(case select_next_packet (cl_window st2) of
          (None, window) \<Rightarrow> client_idle cfg (st2\<lparr>cl_window := window\<rparr>)
        | (Some decision, window) \<Rightarrow> client_send cfg decision (st2\<lparr>cl_window := window\<rparr>)) w3 = (Returned st', w')"
    using run drain clock
    by (auto simp: client_round_def io_bind_returned clock_now_def [of w1] Let_def)
  have "cl_window st2 = check_timeouts (cl_window st1) t (ms kDefaultRtoMs)" "wd_sent w3 = wd_sent w2"
    using s by (auto simp: sample_window_def io_bind_returned io_sum_returned split: if_splits)
  moreover have "wd_sent w2 = wd_sent w1" using clock_now_returned [OF c] by simp
  moreover have "wd_sent w1 = wd_sent w" by (rule sent.keepsD [OF sent_client_drain drain])
  ultimately show ?thesis using rest sel that by simp
qed

text \<open>C9: The client sends again.  Let the loop of the client stand at any point it can reach, \<open>n\<close> chunks
  having been sent.  Suppose that, after the datagrams waiting for it have been read and their
  acknowledgements applied, a chunk is still unacknowledged and every packet in flight is overdue at
  the first reading of the clock.  If the system lets the round finish, it sends exactly one datagram,
  to the server: a DATA packet with the bytes of a chunk of the file that has not been acknowledged.
  When anything is in flight this is a repetition, with the retransmission flag, of a chunk in flight;
  otherwise it is the next new chunk.\<close>

theorem client_round_retries:
  assumes "config_ok contents cfg" and "client_at cfg n st"
    and "client_drain cfg st w = (Returned st1, w1)" and "\<not> all_acked (cl_window st1)" and "wd_clock w1 = t # ts"
    and "\<And>i. i < unat n \<Longrightarrow> cs_state (sw_chunks (cl_window st1) ! i) = IN_FLIGHT \<Longrightarrow>
      ms kDefaultRtoMs \<le> t - cs_last_sent_time (sw_chunks (cl_window st1) ! i)"
    and "client_round cfg st w = (Returned st', w')"
  shows "\<exists>s again. s < cc_total_chunks cfg \<and> unat s \<notin> acked_set (cl_window st1) \<and>
    wd_sent w' = wd_sent w @
      [scheduled (cc_server cfg) contents (request_of cfg) (cc_session_id cfg) (s, again)] \<and>
    again = (\<exists>i < unat n. cs_state (sw_chunks (cl_window st1) ! i) = IN_FLIGHT) \<and>
    (if again then s < n \<and> cs_state (chunk_at (cl_window st1) s) = IN_FLIGHT else s = n)"
proof -
  let ?w = "check_timeouts (cl_window st1) t (ms kDefaultRtoMs)"
  have "client_at cfg n st1"
    using doesD(3) [OF does_client_drain [OF assms(2), where P = "\<lambda>_. True"] assms(3) subset_refl] by simp
  then have at: "window_at cfg n (cl_window st1)" and l: "launched (cl_window st1)"
    by (auto simp: client_at_def window_at_def)
  note I = window_at_inv [OF at]
  have due: "ms kDefaultRtoMs \<le> t - cs_last_sent_time (sw_chunks (cl_window st1) ! i)"
    if "i < unat (sw_next_sequence (cl_window st1))" "cs_state (sw_chunks (cl_window st1) ! i) = IN_FLIGHT" for i
    using assms(6) [of i] that I(3) by simp
  have "cs_state (sw_chunks (cl_window st1) ! i) = ACKED \<or> (cs_state (sw_chunks (cl_window st1) ! i) = IN_FLIGHT \<and>
      ms kDefaultRtoMs \<le> t - cs_last_sent_time (sw_chunks (cl_window st1) ! i))"
    if "i < unat (sw_next_sequence (cl_window st1))" for i
    using that due [OF that] l
    by (cases "cs_state (sw_chunks (cl_window st1) ! i)") (auto simp: launched_def)
  from select_after_timeouts [OF I(1) assms(4) this] obtain d window
    where sel: "select_next_packet ?w = (Some d, window)" by blast
  obtain st2 w2 where send: "client_send cfg d (st2\<lparr>cl_window := window\<rparr>) w2 = (Returned st', w')"
    and w2: "wd_sent w2 = wd_sent w"
    by (rule client_round_after_drain [OF assms(3,5,7) sel])
  have at': "window_at cfg n ?w" by (rule window_at_steps(2) [OF at])
  have sel': "select_next_packet ?w = (Some d, cl_window (st2\<lparr>cl_window := window\<rparr>))" using sel by simp
  from tracesD [OF traces_client_send_one [OF assms(1) sel' at'] send] w2
  have "wd_sent w' = wd_sent w @ [scheduled (cc_server cfg) contents (request_of cfg) (cc_session_id cfg)
      (sequence d, retransmission d)]" by auto
  moreover have "sequence d < cc_total_chunks cfg" by (rule chosen_sequence(1) [OF sel at'])
  moreover have "unat (sequence d) \<notin> acked_set (cl_window st1)"
  proof -
    have "acked_set window = acked_set (cl_window st1)"
      using select_inv(2) [OF window_at_inv(1) [OF at'] sel] check_timeouts_inv(3) [OF I(1)] by simp
    moreover have "cs_state (chunk_at window (sequence d)) \<noteq> ACKED"
      by (rule select_sequence_facts(2) [OF window_at_inv(1) [OF at'] sel])
    ultimately show ?thesis by (auto simp: acked_set_def chunk_at_def)
  qed
  moreover note choice_after_timeouts [OF I(1) sel due, unfolded I(3)]
  ultimately show ?thesis by (intro exI [of _ "sequence d"] exI [of _ "retransmission d"]) simp
qed

text \<open>The client of the example a second after its packet was sent, without an answer.\<close>

definition w_again :: sender_window where
  "w_again = w_sent\<lparr>sw_chunks := [chosen_chunk (fresh_chunk\<lparr>cs_state := IN_FLIGHT\<rparr>)]\<rparr>"

definition second_packet :: send_decision where
  "second_packet = \<lparr>sequence = 0, retransmission = True, fast_retransmission = False\<rparr>"

definition example_overdue :: client_state where
  "example_overdue = (count_sent first_packet (init_client_state w_sent example_pacer 1000000000))\<lparr>cl_sent_first_data := True\<rparr>"

lemma overdue_steps:
  "select_next_packet (check_timeouts w_sent 1000000000 500000000) = (Some second_packet, w_again)"
  "mark_sent w_again 0 1000000000 = Inr (w_again\<lparr>sw_chunks :=
     [(chosen_chunk (fresh_chunk\<lparr>cs_state := IN_FLIGHT\<rparr>))\<lparr>cs_last_sent_time := 1000000000\<rparr>]\<rparr>)"
  by code_simp+

lemma overdue_state:
  "cl_window example_overdue = w_sent" "cl_pacer example_overdue = example_pacer"
  "cl_sent_first_data example_overdue" "cl_next_window_sample example_overdue = 1100000000"
  by (simp_all add: example_overdue_def count_sent_def first_packet_def init_client_state_def
      kWindowSampleInterval_def ms_def)

lemma overdue_round:
  assumes "wd_recvs w = Recv_would_block # Recv_would_block # rs"
    and "wd_clock w = 1000000000 # 1000000000 # 1000000000 # 1000000000 # 1000000000 # 1000000000 # 1000000000 # ts" and "wd_sends w = Sent 25 # ss"
  shows "\<exists>st'. client_round example_config example_overdue w = (Returned st', w\<lparr>wd_recvs := rs, wd_clock := ts,
    wd_sends := ss, wd_sent := wd_sent w @ [scheduled example_server [42] (request_of example_config) 77 (0, True)]\<rparr>)"
proof -
  have cfg: "config_ok [42] example_config" by (simp add: config_ok_def chunk_count_def)
  let ?d = "data_datagram [42] (request_of example_config) 77 FLAG_RETRANSMITTED 0"
  have len: "length ?d = 25"
    by (simp add: data_datagram_def Let_def request_of_def start_request_def chunk_bytes_def chunk_offset_def)
  have send: "send_data_packet example_server (data_header example_config second_packet)
      (data_from example_config 0) (chunk_length 1 1448 0) v =
      (Returned (), v\<lparr>wd_sends := ss, wd_sent := wd_sent v @ [(example_server, ?d)]\<rparr>)"
    if "wd_sends v = Sent 25 # ss" for v ss
    using send_data_datagram [OF cfg, of second_packet] send_loop_ok [of v ?d ss] that len
    by (simp add: second_packet_def)
  have pace: "pacer_wait example_pacer (kIpv4UdpOverhead + kHeaderSize + 1) v =
      (Returned (example_pacer\<lparr>tokens_bytes := 8962, last_refill_time := 1000000000\<rparr>), v\<lparr>wd_clock := ts\<rparr>)"
    if "wd_clock v = 1000000000 # ts" for v ts
    using that by (simp add: pacer_wait_def io_bind_def clock_now_def io_return_def Let_def refill_def example_pacer_def
        kBurstCapacityBytes_def kBitsPerByte_def kNanosecondsPerSecond_def pacer_wait_loop.simps
        kIpv4UdpOverhead_def kHeaderSize_def)
  have one: "chunk_length 1 1448 0 = 1" by (simp add: chunk_length_def chunk_offset_def)
  have fields: "sequence second_packet = 0" "retransmission second_packet" "\<not> fast_retransmission second_packet"
    by (simp_all add: second_packet_def)
  have rto: "ms kDefaultRtoMs = 500000000" by (simp add: ms_def kDefaultRtoMs_def)
  show ?thesis
    using assms
    by (simp add: client_round_def client_drain_def drain_nothing overdue_state overdue_steps sample_window_def
        rto client_send_def client_pace_def note_first_data_def clock_now_def io_bind_def io_return_def
        Let_def pace send [unfolded one] one fields io_sum_def count_sent_def scheduled_def
        del: One_nat_def)
qed

lemma overdue_at: "client_at example_config 1 example_overdue"
proof -
  have "window_on example_config 1 w_sent"
    using w_reachable
    by (auto simp: window_on_def w_sent_def w_selected_def w_fresh_def acceptance_def example_session_start_def
        kDefaultAckBitmapBits_def min_def)
  then show ?thesis
    by (auto simp: client_at_def window_at_def launched_def overdue_state)
      (simp_all add: w_sent_def w_selected_def w_fresh_def counted_def example_overdue_def count_sent_def
        first_packet_def init_client_state_def no_diagnostics_def)
qed

theorem client_round_retries_witness:
  "\<exists>w st' w'. client_round example_config example_overdue w = (Returned st', w') \<and>
     (\<exists>s. wd_sent w' = wd_sent w @ [scheduled example_server [42] (request_of example_config) 77 (s, True)])"
proof -
  let ?w = "idle_world\<lparr>wd_recvs := [Recv_would_block, Recv_would_block], wd_clock := 1000000000 # 1000000000 #
    1000000000 # 1000000000 # 1000000000 # 1000000000 # 1000000000 # [], wd_sends := [Sent 25]\<rparr>"
  let ?w1 = "?w\<lparr>wd_recvs := [Recv_would_block]\<rparr>"
  obtain st' w' where run: "client_round example_config example_overdue ?w = (Returned st', w')"
    using overdue_round [of ?w "[]" "[]" "[]"] by auto
  have cfg: "config_ok [42] example_config" by (simp add: config_ok_def chunk_count_def)
  have drain: "client_drain example_config example_overdue ?w = (Returned example_overdue, ?w1)"
    using drain_nothing [of ?w "[Recv_would_block]" example_server 77 w_sent]
    by (simp add: client_drain_def io_bind_def io_return_def overdue_state)
  have todo: "\<not> all_acked (cl_window example_overdue)"
    by (simp add: overdue_state all_acked_def w_sent_def w_selected_def w_fresh_def)
  have due: "ms kDefaultRtoMs \<le> 1000000000 - cs_last_sent_time (sw_chunks (cl_window example_overdue) ! i)"
    if "i < unat (1 :: u32)" for i
    using that by (simp add: overdue_state w_sent_def fresh_chunk_def ms_def kDefaultRtoMs_def)
  have flying: "\<exists>i < unat (1 :: u32). cs_state (sw_chunks (cl_window example_overdue) ! i) = IN_FLIGHT"
    by (rule exI [of _ 0]) (simp add: overdue_state w_sent_def)
  have "\<exists>s again. s < cc_total_chunks example_config \<and> unat s \<notin> acked_set (cl_window example_overdue) \<and>
      wd_sent w' = wd_sent ?w @
        [scheduled (cc_server example_config) [42] (request_of example_config) (cc_session_id example_config) (s, again)] \<and>
      again = (\<exists>i < unat (1 :: u32). cs_state (sw_chunks (cl_window example_overdue) ! i) = IN_FLIGHT) \<and>
      (if again then s < 1 \<and> cs_state (chunk_at (cl_window example_overdue) s) = IN_FLIGHT else s = 1)"
    by (rule client_round_retries [OF cfg overdue_at drain todo _ due run]) simp_all
  with flying have "\<exists>s. wd_sent w' = wd_sent ?w @ [scheduled example_server [42] (request_of example_config) 77 (s, True)]"
    by auto
  with run show ?thesis by blast
qed

section \<open>The server\<close>

text \<open>C8: The server does not wait for ever.  If every chunk of the file arrives from the client in a DATA
  packet of the session and after them its COMPLETE, with anything else before, between and after
  them, then the main loop does not wait for another datagram: it completes, with every chunk
  received and the output flushed; or a call of \<^verbatim>\<open>recvfrom\<close>, of \<^verbatim>\<open>sendto\<close> or the flush has failed and the
  loop throws the error of that call; or the system lets it wait for the clock or for a send.\<close>

theorem server_loop_ends:
  assumes "session_ok sess" and "rest_arrives sess {} (wd_recvs w)"
    and "serve_loop k f sess (init_server_state sess now) w = (r, w')"
  shows "(\<exists>st payload. r = Returned (st, payload) \<and> complete (sv_tracker st) \<and>
      wd_flushed w' = wd_flushed w @ [sv_output st]) \<or>
    (\<exists>e. r = Thrown e \<and> system_failure k f e w w') \<or> (r = Blocked \<and> (wd_clock w' = [] \<or> wd_sends w' = []))"
proof (cases r)
  case (Returned x)
  obtain st payload where x: "x = (st, payload)" by fastforce
  from serve_loop_completes [OF assms(1) init_server_inv(1) [OF assms(1)]] assms(3) Returned x
  show ?thesis by simp
next
  case Blocked
  have "rest_arrives sess (received_set (sv_tracker (init_server_state sess now))) (wd_recvs w)"
    using assms(2) rt.rset_mk by (simp add: init_server_state_def)
  from serve_loop_ends [OF assms(1) init_server_inv(1) [OF assms(1)] this] assms(3) Blocked
  show ?thesis by simp
next
  case (Thrown e)
  from serve_loop_faults [OF assms(1) init_server_inv(1) [OF assms(1)]] assms(3) Thrown
  show ?thesis by simp
qed

theorem server_loop_ends_witness:
  "\<exists>w w' st payload. serve_loop example_kernel example_output example_session (init_server_state example_session 1) w =
     (Returned (st, payload), w') \<and> wd_flushed w' = [sv_output st]"
proof -
  obtain sends w' payload where run: "serve_loop example_kernel example_output example_session (init_server_state example_session 1)
     (idle_world\<lparr>wd_recvs := [Datagram example_client (example_datagram DATA 0 [42]),
        Datagram example_client (example_datagram COMPLETE 1 [])], wd_clock := [4, 5], wd_sends := sends\<rparr>) =
     (Returned (example_done 42, payload), w')"
    using example_run [of 42] by blast
  have "brings example_session 0 (example_view DATA 0 [42])" "finishes example_session (example_view COMPLETE 1 [])"
    by (simp_all add: brings_def finishes_def acceptable_def)
  moreover have "s = 0" if "s < (1 :: u32)" for s using that by (simp add: word_less_nat_alt unat_eq_0)
  ultimately have "rest_arrives example_session {}
      [Datagram example_client (example_datagram DATA 0 [42]), Datagram example_client (example_datagram COMPLETE 1 [])]"
    unfolding rest_arrives_def using example_parses [of "[42]" DATA 0] example_parses [of "[]" COMPLETE 1]
    by (intro exI [of _ "[Datagram example_client (example_datagram DATA 0 [42])]"]
        exI [of _ "example_datagram COMPLETE 1 []"] exI [of _ "example_view COMPLETE 1 []"] exI [of _ "[]"]) force
  from server_loop_ends [OF example_session_ok _ run] this run show ?thesis
    by (auto simp: idle_world_def)
qed

end
