(* ===== verification/Io_Runs.thy ===== *)
theory Io_Runs
  imports Io_Rules
begin

text \<open>
  Runs that exist: a judgement that says that a step, given certain arrivals and a system that answers
  in a suitable way, returns.  It is the counterpart of the judgements \<open>does\<close> and \<open>traces\<close>, which say
  what is true of every run.
\<close>

section \<open>A step with scripts that let it return\<close>

definition feed ::
    "recv_result list \<Rightarrow> poll_result list \<Rightarrow> send_result list \<Rightarrow> time_ns list \<Rightarrow> world \<Rightarrow> world" where
  "feed rs ps ss ts w = w\<lparr>wd_recvs := rs @ wd_recvs w, wd_polls := ps @ wd_polls w,
     wd_sends := ss @ wd_sends w, wd_clock := ts @ wd_clock w\<rparr>"

lemma feed_feed: "feed rs ps ss ts (feed rs' ps' ss' ts' w) = feed (rs @ rs') (ps @ ps') (ss @ ss') (ts @ ts') w"
  by (simp add: feed_def)

text \<open>The scripts of two worlds are the same.\<close>

definition same_scripts :: "world \<Rightarrow> world \<Rightarrow> bool" where
  "same_scripts w w' \<longleftrightarrow> wd_recvs w' = wd_recvs w \<and> wd_polls w' = wd_polls w \<and>
     wd_sends w' = wd_sends w \<and> wd_clock w' = wd_clock w"

lemma same_scripts_refl [simp]: "same_scripts w w"
  by (simp add: same_scripts_def)

lemma same_scripts_fed:
  assumes "same_scripts (feed rs ps ss ts w) w'"
  obtains v where "w' = feed rs ps ss ts v" "same_scripts w v" "wd_sent v = wd_sent w'"
proof
  let ?v = "w'\<lparr>wd_recvs := wd_recvs w, wd_polls := wd_polls w, wd_sends := wd_sends w, wd_clock := wd_clock w\<rparr>"
  show "w' = feed rs ps ss ts ?v" using assms by (simp add: feed_def same_scripts_def)
qed (simp_all add: same_scripts_def)

text \<open>
  At time \<open>t\<close>, with the arrivals \<open>rs\<close> and suitable answers to its other system calls, the clock never
  going back, the step uses all of them up and returns; what it returns, what it sends and the time
  then are related by \<open>Q\<close>.
\<close>

definition plays ::
    "time_ns \<Rightarrow> 'a io \<Rightarrow> recv_result list \<Rightarrow> ('a \<Rightarrow> (endpoint \<times> bytes) list \<Rightarrow> time_ns \<Rightarrow> bool) \<Rightarrow> bool" where
  "plays t m rs Q \<longleftrightarrow> (\<exists>ps ss ts a ds t'. sorted (t # ts @ [t']) \<and> Q a ds t' \<and>
     (\<forall>w. \<exists>w'. m (feed rs ps ss ts w) = (Returned a, w') \<and> same_scripts w w' \<and> wd_sent w' = wd_sent w @ ds))"

lemma playsI:
  assumes "sorted (t # ts @ [t'])" and "Q a ds t'"
    and "\<And>w. \<exists>w'. m (feed rs ps ss ts w) = (Returned a, w') \<and> same_scripts w w' \<and> wd_sent w' = wd_sent w @ ds"
  shows "plays t m rs Q"
  unfolding plays_def using assms by blast

lemma playsE:
  assumes "plays t m rs Q"
  obtains ps ss ts a ds t' where "sorted (t # ts @ [t'])" "Q a ds t'"
    "\<And>w. \<exists>w'. m (feed rs ps ss ts w) = (Returned a, w') \<and> same_scripts w w' \<and> wd_sent w' = wd_sent w @ ds"
  using assms unfolding plays_def by blast

lemma plays_mono: "plays t m rs Q \<Longrightarrow> (\<And>a ds t'. t \<le> t' \<Longrightarrow> Q a ds t' \<Longrightarrow> Q' a ds t') \<Longrightarrow> plays t m rs Q'"
  by (erule playsE, rule playsI) auto

lemma plays_return: "Q a [] t \<Longrightarrow> plays t (io_return a) [] Q"
  by (rule playsI [where ts = "[]" and ps = "[]" and ss = "[]"]) (auto simp: feed_def io_return_def)

lemma plays_bind:
  assumes m: "plays t m rs S"
    and f: "\<And>a xs t'. t \<le> t' \<Longrightarrow> S a xs t' \<Longrightarrow> plays t' (f a) rs' (\<lambda>b ys. Q b (xs @ ys))"
  shows "plays t (io_bind m f) (rs @ rs') Q"
proof -
  obtain ps ss ts a xs t1 where 1: "sorted (t # ts @ [t1])" "S a xs t1"
    "\<And>w. \<exists>w'. m (feed rs ps ss ts w) = (Returned a, w') \<and> same_scripts w w' \<and> wd_sent w' = wd_sent w @ xs"
    using m by (elim playsE) blast
  have "plays t1 (f a) rs' (\<lambda>b ys. Q b (xs @ ys))" using f 1(1,2) by simp
  then obtain ps' ss' ts' b ys t2 where 2: "sorted (t1 # ts' @ [t2])" "Q b (xs @ ys) t2"
    "\<And>w. \<exists>w'. f a (feed rs' ps' ss' ts' w) = (Returned b, w') \<and> same_scripts w w' \<and> wd_sent w' = wd_sent w @ ys"
    by (elim playsE) blast
  show ?thesis
  proof (rule playsI [where a = b and ds = "xs @ ys" and ps = "ps @ ps'" and ss = "ss @ ss'" and ts = "ts @ ts'" and t' = t2])
    show "sorted (t # (ts @ ts') @ [t2])" using 1(1) 2(1) by (fastforce simp: sorted_append)
    show "Q b (xs @ ys) t2" by (rule 2(2))
  next
    fix w
    obtain w1 where w1: "m (feed rs ps ss ts (feed rs' ps' ss' ts' w)) = (Returned a, w1)"
      "same_scripts (feed rs' ps' ss' ts' w) w1" "wd_sent w1 = wd_sent (feed rs' ps' ss' ts' w) @ xs"
      using 1(3) by blast
    from same_scripts_fed [OF w1(2)] obtain v where v: "w1 = feed rs' ps' ss' ts' v" "same_scripts w v" "wd_sent v = wd_sent w1" .
    obtain w2 where w2: "f a (feed rs' ps' ss' ts' v) = (Returned b, w2)" "same_scripts v w2" "wd_sent w2 = wd_sent v @ ys"
      using 2(3) by blast
    have "io_bind m f (feed (rs @ rs') (ps @ ps') (ss @ ss') (ts @ ts') w) = (Returned b, w2)"
      using w1(1) w2(1) v(1) by (simp add: io_bind_def feed_feed)
    then show "\<exists>w'. io_bind m f (feed (rs @ rs') (ps @ ps') (ss @ ss') (ts @ ts') w) = (Returned b, w') \<and>
        same_scripts w w' \<and> wd_sent w' = wd_sent w @ xs @ ys"
      using v w1(3) w2(2,3) by (auto simp: same_scripts_def feed_def)
  qed
qed

text \<open>What is known of every value the step returns can be added.\<close>

lemma plays_value:
  assumes "plays t m rs Q" and "\<And>w a w'. m w = (Returned a, w') \<Longrightarrow> R a"
  shows "plays t m rs (\<lambda>a ds t'. Q a ds t' \<and> R a)"
  using assms(1)
proof (rule playsE)
  fix ps ss ts a ds t'
  assume 1: "sorted (t # ts @ [t'])" "Q a ds t'" "\<And>w. \<exists>w'. m (feed rs ps ss ts w) = (Returned a, w') \<and>
      same_scripts w w' \<and> wd_sent w' = wd_sent w @ ds"
  have "R a" using 1(3) assms(2) by blast
  with 1 show ?thesis by (intro playsI [where a = a and ds = ds and ps = ps and ss = ss and ts = ts and t' = t']) auto
qed

text \<open>When the first step receives nothing, or all that is received.\<close>

lemmas plays_bind_then = plays_bind [where rs = "[]", simplified]

lemmas plays_bind_last = plays_bind [where rs' = "[]", simplified]

lemma io_bind_return_right: "io_bind m io_return = m"
  by (auto simp: fun_eq_iff io_bind_def io_return_def split: prod.splits outcome.splits)

lemma io_bind_assoc: "io_bind (io_bind m f) g = io_bind m (\<lambda>a. io_bind (f a) g)"
  by (auto simp: fun_eq_iff io_bind_def split: prod.splits outcome.splits)

section \<open>System calls\<close>

text \<open>A step that only touches the logs.\<close>

lemma plays_log:
  assumes "\<And>w. \<exists>w'. m w = (Returned a, w') \<and> same_scripts w w' \<and> wd_sent w' = wd_sent w" and "Q a [] t"
  shows "plays t m [] Q"
  by (rule playsI [where ts = "[]" and ps = "[]" and ss = "[]" and ds = "[]" and t' = t])
    (use assms in \<open>simp_all add: feed_def\<close>)

lemma plays_logs:
  "Q () [] t \<Longrightarrow> plays t (log_files calls) [] Q" "Q () [] t \<Longrightarrow> plays t (log_flushed d) [] Q"
  "Q () [] t \<Longrightarrow> plays t (close_socket fd) [] Q" "Q () [] t \<Longrightarrow> plays t (print_lines stream ls) [] Q"
  by (rule plays_log; auto simp: syscall_defs same_scripts_def)+

lemma plays_sum: "r = Inr a \<Longrightarrow> Q a [] t \<Longrightarrow> plays t (io_sum r) [] Q"
  by (simp add: io_sum_def plays_return)

text \<open>The clock may show any time that is not earlier.\<close>

lemma plays_clock: "t \<le> t' \<Longrightarrow> Q t' [] t' \<Longrightarrow> plays t clock_now [] Q"
  by (rule playsI [where ts = "[t']" and ps = "[]" and ss = "[]"])
    (auto simp: feed_def clock_now_def same_scripts_def)

text \<open>The next reading is \<open>t'\<close>.\<close>

lemma plays_clock_bind: "t \<le> t' \<Longrightarrow> plays t' (f t') rs Q \<Longrightarrow> plays t (io_bind clock_now f) rs Q"
  by (rule plays_bind_then [OF plays_clock [where Q = "\<lambda>a xs t1. a = t' \<and> t1 = t' \<and> xs = []"]]) auto

lemma plays_recv:
  assumes "Q (case r of Datagram src bs \<Rightarrow> Datagram src (take n bs) | _ \<Rightarrow> r) [] t"
  shows "plays t (recvfrom n) [r] Q"
  by (rule playsI [where ts = "[]" and ps = "[]" and ss = "[]" and t' = t])
    (use assms in \<open>auto simp: feed_def recvfrom_def same_scripts_def\<close>)

lemma plays_poll: "Q r [] t \<Longrightarrow> plays t (poll_socket timeout) [] Q"
  by (rule playsI [where ts = "[]" and ps = "[r]" and ss = "[]"])
    (auto simp: feed_def poll_socket_def same_scripts_def)

lemma plays_send_loop: "Q () [(dest, d)] t \<Longrightarrow> plays t (send_loop what dest d) [] Q"
  by (rule playsI [where ts = "[]" and ps = "[]" and ss = "[Sent (length d)]"])
    (auto simp: feed_def send_loop.simps sendto_def same_scripts_def)

lemma plays_send_packet:
  "serialize_packet h p n = Inr d \<Longrightarrow> Q () [(dest, d)] t \<Longrightarrow> plays t (send_packet dest h p n) [] Q"
  by (simp add: send_packet_def io_sum_def plays_send_loop)

text \<open>The same as first steps.\<close>

lemma plays_silent_bind:
  assumes "plays t m rs (\<lambda>a ds t'. a = b \<and> ds = [] \<and> t' = t)" and "plays t (f b) rs' Q"
  shows "plays t (io_bind m f) (rs @ rs') Q"
  by (rule plays_bind [OF assms(1)]) (use assms(2) in auto)

lemma plays_logs_bind:
  "plays t (f ()) rs Q \<Longrightarrow> plays t (io_bind (log_files calls) f) rs Q"
  "plays t (f ()) rs Q \<Longrightarrow> plays t (io_bind (log_flushed d) f) rs Q"
  "plays t (f ()) rs Q \<Longrightarrow> plays t (io_bind (close_socket fd) f) rs Q"
  "plays t (f ()) rs Q \<Longrightarrow> plays t (io_bind (print_lines stream ls) f) rs Q"
  by (rule plays_silent_bind [where rs = "[]", simplified]; simp add: plays_logs)+

lemma io_bind_sum [simp]: "io_bind (io_sum (Inr a)) f = f a"
  by (simp add: io_sum_def)

lemma plays_poll_bind: "plays t (f r) rs Q \<Longrightarrow> plays t (io_bind (poll_socket timeout) f) rs Q"
  by (rule plays_silent_bind [where rs = "[]", simplified]; simp add: plays_poll)

lemma plays_recv_bind:
  "plays t (f (case r of Datagram src bs \<Rightarrow> Datagram src (take n bs) | _ \<Rightarrow> r)) rs Q \<Longrightarrow>
     plays t (io_bind (recvfrom n) f) (r # rs) Q"
  by (rule plays_silent_bind [where rs = "[r]", simplified]; simp add: plays_recv)

lemma plays_send_loop_bind:
  assumes "plays t (f ()) rs (\<lambda>b ys. Q b ((dest, d) # ys))"
  shows "plays t (io_bind (send_loop what dest d) f) rs Q"
  by (rule plays_bind_then [OF plays_send_loop [where Q = "\<lambda>_ ds t'. ds = [(dest, d)] \<and> t' = t"]]) (use assms in auto)

lemma plays_send_bind:
  "serialize_packet h p n = Inr d \<Longrightarrow> plays t (f ()) rs (\<lambda>b ys. Q b ((dest, d) # ys)) \<Longrightarrow>
     plays t (io_bind (send_packet dest h p n) f) rs Q"
  by (simp add: send_packet_def plays_send_loop_bind)

text \<open>A step that returns the same whenever the first one returns.\<close>

lemma plays_transfer:
  assumes "plays t m rs Q" and "\<And>w a w'. m w = (Returned a, w') \<Longrightarrow> m' w = (Returned a, w')"
  shows "plays t m' rs Q"
  using assms(1)
proof (rule playsE)
  fix ps ss ts a ds t'
  assume 1: "sorted (t # ts @ [t'])" "Q a ds t'" "\<And>w. \<exists>w'. m (feed rs ps ss ts w) = (Returned a, w') \<and>
      same_scripts w w' \<and> wd_sent w' = wd_sent w @ ds"
  show ?thesis
    by (rule playsI [where a = a and ds = ds and ps = ps and ss = ss and ts = ts and t' = t'])
      (use 1 assms(2) in blast)+
qed

lemma plays_on_throw: "plays t m rs Q \<Longrightarrow> plays t (io_on_throw m h) rs Q"
  by (erule plays_transfer) (simp add: io_on_throw_def)

lemma plays_finally:
  "plays t (io_bind m (\<lambda>a. io_bind c (\<lambda>_. io_return a))) rs Q \<Longrightarrow> plays t (io_finally m c) rs Q"
  by (erule plays_transfer)
    (auto simp: io_finally_def io_bind_returned io_bind_def [of m] split: prod.splits outcome.splits)

end
