(* ===== verification/Lossless_Server.thy ===== *)
theory Lossless_Server
  imports Io_Runs Ack_Exchange Client_Invariant Server_Progress Server_Properties
begin

unbundle bit_operations_syntax

text \<open>
  The server of a transfer in which nothing is lost: it receives the START, every chunk once and in
  order, and the COMPLETE, and returns.  Its answers are described as the client will read them: a
  START_ACK, an ACK after every second chunk, when the interval has passed, and after the last one,
  and the COMPLETE_ACK.
\<close>

section \<open>The server's datagrams as the client reads them\<close>

text \<open>A datagram of the server that the client waits for, with its contents.\<close>

definition reads_as :: "bytes \<Rightarrow> u32 \<Rightarrow> packet_type \<Rightarrow> packet_view \<Rightarrow> bool" where
  "reads_as d sid t v \<longleftrightarrow> parses_to d v \<and> length d \<le> kReceiveBufferBytes \<and>
     session_id (view_header v) = sid \<and> ptype (view_header v) = t"

lemma reads_as_expected: "reads_as d sid t v \<Longrightarrow> expected_view server t sid server d = Some v"
  by (auto simp: reads_as_def expected_view_def parses_to_def same_endpoint_eq min_def)

lemma datagram_reads:
  assumes "sendable_header h" and "length bs + 24 \<le> kReceiveBufferBytes"
  shows "reads_as (header_bytes h (length bs) @ bs) (session_id h) (ptype h)
    \<lparr>view_header = sent_header h (length bs), view_payload = Some bs, view_payload_size = length bs\<rparr>"
  using parses_header [OF assms] assms(2) by (simp add: reads_as_def sent_header_def)

lemma control_reads:
  assumes "length bs + 24 \<le> kReceiveBufferBytes"
  shows "reads_as (header_bytes (make_header t sid m) (length bs) @ bs) sid t
    \<lparr>view_header = sent_header (make_header t sid m) (length bs), view_payload = Some bs, view_payload_size = length bs\<rparr>"
proof -
  have "session_id (make_header t sid m) = sid" "ptype (make_header t sid m) = t" by (simp_all add: make_header_def)
  with datagram_reads [OF sendable_make_header assms, of t sid m] show ?thesis by simp
qed

text \<open>The ACK for the first \<open>i\<close> of \<open>n\<close> chunks.\<close>

definition acks_first :: "u32 \<Rightarrow> nat \<Rightarrow> nat \<Rightarrow> bytes \<Rightarrow> bool" where
  "acks_first sid n i d \<longleftrightarrow> (\<exists>v. reads_as d sid ACK v \<and> flags (view_header v) AND FLAG_SACK \<noteq> 0 \<and>
     deserialize_ack (view_payload v) (view_payload_size v) =
       Some (make_ack_snapshot (tracker_of n {..<i}) kDefaultAckBitmapBits))"

lemma tracker_first:
  assumes "tracker_inv tr" and "received_set tr = {..<i}"
  shows "tr = tracker_of (length (rt_received tr)) {..<i}"
  using assms by (metis tracker_inv_def)

lemma plays_send_ack:
  assumes inv: "tracker_inv tr" and R: "received_set tr = {..<i}"
    and Q: "\<And>d. acks_first sid (length (rt_received tr)) i d \<Longrightarrow> Q () [(dest, d)] t"
  shows "plays t (send_ack dest sid k tr kDefaultAckBitmapBits) [] Q"
proof -
  let ?ack = "make_ack_snapshot tr kDefaultAckBitmapBits"
  let ?h = "(make_header ACK sid k)\<lparr>flags := FLAG_SACK\<rparr>"
  obtain bs where bs: "serialize_ack ?ack = Inr bs" "deserialize_ack (Some bs) (length bs) = Some ?ack"
    using snapshot_wire [OF inv] by blast
  have "bitmap_bytes kDefaultAckBitmapBits = 1024" by (simp add: bitmap_bytes_def kDefaultAckBitmapBits_def)
  then have len: "length bs \<le> 60000"
    using bs(1) snapshot_bitmap(1) [OF inv, of kDefaultAckBitmapBits] by (auto simp: serialize_ack_layout split: if_splits)
  have s: "sendable_header ?h"
    using sendable_make_header [of ACK sid k] by (simp add: sendable_header_def FLAG_SACK_def FLAG_CRC32C_def)
  let ?d = "header_bytes ?h (length bs) @ bs"
  let ?v = "\<lparr>view_header = sent_header ?h (length bs), view_payload = Some bs, view_payload_size = length bs\<rparr>"
  have "reads_as ?d sid ACK ?v"
    using datagram_reads [OF s, of bs] len by (simp add: kReceiveBufferBytes_def make_header_def)
  moreover have "flags (view_header ?v) AND FLAG_SACK \<noteq> 0" by (simp add: sent_header_def FLAG_SACK_def)
  ultimately have "acks_first sid (length (rt_received tr)) i ?d"
    unfolding acks_first_def using bs(2) tracker_first [OF inv R] by (intro exI [of _ ?v]) simp
  then show ?thesis
    unfolding send_ack_def using len
    by (intro plays_bind_then [OF plays_sum [OF bs(1), where Q = "\<lambda>b xs t'. b = bs \<and> xs = [] \<and> t' = t"]])
      (auto simp: serialize_packet_layout intro!: plays_send_packet Q)
qed

section \<open>The server's loop\<close>

text \<open>
  The server acknowledges every second chunk, when its interval has passed, and the last one.
\<close>

definition due :: "nat \<Rightarrow> nat \<Rightarrow> bool" where
  "due n i \<longleftrightarrow> odd i \<or> Suc i = n"

definition chunk_reply :: "u32 \<Rightarrow> nat \<Rightarrow> nat \<Rightarrow> bytes list \<Rightarrow> bool" where
  "chunk_reply sid n i ds \<longleftrightarrow> (if due n i then \<exists>d. ds = [d] \<and> acks_first sid n (Suc i) d else ds = [])"

definition chunks_of :: "session \<Rightarrow> nat" where
  "chunks_of sess = unat (sp_total_chunks (ss_start sess))"

definition server_at :: "session \<Rightarrow> nat \<Rightarrow> server_state \<Rightarrow> bool" where
  "server_at sess i st \<longleftrightarrow> server_inv sess st \<and> received_set (sv_tracker st) = {..<i} \<and>
     (i < chunks_of sess \<longrightarrow> sv_ack_pending st = odd i \<and> sv_packets_since_ack st = of_bool (odd i))"

text \<open>A DATA packet that brings chunk \<open>i\<close> for the first time.\<close>

definition first_copy :: "session \<Rightarrow> nat \<Rightarrow> packet_view \<Rightarrow> bool" where
  "first_copy sess i packet \<longleftrightarrow> brings sess (of_nat i) packet \<and> flags (view_header packet) = 0 \<and> view_ok packet"

lemma ack_interval_pos: "0 < ack_interval sess"
proof -
  have "(1 :: u16) \<le> max 1 x" for x by simp
  then have "1 \<le> uint (max 1 x :: u16)" for x by (metis uint_1 word_le_def)
  then have "0 < uint (max 1 x :: u16)" for x by (metis int_one_le_iff_zero_less)
  then show ?thesis by (simp add: ack_interval_def ms_def)
qed

lemma plays_handle_data:
  assumes ok: "session_ok sess" and at: "server_at sess i st" and i: "i < chunks_of sess"
    and p: "first_copy sess i packet"
  shows "plays t (handle_data sess packet st) [] (\<lambda>st' ds t'. server_at sess (Suc i) st' \<and>
    (\<exists>r. ds = map (Pair (ss_client sess)) r \<and> chunk_reply (ss_session_id sess) (chunks_of sess) i r))"
proof -
  let ?n = "sp_total_chunks (ss_start sess)"
  have inv: "server_inv sess st" and R: "received_set (sv_tracker st) = {..<i}"
    and pend: "sv_ack_pending st = odd i" "sv_packets_since_ack st = of_bool (odd i)"
    using at i by (auto simp: server_at_def)
  have acc: "acceptable sess packet" and num: "number (view_header packet) = of_nat i"
    and fl: "flags (view_header packet) = 0" and view: "view_ok packet"
    using p by (auto simp: first_copy_def brings_def)
  have ui: "unat (of_nat i :: u32) = i" using i unat_of_nat_below [of i ?n] by (simp add: chunks_of_def)
  have T: "tracker_inv (sv_tracker st)" "length (rt_received (sv_tracker st)) = unat ?n"
    using inv by (simp_all add: server_inv_def)
  have fresh: "\<not> has_received (sv_tracker st) (of_nat i)" using rt.has_iff [OF T(1)] R ui by simp
  note A = after_arrival_inv [OF ok inv acc view, of t]
  define a where "a = after_arrival sess packet t st"
  define now where "now = (if odd i then max t (sv_next_ack_time st) else t)"
  define st3 where "st3 = start_ack_timer sess now (a\<lparr>sv_packets_since_ack := sv_packets_since_ack a + 1\<rparr>)"
  define st' where "st' = (if due (chunks_of sess) i
    then st3\<lparr>sv_ack_number := sv_ack_number st3 + 1, sv_ack_pending := False, sv_packets_since_ack := 0\<rparr> else st3)"
  note A = after_arrival_inv [OF ok inv acc view, of t, folded a_def]
  have a: "sv_ack_pending a = odd i" "sv_packets_since_ack a = of_bool (odd i)" "sv_next_ack_time a = sv_next_ack_time st"
    using pend by (simp_all add: a_def after_arrival_def store_chunk_def Let_def)
  have st3: "sv_tracker st3 = sv_tracker a" "sv_output st3 = sv_output a" "sv_ack_pending st3"
    "sv_packets_since_ack st3 = of_bool (odd i) + 1"
    "sv_next_ack_time st3 = (if odd i then sv_next_ack_time st else now + ack_interval sess)"
    using a by (simp_all add: st3_def start_ack_timer_def)
  have trk: "tracker_inv (sv_tracker st3)" "received_set (sv_tracker st3) = {..<Suc i}"
    "length (rt_received (sv_tracker st3)) = unat ?n"
    using A R num ui by (auto simp: st3 lessThan_Suc)
  have full: "complete (sv_tracker st3) \<longleftrightarrow> Suc i = chunks_of sess"
    using rt.full_iff [OF trk(1)] trk(2,3) i by (auto simp: chunks_of_def)
  have "now \<ge> sv_next_ack_time st3 \<longleftrightarrow> odd i"
    using ack_interval_pos [of sess] by (simp add: st3(5) now_def)
  then have send: "should_send_ack False packet now st3 \<longleftrightarrow> due (chunks_of sess) i"
    using full st3(4) by (auto simp: should_send_ack_def fl kAckPacketThreshold_def due_def word_le_nat_alt)
  have st': "sv_tracker st' = sv_tracker a" "sv_output st' = sv_output a"
    "sv_ack_pending st' \<longleftrightarrow> \<not> due (chunks_of sess) i"
    "sv_packets_since_ack st' = (if due (chunks_of sess) i then 0 else 1)"
    using st3 by (auto simp: st'_def due_def)
  have "server_inv sess st'"
    using A by (simp add: server_inv_def st' kAckPacketThreshold_def word_less_nat_alt)
  then have at': "server_at sess (Suc i) st'"
    using trk(2) by (auto simp: server_at_def st' st3(1) due_def)
  have store: "store_chunk sess (of_nat i) packet t st = a" using fresh by (simp add: a_def after_arrival_def num)
  have bits: "sa_accepted_bitmap_bits (ss_accepted sess) = kDefaultAckBitmapBits"
    using ok by (simp add: session_ok_def acceptance_def)
  let ?Q = "\<lambda>st' ds t'. server_at sess (Suc i) st' \<and>
    (\<exists>r. ds = map (Pair (ss_client sess)) r \<and> chunk_reply (ss_session_id sess) (chunks_of sess) i r)"
  have "plays now (if due (chunks_of sess) i
      then io_bind (send_state_ack sess st3) (\<lambda>_. io_return st') else io_return st') [] ?Q"
  proof (cases "due (chunks_of sess) i")
    case True
    have "plays now (send_state_ack sess st3) [] (\<lambda>_ ds _. \<exists>d. ds = [(ss_client sess, d)] \<and>
        acks_first (ss_session_id sess) (chunks_of sess) (Suc i) d)"
      unfolding send_state_ack_def bits
      by (rule plays_send_ack [OF trk(1,2)]) (simp add: trk(3) chunks_of_def)
    then show ?thesis
      using at' True by (auto simp: chunk_reply_def Cons_eq_map_conv intro!: plays_return elim!: plays_bind_then)
  next
    case False
    then show ?thesis using at' by (auto simp: chunk_reply_def intro!: plays_return)
  qed
  note answer = this
  have "t \<le> now" by (simp add: now_def)
  then have "plays t (ack_step sess packet False a) [] ?Q"
    unfolding ack_step_def Let_def
    by (rule plays_clock_bind, unfold st3_def [symmetric] send)
      (use answer in \<open>simp add: st'_def split: if_splits\<close>)
  then show ?thesis
    unfolding handle_data_accepted [OF acc] num
    by (simp add: fresh io_bind_assoc) (rule plays_clock_bind [OF order_refl], simp add: store)
qed

lemma plays_receive_packet: "parses_to bs v \<Longrightarrow> Q (src, v) [] t \<Longrightarrow> plays t receive_packet [Datagram src bs] Q"
  by (rule playsI [where ts = "[]" and ps = "[]" and ss = "[]" and t' = t])
    (auto simp: feed_def same_scripts_def receive_one)

lemma plays_first_copy:
  assumes ok: "session_ok sess" and at: "server_at sess i st" and i: "i < chunks_of sess"
    and p: "first_copy sess i packet"
  shows "plays t (handle_packet k f sess (ss_client sess) packet st) [] (\<lambda>sig ds t'.
    \<exists>st'. sig = Continue st' \<and> server_at sess (Suc i) st' \<and>
      (\<exists>r. ds = map (Pair (ss_client sess)) r \<and> chunk_reply (ss_session_id sess) (chunks_of sess) i r))"
proof -
  have "handle_packet k f sess (ss_client sess) packet st = io_bind (handle_data sess packet st) (\<lambda>st'. io_return (Continue st'))"
    using p by (simp add: handle_packet_def first_copy_def brings_def same_endpoint_eq)
  then show ?thesis
    by (simp, intro plays_bind_then [OF plays_handle_data [OF assms]] plays_return) auto
qed

text \<open>The COMPLETE_ACK of a complete transfer.\<close>

definition final_reply :: "session \<Rightarrow> bytes \<Rightarrow> bool" where
  "final_reply sess d \<longleftrightarrow> (\<exists>v c. reads_as d (ss_session_id sess) COMPLETE_ACK v \<and>
     deserialize_complete_ack (view_payload v) (view_payload_size v) = Some c \<and> ca_status c = OK \<and>
     ca_received_chunks c = sp_total_chunks (ss_start sess) \<and> ca_received_bytes c = sp_file_size (ss_start sess))"

lemma server_at_complete:
  assumes "server_at sess (chunks_of sess) st"
  shows "complete (sv_tracker st)" and "rt_cumulative_ack (sv_tracker st) = sp_total_chunks (ss_start sess)"
    and "rt_received_count (sv_tracker st) = sp_total_chunks (ss_start sess)"
proof -
  have T: "server_inv sess st" "received_set (sv_tracker st) = {..<unat (sp_total_chunks (ss_start sess))}"
    using assms by (simp_all add: server_at_def chunks_of_def)
  have all: "unat s \<in> received_set (sv_tracker st)" if "s < sp_total_chunks (ss_start sess)" for s
    using that T(2) by (simp add: word_less_nat_alt)
  show "complete (sv_tracker st)" "rt_cumulative_ack (sv_tracker st) = sp_total_chunks (ss_start sess)"
    using complete_when_all [OF T(1) all] by simp_all
  show "rt_received_count (sv_tracker st) = sp_total_chunks (ss_start sess)"
    using rt.unat_count [of "sv_tracker st"] T by (simp add: server_inv_def word_unat_eq_iff)
qed

lemma plays_finish:
  assumes at: "server_at sess (chunks_of sess) st" and p: "finishes sess packet"
    and sync: "fst (sync_output k f) = Inr ()"
  shows "plays t (handle_packet k f sess (ss_client sess) packet st) [] (\<lambda>sig ds t'.
    \<exists>payload d. sig = Completed st payload \<and> ds = [(ss_client sess, d)] \<and> final_reply sess d)"
proof -
  let ?p = "serialize_complete_ack (completion_payload sess st)"
  let ?h = "make_header COMPLETE_ACK (ss_session_id sess) (sp_total_chunks (ss_start sess))"
  let ?d = "header_bytes ?h (length ?p) @ ?p"
  have len: "length ?p \<le> 60000" by (simp add: serialize_complete_ack_layout)
  have "reads_as ?d (ss_session_id sess) COMPLETE_ACK
      \<lparr>view_header = sent_header ?h (length ?p), view_payload = Some ?p, view_payload_size = length ?p\<rparr>"
    using len by (intro control_reads) (simp add: kReceiveBufferBytes_def)
  moreover have "deserialize_complete_ack (Some ?p) (length ?p) = Some (completion_payload sess st)"
    by (rule complete_ack_codec.de_ser) simp
  ultimately have final: "final_reply sess ?d"
    unfolding final_reply_def using server_at_complete(3) [OF at] by (auto simp: completion_payload_def)
  have "handle_packet k f sess (ss_client sess) packet st = handle_complete k f sess packet st"
    using p by (simp add: handle_packet_def finishes_def same_endpoint_eq)
  moreover have "plays t (handle_complete k f sess packet st) [] (\<lambda>sig ds t'.
    \<exists>payload d. sig = Completed st payload \<and> ds = [(ss_client sess, d)] \<and> final_reply sess d)"
    unfolding handle_complete_def sync_file_def
    using p server_at_complete(1,2) [OF at] sync len final
    by (cases "sync_output k f")
      (auto simp: finishes_def serialize_packet_layout io_bind_assoc Let_def
        intro!: plays_logs_bind plays_send_bind plays_return)
  ultimately show ?thesis by simp
qed

section \<open>The whole server\<close>

lemma serve_loop_bind:
  "serve_loop k f sess st = io_bind receive_packet (\<lambda>(source, packet).
     io_bind (handle_packet k f sess source packet st) (\<lambda>sig.
       case sig of Continue st' \<Rightarrow> serve_loop k f sess st' | Completed st' payload \<Rightarrow> io_return (st', payload)))"
  by (auto simp: fun_eq_iff serve_loop.simps [of k f sess st] io_bind_def io_return_def
      split: prod.splits outcome.splits server_signal.splits)

lemma plays_receive_bind:
  "parses_to bs v \<Longrightarrow> plays t (f (src, v)) rs Q \<Longrightarrow> plays t (io_bind receive_packet f) (Datagram src bs # rs) Q"
  by (rule plays_silent_bind [where rs = "[Datagram src bs]", simplified]; simp add: plays_receive_packet)

text \<open>The answers to the chunks from \<open>i\<close> on, chunk by chunk, and to the COMPLETE.\<close>

definition replies :: "session \<Rightarrow> nat \<Rightarrow> (endpoint \<times> bytes) list \<Rightarrow> bool" where
  "replies sess i ds \<longleftrightarrow> (\<exists>rss d. ds = map (Pair (ss_client sess)) (concat rss @ [d]) \<and>
     list_all2 (chunk_reply (ss_session_id sess) (chunks_of sess)) [i..<chunks_of sess] rss \<and> final_reply sess d)"

lemma replies_Cons:
  assumes "chunk_reply (ss_session_id sess) (chunks_of sess) i r" and "replies sess (Suc i) ds" and "i < chunks_of sess"
  shows "replies sess i (map (Pair (ss_client sess)) r @ ds)"
proof -
  obtain rss d where "ds = map (Pair (ss_client sess)) (concat rss @ [d])" "final_reply sess d"
    "list_all2 (chunk_reply (ss_session_id sess) (chunks_of sess)) [Suc i..<chunks_of sess] rss"
    using assms(2) by (auto simp: replies_def)
  with assms(1,3) show ?thesis
    unfolding replies_def by (intro exI [of _ "r # rss"] exI [of _ d]) (simp add: upt_conv_Cons)
qed

definition first_datagram :: "session \<Rightarrow> nat \<Rightarrow> bytes \<Rightarrow> bool" where
  "first_datagram sess i bs \<longleftrightarrow> (\<exists>v. parses_to bs v \<and> first_copy sess i v)"

lemma plays_serve_loop:
  assumes ok: "session_ok sess" and sync: "fst (sync_output k f) = Inr ()"
    and final: "parses_to cbs cv" "finishes sess cv"
  shows "list_all2 (first_datagram sess) [i..<chunks_of sess] bss \<Longrightarrow> i \<le> chunks_of sess \<Longrightarrow> server_at sess i st \<Longrightarrow>
    plays t (serve_loop k f sess st) (map (Datagram (ss_client sess)) (bss @ [cbs])) (\<lambda>_ ds _. replies sess i ds)"
proof (induction bss arbitrary: i st t)
  case Nil
  then have i: "i = chunks_of sess" by auto
  have "plays t (serve_loop k f sess st) [Datagram (ss_client sess) cbs] (\<lambda>_ ds _. replies sess i ds)"
    unfolding serve_loop_bind [of k f sess st]
    by (rule plays_receive_bind [OF final(1)], simp,
        rule plays_bind_then [OF plays_finish [OF Nil(3) [unfolded i] final(2) sync]])
      (auto simp: replies_def i intro!: plays_return)
  then show ?case by simp
next
  case (Cons bs bss)
  then have i: "i < chunks_of sess" by (cases "i < chunks_of sess") auto
  with Cons(2) have "first_datagram sess i bs" and rest: "list_all2 (first_datagram sess) [Suc i..<chunks_of sess] bss"
    by (simp_all add: upt_conv_Cons)
  then obtain v where v: "parses_to bs v" "first_copy sess i v" by (auto simp: first_datagram_def)
  have "plays t (serve_loop k f sess st)
      (Datagram (ss_client sess) bs # map (Datagram (ss_client sess)) (bss @ [cbs])) (\<lambda>_ ds _. replies sess i ds)"
    unfolding serve_loop_bind [of k f sess st]
  proof (rule plays_receive_bind [OF v(1)], simp only: prod.case,
      rule plays_bind_then [OF plays_first_copy [OF ok Cons(4) i v(2)]], elim exE conjE)
    fix sig xs t' st' r
    assume s: "sig = Continue st'" "server_at sess (Suc i) st'" "xs = map (Pair (ss_client sess)) r"
      "chunk_reply (ss_session_id sess) (chunks_of sess) i r"
    show "plays t' (case sig of Continue st' \<Rightarrow> serve_loop k f sess st' | Completed st' payload \<Rightarrow> io_return (st', payload))
      (map (Datagram (ss_client sess)) (bss @ [cbs])) (\<lambda>b ys t''. replies sess i (xs @ ys))"
      using plays_mono [OF Cons(1) [OF rest _ s(2), of t']] s i by (simp add: replies_Cons)
  qed
  then show ?case by simp
qed

text \<open>The time wait ends when its poll times out.\<close>

lemma plays_time_wait:
  assumes "plays t (f ()) rs Q"
  shows "plays t (io_bind (time_wait client sid n payload) f) rs Q"
proof -
  have round: "plays t (time_wait_round client sid n payload (t + kTimeWait)) [] (\<lambda>a ds t'. a = None \<and> ds = [] \<and> t' = t)"
    unfolding time_wait_round_def
    by (rule plays_clock_bind [OF order_refl], simp add: kTimeWait_def ms_def,
        rule plays_clock_bind [OF order_refl], rule plays_poll_bind [where r = Poll_timeout])
      (simp add: plays_return)
  have loop: "time_wait_loop client sid n payload d = io_bind (time_wait_round client sid n payload d) (\<lambda>r.
      case r of None \<Rightarrow> io_return () | Some d' \<Rightarrow> time_wait_loop client sid n payload d')" for d
    by (auto simp: fun_eq_iff time_wait_loop.simps [of client sid n payload d] io_bind_def io_return_def
        split: prod.splits outcome.splits option.splits)
  have "plays t (time_wait client sid n payload) [] (\<lambda>a ds t'. a = () \<and> ds = [] \<and> t' = t)"
    unfolding time_wait_def
    by (rule plays_clock_bind [OF order_refl], subst loop, rule plays_silent_bind [OF round, where rs' = "[]", simplified])
      (simp add: plays_return)
  then show ?thesis by (rule plays_silent_bind [where rs = "[]", simplified]) (rule assms)
qed

definition start_reply :: "u32 \<Rightarrow> start_payload \<Rightarrow> bytes \<Rightarrow> bool" where
  "start_reply sid start d \<longleftrightarrow> (\<exists>v. reads_as d sid START_ACK v \<and>
     deserialize_start_ack (view_payload v) (view_payload_size v) = Some (acceptance start))"

lemma plays_send_start_ack:
  assumes "\<And>d. start_reply sid start d \<Longrightarrow> plays t (f ()) rs (\<lambda>b ys. Q b ((client, d) # ys))"
  shows "plays t (io_bind (send_start_ack client sid (acceptance start)) f) rs Q"
proof -
  let ?p = "serialize_start_ack (acceptance start)" and ?h = "make_header START_ACK sid 0"
  have len: "length ?p \<le> 60000" by (simp add: serialize_start_ack_layout)
  have "reads_as (header_bytes ?h (length ?p) @ ?p) sid START_ACK
      \<lparr>view_header = sent_header ?h (length ?p), view_payload = Some ?p, view_payload_size = length ?p\<rparr>"
    using len by (intro control_reads) (simp add: kReceiveBufferBytes_def)
  moreover have "deserialize_start_ack (Some ?p) (length ?p) = Some (acceptance start)"
    by (rule start_ack_codec.de_ser) simp
  ultimately have "start_reply sid start (header_bytes ?h (length ?p) @ ?p)" by (auto simp: start_reply_def)
  with assms len show ?thesis
    unfolding send_start_ack_def Let_def
    by (intro plays_send_bind [where d = "header_bytes ?h (length ?p) @ ?p"]) (simp_all add: serialize_packet_layout)
qed

text \<open>All the answers of a session.\<close>

definition all_replies :: "session \<Rightarrow> (endpoint \<times> bytes) list \<Rightarrow> bool" where
  "all_replies sess ds \<longleftrightarrow> (\<exists>d ds'. ds = (ss_client sess, d) # ds' \<and>
     start_reply (ss_session_id sess) (ss_start sess) d \<and> replies sess 0 ds')"

lemma init_server_at: "session_ok sess \<Longrightarrow> server_at sess 0 (init_server_state sess now)"
  using init_server_inv(1) [of sess now] rt.rset_mk
  by (simp add: server_at_def init_server_state_def)

lemma plays_serve_transfer:
  assumes ok: "session_ok sess" and sync: "fst (sync_output k f) = Inr ()"
    and final: "parses_to cbs cv" "finishes sess cv"
    and data: "list_all2 (first_datagram sess) [0..<chunks_of sess] bss"
  shows "plays t (serve_transfer k f fd sess) (map (Datagram (ss_client sess)) (bss @ [cbs])) (\<lambda>_ ds _. all_replies sess ds)"
proof -
  have acc: "ss_accepted sess = acceptance (ss_start sess)" using ok by (simp add: session_ok_def)
  show ?thesis
    unfolding serve_transfer_def acc
  proof (rule plays_send_start_ack, rule plays_clock_bind [OF order_refl],
      rule plays_bind_last [OF plays_serve_loop [OF ok sync final data _ init_server_at [OF ok]]], simp)
    fix d x xs t'
    assume "start_reply (ss_session_id sess) (ss_start sess) d" "replies sess 0 xs"
    then show "plays t' (case x of (st, payload) \<Rightarrow> conclude_transfer fd sess st payload) []
        (\<lambda>b ys t''. all_replies sess ((ss_client sess, d) # xs @ ys))"
      unfolding conclude_transfer_def
      by (cases x) (auto simp: all_replies_def io_bind_assoc
        intro!: plays_logs_bind plays_time_wait plays_logs)
  qed
qed

lemma plays_await_start:
  assumes "parses_to bs v" and "start_of v = Some start" and "valid_start mtu start = Inr True"
    and "plays t (f (client, session_id (view_header v), start)) rs Q"
  shows "plays t (io_bind (await_start mtu) f) (Datagram client bs # rs) Q"
proof -
  have "plays t (await_start mtu) [Datagram client bs]
      (\<lambda>a ds t'. a = (client, session_id (view_header v), start) \<and> ds = [] \<and> t' = t)"
    by (rule playsI [where ts = "[]" and ps = "[]" and ss = "[]" and ds = "[]" and t' = t])
      (use assms(1-3) in \<open>auto simp: feed_def same_scripts_def await_start.simps receive_one\<close>)
  then show ?thesis by (rule plays_silent_bind [where rs = "[Datagram client bs]", simplified]) (rule assms(4))
qed

section \<open>The client's datagrams as the server reads them\<close>

lemma start_datagram_parses:
  "\<exists>v. parses_to (start_datagram start sid) v \<and> session_id (view_header v) = sid \<and>
     (sid \<noteq> 0 \<longrightarrow> start_of v = Some start)"
proof -
  let ?bs = "serialize_start start"
  let ?v = "\<lparr>view_header = sent_header (make_header START sid 0) 24, view_payload = Some ?bs, view_payload_size = 24\<rparr>"
  have len: "length ?bs = 24" by (simp add: serialize_start_layout)
  have "parses_to (start_datagram start sid) ?v"
    using parses_header [of "make_header START sid 0" ?bs] len
    by (simp add: start_datagram_def kReceiveBufferBytes_def)
  moreover have "deserialize_start (Some ?bs) 24 = Some start"
    using start_codec.de_ser [of start ?bs] len by simp
  ultimately show ?thesis by (intro exI [of _ ?v]) (simp add: start_of_def Let_def)
qed

lemma complete_datagram_parses:
  assumes "ss_start sess = start" and "ss_session_id sess = sid"
  shows "\<exists>v. parses_to (complete_datagram start sid) v \<and> finishes sess v"
  using parses_header [of "make_header COMPLETE sid (sp_total_chunks start)" "[]"] assms
  by (auto simp: complete_datagram_def kReceiveBufferBytes_def finishes_def intro!: exI)

lemma data_datagram_first:
  assumes ok: "session_ok sess" and len: "length contents = unat (sp_file_size (ss_start sess))"
    and small: "unat (sp_chunk_size (ss_start sess)) \<le> 65483" and i: "i < chunks_of sess"
  shows "first_datagram sess i (data_datagram contents (ss_start sess) (ss_session_id sess) 0 (of_nat i))"
proof -
  let ?start = "ss_start sess"
  let ?s = "of_nat i :: u32" and ?c = "sp_chunk_size ?start"
  let ?bs = "chunk_bytes contents ?c ?s"
  let ?h = "(make_header DATA (ss_session_id sess) ?s)\<lparr>flags := 0\<rparr>"
  have s: "?s < sp_total_chunks ?start"
    using i unat_of_nat_below [of i "sp_total_chunks ?start"] by (simp add: chunks_of_def word_less_nat_alt)
  have cc: "chunk_count (sp_file_size ?start) ?c = Inr (sp_total_chunks ?start)" using ok by (simp add: session_ok_def)
  have size: "of_nat (length contents) = sp_file_size ?start" "length contents < 18446744073709551616"
    using len unat_u64_less [of "sp_file_size ?start"] by simp_all
  have l: "length ?bs = chunk_length (sp_file_size ?start) ?c ?s"
    using length_chunk_bytes [of contents ?c "sp_total_chunks ?start" ?s] cc size s by simp
  have "length ?bs \<le> 65483" using l chunk_in_file(2) [OF cc s] small by simp
  moreover have "sendable_header ?h"
    using sendable_make_header [of DATA "ss_session_id sess" ?s] by (simp add: sendable_header_def FLAG_CRC32C_def)
  ultimately have "parses_to (data_datagram contents ?start (ss_session_id sess) 0 ?s)
      \<lparr>view_header = sent_header ?h (length ?bs), view_payload = Some ?bs, view_payload_size = length ?bs\<rparr>"
    using parses_header [of ?h ?bs] by (simp add: data_datagram_def Let_def kReceiveBufferBytes_def)
  moreover have "brings sess ?s \<lparr>view_header = sent_header ?h (length ?bs), view_payload = Some ?bs, view_payload_size = length ?bs\<rparr>"
    using s l by (simp add: brings_def acceptable_def Let_def sent_header_def make_header_def)
  ultimately show ?thesis
    unfolding first_datagram_def first_copy_def by (auto simp: view_ok_def sent_header_def)
qed

section \<open>The server's run\<close>

definition session_of :: "endpoint \<Rightarrow> u32 \<Rightarrow> start_payload \<Rightarrow> session" where
  "session_of client sid start =
     \<lparr>ss_client = client, ss_session_id = sid, ss_start = start, ss_accepted = acceptance start\<rparr>"

definition client_script :: "bytes \<Rightarrow> start_payload \<Rightarrow> u32 \<Rightarrow> bytes list" where
  "client_script contents start sid = start_datagram start sid #
     map (\<lambda>i. data_datagram contents start sid 0 (of_nat i)) [0..<unat (sp_total_chunks start)] @
     [complete_datagram start sid]"

lemma plays_run_server:
  assumes sid: "sid \<noteq> 0" and c: "chunk_size_for_mtu (so_mtu options) = Inr c" and n: "chunk_count fs c = Inr n"
    and len: "length contents = unat fs" and fd: "0 \<le> fd"
    and opened: "fst (open_output k (so_output options) fs) = Inr f" and sync: "fst (sync_output k f) = Inr ()"
  shows "plays t (run_server fd 0 0 k options)
    (map (Datagram client) (client_script contents (start_request fs c n) sid))
    (\<lambda>_ ds _. all_replies (session_of client sid (start_request fs c n)) ds)"
proof -
  let ?start = "start_request fs c n"
  let ?sess = "session_of client sid ?start"
  have sess: "session_ok ?sess" "ss_start ?sess = ?start" "ss_session_id ?sess = sid" "ss_client ?sess = client"
    "chunks_of ?sess = unat n"
    using n by (simp_all add: session_of_def session_ok_def start_request_def chunks_of_def)
  obtain sv where sv: "parses_to (start_datagram ?start sid) sv" "session_id (view_header sv) = sid" "start_of sv = Some ?start"
    using start_datagram_parses sid by blast
  obtain cv where cv: "parses_to (complete_datagram ?start sid) cv" "finishes ?sess cv"
    using complete_datagram_parses [OF sess(2,3)] by blast
  have valid: "valid_start (so_mtu options) ?start = Inr True"
    using default_window_wide [OF c] c n
    by (simp add: valid_start_true start_request_def word_less_nat_alt)
  have data: "list_all2 (first_datagram ?sess) [0..<chunks_of ?sess]
      (map (\<lambda>i. data_datagram contents ?start sid 0 (of_nat i)) [0..<unat n])"
    using data_datagram_first [OF sess(1), of contents] sess len c
    by (auto simp: list_all2_conv_all_nth start_request_def chunk_size_for_mtu_Inr)
  obtain calls where calls: "open_output k (so_output options) fs = (Inr f, calls)"
    using opened by (cases "open_output k (so_output options) fs") simp
  have "plays t (serve_client k (so_output options) (so_mtu options) fd)
      (map (Datagram client) (client_script contents ?start sid)) (\<lambda>_ ds _. all_replies ?sess ds)"
    unfolding serve_client_def client_script_def list.map
  proof (rule plays_await_start [OF sv(1,3) valid], unfold prod.case sv(2))
    have fs: "sp_file_size ?start = fs" and tot: "sp_total_chunks ?start = n" by (simp_all add: start_request_def)
    have "plays t (serve_transfer k f fd ?sess) (map (Datagram client)
        (map (\<lambda>i. data_datagram contents ?start sid 0 (of_nat i)) [0..<unat n] @ [complete_datagram ?start sid]))
        (\<lambda>_ ds _. all_replies ?sess ds)"
      using plays_serve_transfer [OF sess(1) sync cv data] sess(4) by simp
    then have "plays t (io_finally (serve_transfer k f fd ?sess) (log_files (close_output f))) (map (Datagram client)
        (map (\<lambda>i. data_datagram contents ?start sid 0 (of_nat i)) [0..<unat n] @ [complete_datagram ?start sid]))
        (\<lambda>_ ds _. all_replies ?sess ds)"
      by (rule plays_finally [OF plays_bind_last]) (simp add: plays_logs_bind plays_return)
    then show "plays t (let (output, calls) = open_output k (so_output options) (sp_file_size ?start)
        in io_bind (log_files calls) (\<lambda>_. case output of
          Inl e \<Rightarrow> io_bind (send_start_ack client sid (rejection IO_ERROR)) (\<lambda>_. io_throw e)
        | Inr g \<Rightarrow> io_finally (serve_transfer k g fd \<lparr>ss_client = client, ss_session_id = sid, ss_start = ?start,
              ss_accepted = acceptance ?start\<rparr>) (log_files (close_output g))))
      (map (Datagram client) (map (\<lambda>i. data_datagram contents ?start sid 0 (of_nat i)) [0..<unat (sp_total_chunks ?start)] @
         [complete_datagram ?start sid])) (\<lambda>_ ds _. all_replies ?sess ds)"
      unfolding fs tot session_of_def calls by (simp add: plays_logs_bind)
  qed
  then show ?thesis
    using fd by (auto simp: run_server_def intro!: plays_on_throw plays_logs_bind)
qed

end
