(* ===== verification/Lossless_Client.thy ===== *)
theory Lossless_Client
  imports Lossless_Server
begin

unbundle bit_operations_syntax

text \<open>
  The client of a transfer in which nothing is lost: given the answers of the server it sends every
  chunk once and in order and returns.  Between the rounds of its loop at most one chunk is in flight,
  and it was sent at the present time, so no timeout is due.
\<close>

section \<open>The client's window when nothing is overdue\<close>

text \<open>What is in flight was sent at the present time, and nothing waits for retransmission.\<close>

definition calm :: "time_ns \<Rightarrow> sender_window \<Rightarrow> bool" where
  "calm t w \<longleftrightarrow> (\<forall>i < unat (sw_next_sequence w). cs_state (sw_chunks w ! i) = IN_FLIGHT \<longrightarrow>
     \<not> cs_retransmit_pending (sw_chunks w ! i) \<and> cs_last_sent_time (sw_chunks w ! i) = t)"

lemma calm_timeouts:
  assumes inv: "sw_inv w" and calm: "calm t w"
  shows "acked_set (check_timeouts w t (ms kDefaultRtoMs)) = acked_set w"
    and "calm t (check_timeouts w t (ms kDefaultRtoMs))"
proof -
  note C = check_timeouts_inv [OF inv, of t "ms kDefaultRtoMs"]
  show "acked_set (check_timeouts w t (ms kDefaultRtoMs)) = acked_set w" using C by simp
  have "sw_chunks (check_timeouts w t (ms kDefaultRtoMs)) ! i = sw_chunks w ! i" if "i < unat (sw_next_sequence w)" for i
  proof -
    have "i < unat (sw_total_chunks w)" using that window_okD(3) [OF sw_invD(2) [OF inv]] by simp
    from check_timeouts_chunk [OF inv this, of t "ms kDefaultRtoMs"] calm that show ?thesis
      by (auto simp: calm_def timeout_chunk_def expired_def kDefaultRtoMs_def ms_def)
  qed
  then show "calm t (check_timeouts w t (ms kDefaultRtoMs))"
    using C(2) calm by (simp add: calm_def same_frame_def)
qed

lemma pop_retransmission_nothing:
  "\<forall>s \<in> set q. \<not> wants_retransmission (cs ! unat s) \<Longrightarrow> pop_retransmission q cs = (None, [], cs)"
  by (induction q) (auto simp: Let_def wants_retransmission_def)

lemma calm_select:
  assumes inv: "sw_inv w" and calm: "calm t w" and can: "can_send_new w"
  shows "\<exists>w'. select_next_packet w = (Some \<lparr>sequence = sw_next_sequence w, retransmission = False, fast_retransmission = False\<rparr>, w') \<and>
     acked_set w' = acked_set w \<and> sw_chunks w' = sw_chunks w \<and> sw_next_sequence w' = sw_next_sequence w + 1 \<and>
     sw_total_chunks w' = sw_total_chunks w"
proof -
  have "pop_retransmission (sw_retransmission_queue w) (sw_chunks w) = (None, [], sw_chunks w)"
    using calm sw_invD(3) [OF inv]
    by (intro pop_retransmission_nothing) (auto simp: calm_def queue_ok_def wants_retransmission_def)
  then show ?thesis using can by (simp add: select_next_packet_def can_send_new_def acked_set_def)
qed

text \<open>After \<open>i\<close> chunks have been sent all but perhaps the last of them are acknowledged.\<close>

definition confirmed :: "nat \<Rightarrow> nat \<Rightarrow> nat" where
  "confirmed n i = (if odd i \<and> i < n then i - 1 else i)"

definition leads :: "client_config \<Rightarrow> nat \<Rightarrow> time_ns \<Rightarrow> sender_window \<Rightarrow> bool" where
  "leads cfg i t w \<longleftrightarrow> i \<le> unat (cc_total_chunks cfg) \<and> window_at cfg (of_nat i) w \<and>
     acked_set w = {..<confirmed (unat (cc_total_chunks cfg)) i} \<and> calm t w"

text \<open>The window the server grants: it holds two chunks and the bitmap covers it.\<close>

definition granted :: "client_config \<Rightarrow> bool" where
  "granted cfg \<longleftrightarrow> 1 < unat (sa_accepted_window_chunks (cc_accepted cfg)) \<and>
     sa_accepted_bitmap_bits (cc_accepted cfg) = kDefaultAckBitmapBits"

lemma confirmed_bounds: "confirmed n i \<le> i" "i \<le> Suc (confirmed n i)"
  by (auto simp: confirmed_def)

lemma first_gap_lessThan [simp]: "first_gap {..<k} = k"
  by (rule first_gap_eqI) auto

lemma leads_can_send:
  assumes g: "granted cfg" and l: "leads cfg i t w" and i: "i < unat (cc_total_chunks cfg)"
  shows "can_send_new w" and "unat (sw_next_sequence w) = i"
proof -
  let ?n = "unat (cc_total_chunks cfg)"
  have at: "window_at cfg (of_nat i) w" and acked: "acked_set w = {..<confirmed ?n i}" using l by (simp_all add: leads_def)
  note I = window_at_inv [OF at]
  note D = window_okD [OF sw_invD(2) [OF I(1)]]
  show u: "unat (sw_next_sequence w) = i" using I(3) unat_of_nat_below [of i "cc_total_chunks cfg"] i by simp
  obtain t0 where R: "sender_reachable (cc_total_chunks cfg) (sa_accepted_window_chunks (cc_accepted cfg))
      (ucast kDefaultAckBitmapBits) t0 w"
    using at g by (auto simp: window_at_def window_on_def granted_def)
  note F = reachable_inv [OF R]
  have "unacked_set w \<subseteq> {confirmed ?n i..<i}"
  proof
    fix x assume "x \<in> unacked_set w"
    then have x: "x < i" "cs_state (sw_chunks w ! x) \<noteq> ACKED" by (simp_all add: unacked_set_def u)
    then have "x \<notin> acked_set w" by (simp add: acked_set_def)
    with x acked show "x \<in> {confirmed ?n i..<i}" by simp
  qed
  then have "card (unacked_set w) \<le> card {confirmed ?n i..<i}" by (rule card_mono [rotated]) simp
  then have "unat (sw_outstanding_chunks w) \<le> 1" using D(6) confirmed_bounds(2) [of i ?n] by simp
  moreover have "unat (sw_base w) = confirmed ?n i" using sw_invD(5) [OF I(1)] acked by simp
  moreover have "unat (ucast kDefaultAckBitmapBits :: u32) = 8192" by (simp add: kDefaultAckBitmapBits_def)
  ultimately show "can_send_new w"
    using F I(2,3) u i g confirmed_bounds(2) [of i ?n]
    by (simp add: can_send_new_def word_less_nat_alt granted_def)
qed

lemma snapshot_completes:
  assumes inv: "sw_inv w" and "unat (sw_next_sequence w) = i" and "acked_set w \<subseteq> {..<i}" and "i \<le> n" and "n < 4294967296"
  shows "acked_set (process_ack w (make_ack_snapshot (tracker_of n {..<i}) bits) t) = {..<i}"
proof -
  have T: "tracker_inv (tracker_of n {..<i})" "received_set (tracker_of n {..<i}) = {..<i}"
    using assms(4,5) by (simp_all add: tracker_inv_of received_set_tracker_of)
  show ?thesis
    using process_ack_inv(4) [OF inv] snapshot_acknowledges [OF T(1), of bits] assms(2,3) T(2) by auto
qed

text \<open>Nothing is in flight where everything sent is acknowledged.\<close>

lemma all_acked_calm:
  assumes "window_ok w" and "acked_set w = {..<unat (sw_next_sequence w)}"
  shows "calm t w"
proof -
  have "cs_state (sw_chunks w ! i) = ACKED" if "i < unat (sw_next_sequence w)" for i
    using assms(2) that by (auto simp: acked_set_def set_eq_iff)
  then show ?thesis by (simp add: calm_def)
qed

text \<open>The window after a chunk has been sent and, where one is due, its ACK applied.\<close>

lemma leads_sent:
  assumes l: "leads cfg i t w" and i: "i < unat (cc_total_chunks cfg)"
    and sel: "select_next_packet w = (Some d, w1)" and d: "d = \<lparr>sequence = sw_next_sequence w, retransmission = False, fast_retransmission = False\<rparr>"
    and w1: "acked_set w1 = acked_set w" "sw_chunks w1 = sw_chunks w" "sw_next_sequence w1 = sw_next_sequence w + 1"
  obtains w2 where "mark_sent w1 (sequence d) t' = Inr w2"
    "\<not> due (unat (cc_total_chunks cfg)) i \<longrightarrow> leads cfg (Suc i) t' w2"
    "due (unat (cc_total_chunks cfg)) i \<longrightarrow>
      leads cfg (Suc i) t' (process_ack w2 (make_ack_snapshot (tracker_of (unat (cc_total_chunks cfg)) {..<Suc i}) bits) t')"
proof -
  let ?n = "unat (cc_total_chunks cfg)"
  have at: "window_at cfg (of_nat i) w" and acked: "acked_set w = {..<confirmed ?n i}" and calm: "calm t w"
    using l by (simp_all add: leads_def)
  note I = window_at_inv [OF at]
  obtain w2 where w2: "mark_sent w1 (sequence d) t' = Inr w2" "window_at cfg (of_nat (Suc i)) w2"
    using chosen_sequence(4) [OF sel at, of t'] d by (auto simp: add.commute)
  have u: "unat (sw_next_sequence w) = i" using I(3) unat_of_nat_below [of i "cc_total_chunks cfg"] i by simp
  have "unat (of_nat (Suc i) :: u32) = Suc i"
    using i unat_u32_less [of "cc_total_chunks cfg"]
    by (simp add: unsigned_of_nat take_bit_nat_eq_self del: of_nat_Suc)
  then have u2: "unat (sw_next_sequence w2) = Suc i" using window_at_inv(3) [OF w2(2)] by simp
  have inv1: "sw_inv w1" using select_inv(1) [OF I(1) sel] .
  note M = mark_sent_inv [OF inv1 w2(1)] mark_sent_chunk [OF w2(1)]
  show ?thesis
  proof (rule that [OF w2(1)]; rule impI)
    assume nd: "\<not> due ?n i"
    then have c: "confirmed ?n i = i" "confirmed ?n (Suc i) = i" using i by (auto simp: confirmed_def due_def)
    have fresh: "sw_chunks w ! i = fresh_chunk"
      using window_okD(5) [OF sw_invD(2) [OF I(1)], of i] u I(2) i by simp
    have "cs_state (sw_chunks w ! k) = ACKED" if "k < i" for k
      using acked that by (auto simp: c acked_set_def set_eq_iff)
    then have "calm t' w2"
      using M(7) u2 u d fresh w1(2) window_okD(1) [OF sw_invD(2) [OF I(1)]] I(2) i
      by (auto simp: calm_def less_Suc_eq chunk_at_def fresh_chunk_def)
    then show "leads cfg (Suc i) t' w2"
      using i w2(2) M(2) w1(1) acked c by (simp add: leads_def)
  next
    assume dd: "due ?n i"
    let ?w3 = "process_ack w2 (make_ack_snapshot (tracker_of ?n {..<Suc i}) bits) t'"
    note P = process_ack_inv [OF M(1), of "make_ack_snapshot (tracker_of ?n {..<Suc i}) bits" t']
    have c: "confirmed ?n (Suc i) = Suc i" using dd i by (auto simp: confirmed_def due_def)
    have "acked_set w2 \<subseteq> {..<Suc i}" using M(2) w1(1) acked confirmed_bounds(1) [of ?n i] by auto
    then have a: "acked_set ?w3 = {..<Suc i}"
      using snapshot_completes [OF M(1) u2 _ _ unat_u32_less] i by simp
    moreover have "calm t' ?w3"
      using all_acked_calm [OF sw_invD(2) [OF P(1)]] a P(2) u2 by (simp add: same_frame_def)
    ultimately show "leads cfg (Suc i) t' ?w3"
      using i window_at_steps(1) [OF w2(2)] c by (simp add: leads_def)
  qed
qed

section \<open>The client's steps\<close>

text \<open>The pacer lets a packet go when its bucket has had time to fill.\<close>

lemma refill_full:
  assumes "0 < bytes_per_nanosecond p"
  obtains t' where "t \<le> t'" "tokens_bytes (refill p t' cap) = cap"
    "bytes_per_nanosecond (refill p t' cap) = bytes_per_nanosecond p"
proof -
  let ?r = "bytes_per_nanosecond p"
  define k where "k = max 1 \<lceil>(cap - tokens_bytes p) / ?r\<rceil>"
  define t' where "t' = max t (last_refill_time p + k)"
  have "\<lceil>(cap - tokens_bytes p) / ?r\<rceil> \<le> k" by (simp add: k_def)
  then have "(cap - tokens_bytes p) / ?r \<le> of_int k" by (simp only: ceiling_le_iff)
  moreover have "k \<le> t' - last_refill_time p" by (simp add: t'_def)
  then have "(of_int k :: rat) \<le> of_int (t' - last_refill_time p)" by (simp only: of_int_le_iff)
  ultimately have "(cap - tokens_bytes p) / ?r \<le> of_int (t' - last_refill_time p)" by linarith
  then have "cap - tokens_bytes p \<le> of_int (t' - last_refill_time p) * ?r"
    using assms by (simp add: pos_divide_le_eq)
  moreover have "\<not> t' \<le> last_refill_time p" by (simp add: t'_def k_def)
  ultimately show ?thesis
    by (intro that [of t']) (simp_all add: t'_def [symmetric] refill_def Let_def, simp add: t'_def)
qed

lemma plays_pacer_wait:
  assumes "0 < bytes_per_nanosecond p"
    and "\<And>p' t'. t \<le> t' \<Longrightarrow> 0 < bytes_per_nanosecond p' \<Longrightarrow> plays t' (f p') rs Q"
  shows "plays t (io_bind (pacer_wait p n) f) rs Q"
proof -
  let ?cap = "max (of_nat kBurstCapacityBytes) (of_nat n) :: rat"
  obtain t' where t': "t \<le> t'" "tokens_bytes (refill p t' ?cap) = ?cap"
    "bytes_per_nanosecond (refill p t' ?cap) = bytes_per_nanosecond p"
    by (rule refill_full [OF assms(1), of t ?cap])
  have "pacer_wait_loop (of_nat n) ?cap t' (refill p t' ?cap) = io_return (refill p t' ?cap)"
    using t'(2) by (simp add: fun_eq_iff pacer_wait_loop.simps io_return_def)
  with t' assms show ?thesis
    unfolding pacer_wait_def Let_def io_bind_assoc
    by (intro plays_clock_bind [OF t'(1)]) simp
qed

lemma drain_acks_bind:
  "drain_acks server sid window = io_bind (recvfrom kReceiveBufferBytes) (\<lambda>r. case r of
     Datagram source buffer \<Rightarrow> io_bind (drain_one server sid source buffer window) (drain_acks server sid)
   | Recv_interrupted \<Rightarrow> drain_acks server sid window
   | Recv_would_block \<Rightarrow> io_return window
   | Recv_failed \<Rightarrow> throw_errno ''recvfrom failed: '')"
  by (auto simp: fun_eq_iff drain_acks.simps [of server sid window] io_bind_def io_return_def throw_errno_def
      split: prod.splits outcome.splits recv_result.splits)

lemma plays_drain_nothing:
  assumes "plays t (f st) rs Q"
  shows "plays t (io_bind (client_drain cfg st) f) (Recv_would_block # rs) Q"
  unfolding client_drain_def io_bind_assoc
  by (subst drain_acks_bind, unfold io_bind_assoc, rule plays_recv_bind) (simp add: assms)

lemma plays_drain_ack:
  assumes ack: "acks_first (cc_session_id cfg) n i d"
    and "plays t (f (st\<lparr>cl_window := process_ack (cl_window st) (make_ack_snapshot (tracker_of n {..<i}) kDefaultAckBitmapBits) t\<rparr>)) rs Q"
  shows "plays t (io_bind (client_drain cfg st) f) (Datagram (cc_server cfg) d # Recv_would_block # rs) Q"
proof -
  let ?ack = "make_ack_snapshot (tracker_of n {..<i}) kDefaultAckBitmapBits"
  obtain v where v: "reads_as d (cc_session_id cfg) ACK v" "flags (view_header v) AND FLAG_SACK \<noteq> 0"
    "deserialize_ack (view_payload v) (view_payload_size v) = Some ?ack"
    using ack by (auto simp: acks_first_def)
  have cut: "take kReceiveBufferBytes d = d" using v(1) by (simp add: reads_as_def)
  have one: "drain_one (cc_server cfg) (cc_session_id cfg) (cc_server cfg) d w =
      io_bind clock_now (\<lambda>now. io_return (process_ack w ?ack now))" for w
    using v(2,3) by (simp add: drain_one_def reads_as_expected [OF v(1)] apply_ack_packet_def)
  show ?thesis
    unfolding client_drain_def io_bind_assoc
    by (subst drain_acks_bind, unfold io_bind_assoc, rule plays_recv_bind,
        simp add: cut one io_bind_assoc, rule plays_clock_bind [OF order_refl],
        subst drain_acks_bind, unfold io_bind_assoc, rule plays_recv_bind)
      (simp add: assms(2))
qed

lemma receive_loop_bind:
  "receive_loop server ty sid deadline stats = io_bind (receive_round server ty sid deadline stats) (\<lambda>(step, stats').
     case step of Again \<Rightarrow> receive_loop server ty sid deadline stats'
     | Timed_out \<Rightarrow> io_return (None, stats') | Received packet \<Rightarrow> io_return (Some packet, stats'))"
  by (auto simp: fun_eq_iff receive_loop.simps [of server ty sid deadline stats] io_bind_def io_return_def
      split: prod.splits outcome.splits receive_step.splits)

lemma plays_receive_expected:
  assumes d: "reads_as d sid ty v" and "0 < timeout" and "plays t (f (Some v, None)) rs Q"
  shows "plays t (io_bind (receive_expected server ty sid timeout None) f) (Datagram server d # rs) Q"
proof -
  have cut: "take kReceiveBufferBytes d = d" using d by (simp add: reads_as_def)
  have time: "0 < ms timeout" using assms(2) by (simp add: ms_def)
  have "plays t (io_bind (receive_round server ty sid (t + ms timeout) None) g) (Datagram server d # rs) Q"
    if "plays t (g (Received v, None)) rs Q" for g
    unfolding receive_round_def io_bind_assoc
    by (rule plays_clock_bind [OF order_refl], simp add: time io_bind_assoc timed_poll_def,
        rule plays_clock_bind [OF order_refl], rule plays_poll_bind [where r = Poll_ready],
        simp add: io_bind_assoc, rule plays_recv_bind)
      (simp add: cut reads_as_expected [OF d] that)
  then show ?thesis
    unfolding receive_expected_def io_bind_assoc
    by (intro plays_clock_bind [OF order_refl]) (simp add: receive_loop_bind [of _ _ _ "t + _"] io_bind_assoc assms(3))
qed

section \<open>The client's loop\<close>

definition pacing :: "client_state \<Rightarrow> bool" where
  "pacing st \<longleftrightarrow> 0 < bytes_per_nanosecond (cl_pacer st)"

text \<open>The steps of a send before the datagram.\<close>

lemma plays_prepare:
  assumes "pacing st"
    and "\<And>st' t'. t \<le> t' \<Longrightarrow> pacing st' \<Longrightarrow> cl_window st' = cl_window st \<Longrightarrow> plays t' (f st') rs Q"
  shows "plays t (io_bind (client_pace b st) (\<lambda>st. io_bind (note_first_data st) f)) rs Q"
proof -
  have first: "plays t' (io_bind (note_first_data st') f) rs Q"
    if "t \<le> t'" "pacing st'" "cl_window st' = cl_window st" for st' t'
    unfolding note_first_data_def using that assms(2) [of t']
    by (auto simp: io_bind_assoc pacing_def intro!: plays_clock_bind [OF order_refl])
  show ?thesis
    unfolding client_pace_def io_bind_assoc
    by (rule plays_clock_bind [OF order_refl], rule plays_pacer_wait [OF assms(1) [unfolded pacing_def]],
        rule plays_clock_bind [OF order_refl], unfold Let_def io_bind_return, rule first)
      (simp_all add: pacing_def)
qed

text \<open>What the client receives in the round of a chunk, after the drain it starts with.\<close>

lemma plays_client_send:
  assumes cfg: "config_ok contents cfg" and l: "leads cfg i t0 w" and i: "i < unat (cc_total_chunks cfg)"
    and sel: "select_next_packet w = (Some d, cl_window st)"
    and d: "d = \<lparr>sequence = sw_next_sequence w, retransmission = False, fast_retransmission = False\<rparr>"
    and w1: "acked_set (cl_window st) = acked_set w" "sw_chunks (cl_window st) = sw_chunks w"
      "sw_next_sequence (cl_window st) = sw_next_sequence w + 1"
    and p: "pacing st" and reply: "chunk_reply (cc_session_id cfg) (unat (cc_total_chunks cfg)) i r"
  shows "plays t (client_send cfg d st) (map (Datagram (cc_server cfg)) r @ [Recv_would_block]) (\<lambda>st' ds t'.
    ds = [(cc_server cfg, data_datagram contents (request_of cfg) (cc_session_id cfg) 0 (of_nat i))] \<and>
    leads cfg (Suc i) t' (cl_window st') \<and> pacing st')"
proof -
  let ?n = "unat (cc_total_chunks cfg)"
  have seq: "sequence d = of_nat i"
    using d l window_at_inv(3) [of cfg "of_nat i" w] by (simp add: leads_def)
  have s: "sequence d < cc_total_chunks cfg"
    using seq i unat_of_nat_below [of i "cc_total_chunks cfg"] by (simp add: word_less_nat_alt)
  have send: "send_data_packet (cc_server cfg) (data_header cfg d) (data_from cfg (sequence d))
      (chunk_length (cc_size cfg) (cc_chunk_size cfg) (sequence d)) =
    send_loop ''sendmsg failed: '' (cc_server cfg)
      (data_datagram contents (request_of cfg) (cc_session_id cfg) 0 (of_nat i))"
    unfolding send_data_datagram [OF cfg s] using d seq by simp
  have final: "plays t' (client_drain cfg (count_sent d (st'\<lparr>cl_window := w2\<rparr>))) (map (Datagram (cc_server cfg)) r @ [Recv_would_block])
      (\<lambda>st' ds t'. ds = [] \<and> leads cfg (Suc i) t' (cl_window st') \<and> pacing st')"
    if "pacing st'" and "\<not> due ?n i \<longrightarrow> leads cfg (Suc i) t' w2"
      and "due ?n i \<longrightarrow> leads cfg (Suc i) t' (process_ack w2 (make_ack_snapshot (tracker_of ?n {..<Suc i}) kDefaultAckBitmapBits) t')"
    for st' t' w2
  proof -
    let ?st = "count_sent d (st'\<lparr>cl_window := w2\<rparr>)"
    have st: "cl_window ?st = w2" "pacing ?st" using that(1) d by (simp_all add: count_sent_def Let_def pacing_def)
    have "plays t' (io_bind (client_drain cfg ?st) io_return) (map (Datagram (cc_server cfg)) r @ [Recv_would_block])
      (\<lambda>st' ds t'. ds = [] \<and> leads cfg (Suc i) t' (cl_window st') \<and> pacing st')"
    proof (cases "due ?n i")
      case True
      then obtain b where "r = [b]" "acks_first (cc_session_id cfg) ?n (Suc i) b" using reply by (auto simp: chunk_reply_def)
      then show ?thesis
        using that(3) True st by (simp add: plays_drain_ack plays_return pacing_def)
    next
      case False
      then have "r = []" using reply by (simp add: chunk_reply_def)
      then show ?thesis using that(2) False st by (simp add: plays_drain_nothing plays_return)
    qed
    then show ?thesis by (simp only: io_bind_return_right)
  qed
  have p': "pacing (st\<lparr>cl_diagnostics := end_no_send t (cl_diagnostics st)\<rparr>)" using p by (simp add: pacing_def)
  show ?thesis
    unfolding client_send_def Let_def send
  proof (rule plays_clock_bind [OF order_refl], rule plays_prepare [OF p'],
      rule plays_send_loop_bind, rule plays_clock_bind [OF order_refl])
    fix st' t'
    assume st': "pacing st'" "cl_window st' = cl_window (st\<lparr>cl_diagnostics := end_no_send t (cl_diagnostics st)\<rparr>)"
    obtain w2 where w2: "mark_sent (cl_window st) (sequence d) t' = Inr w2"
      "\<not> due ?n i \<longrightarrow> leads cfg (Suc i) t' w2"
      "due ?n i \<longrightarrow> leads cfg (Suc i) t' (process_ack w2 (make_ack_snapshot (tracker_of ?n {..<Suc i}) kDefaultAckBitmapBits) t')"
      by (rule leads_sent [OF l i sel d w1, of t' kDefaultAckBitmapBits])
    show "plays t' (io_bind (io_sum (mark_sent (cl_window st') (sequence d) t')) (\<lambda>window.
          client_drain cfg (count_sent d (st'\<lparr>cl_window := window\<rparr>))))
        (map (Datagram (cc_server cfg)) r @ [Recv_would_block]) (\<lambda>b ys t'.
          (cc_server cfg, data_datagram contents (request_of cfg) (cc_session_id cfg) 0 (of_nat i)) # ys =
            [(cc_server cfg, data_datagram contents (request_of cfg) (cc_session_id cfg) 0 (of_nat i))] \<and>
          leads cfg (Suc i) t' (cl_window b) \<and> pacing b)"
      using final [OF st'(1) w2(2,3)] st'(2) w2(1) by simp
  qed
qed

lemma plays_sample_window:
  assumes "sw_inv (cl_window st)" and "pacing st"
    and "\<And>st'. cl_window st' = cl_window st \<Longrightarrow> pacing st' \<Longrightarrow> plays t (f st') rs Q"
  shows "plays t (io_bind (sample_window now st) f) rs Q"
proof -
  obtain stats where "sample (cl_window st) (window_samples (cl_diagnostics st)) = Inr stats"
    using sample_returns [OF assms(1)] by blast
  then show ?thesis using assms(2,3) by (simp add: sample_window_def pacing_def)
qed

definition round_arrivals :: "endpoint \<Rightarrow> bytes list \<Rightarrow> recv_result list" where
  "round_arrivals server r = Recv_would_block # map (Datagram server) r @ [Recv_would_block]"

lemma plays_client_round:
  assumes cfg: "config_ok contents cfg" and g: "granted cfg" and l: "leads cfg i t (cl_window st)"
    and i: "i < unat (cc_total_chunks cfg)" and p: "pacing st"
    and reply: "chunk_reply (cc_session_id cfg) (unat (cc_total_chunks cfg)) i r"
  shows "plays t (client_round cfg st) (round_arrivals (cc_server cfg) r) (\<lambda>st' ds t'.
    ds = [(cc_server cfg, data_datagram contents (request_of cfg) (cc_session_id cfg) 0 (of_nat i))] \<and>
    leads cfg (Suc i) t' (cl_window st') \<and> pacing st')"
proof -
  let ?w = "check_timeouts (cl_window st) t (ms kDefaultRtoMs)"
  have at: "window_at cfg (of_nat i) (cl_window st)" using l by (simp add: leads_def)
  note I = window_at_inv [OF at]
  have w: "leads cfg i t ?w"
    using l calm_timeouts [OF I(1)] window_at_steps(2) [OF at] by (simp add: leads_def)
  then have inv: "sw_inv ?w" using window_at_inv(1) by (auto simp: leads_def)
  obtain w1 where w1: "select_next_packet ?w =
      (Some \<lparr>sequence = sw_next_sequence ?w, retransmission = False, fast_retransmission = False\<rparr>, w1)"
    "acked_set w1 = acked_set ?w" "sw_chunks w1 = sw_chunks ?w" "sw_next_sequence w1 = sw_next_sequence ?w + 1"
    using calm_select [OF inv _ leads_can_send(1) [OF g w i], of t] w by (auto simp: leads_def)
  show ?thesis
    unfolding client_round_def round_arrivals_def Let_def
  proof (rule plays_drain_nothing, rule plays_clock_bind [OF order_refl], rule plays_clock_bind [OF order_refl],
      rule plays_sample_window)
    fix st' assume st': "cl_window st' = cl_window (st\<lparr>cl_window := ?w\<rparr>)" "pacing st'"
    show "plays t (case select_next_packet (cl_window st') of
          (None, window) \<Rightarrow> client_idle cfg (st'\<lparr>cl_window := window\<rparr>)
        | (Some decision, window) \<Rightarrow> client_send cfg decision (st'\<lparr>cl_window := window\<rparr>))
      (map (Datagram (cc_server cfg)) r @ [Recv_would_block]) (\<lambda>st' ds t'.
        ds = [(cc_server cfg, data_datagram contents (request_of cfg) (cc_session_id cfg) 0 (of_nat i))] \<and>
        leads cfg (Suc i) t' (cl_window st') \<and> pacing st')"
      using plays_client_send [OF cfg w i, where st = "st'\<lparr>cl_window := w1\<rparr>" and r = r and t = t] w1 st' reply
      by (simp add: pacing_def)
  qed (use inv p in \<open>simp_all add: pacing_def\<close>)
qed

lemma client_loop_bind:
  "client_loop cfg st = (if all_acked (cl_window st) then io_return st
     else io_bind (client_round cfg st) (client_loop cfg))"
  by (auto simp: fun_eq_iff client_loop.simps [of cfg st] io_bind_def io_return_def
      split: prod.splits outcome.splits)

definition chunk_datagrams :: "bytes \<Rightarrow> client_config \<Rightarrow> nat \<Rightarrow> (endpoint \<times> bytes) list" where
  "chunk_datagrams contents cfg i = map (\<lambda>j. (cc_server cfg,
     data_datagram contents (request_of cfg) (cc_session_id cfg) 0 (of_nat j))) [i..<unat (cc_total_chunks cfg)]"

lemma leads_all_acked:
  assumes "leads cfg i t w"
  shows "all_acked w \<longleftrightarrow> i = unat (cc_total_chunks cfg)"
proof -
  let ?n = "unat (cc_total_chunks cfg)"
  have at: "window_at cfg (of_nat i) w" and a: "acked_set w = {..<confirmed ?n i}" "i \<le> ?n"
    using assms by (simp_all add: leads_def)
  note I = window_at_inv [OF at]
  have "all_acked w \<longleftrightarrow> confirmed ?n i = ?n" using all_acked_iff [OF I(1)] I(2) a(1) by simp
  then show ?thesis using a(2) by (auto simp: confirmed_def split: if_splits)
qed

lemma plays_client_loop:
  assumes cfg: "config_ok contents cfg" and g: "granted cfg"
  shows "list_all2 (chunk_reply (cc_session_id cfg) (unat (cc_total_chunks cfg))) [i..<unat (cc_total_chunks cfg)] rss \<Longrightarrow>
    leads cfg i t (cl_window st) \<Longrightarrow> pacing st \<Longrightarrow>
    plays t (client_loop cfg st) (concat (map (round_arrivals (cc_server cfg)) rss)) (\<lambda>_ ds _. ds = chunk_datagrams contents cfg i)"
proof (induction rss arbitrary: i st t)
  case Nil
  let ?n = "unat (cc_total_chunks cfg)"
  have "i \<le> ?n" using Nil(2) by (simp add: leads_def)
  moreover have "?n \<le> i" using Nil(1) by auto
  ultimately have i: "i = ?n" by (rule order_antisym)
  have "all_acked (cl_window st)" by (rule iffD2 [OF leads_all_acked [OF Nil(2)] i])
  then have "client_loop cfg st = io_return st" by (simp only: client_loop_bind [of cfg st] if_True)
  moreover have "chunk_datagrams contents cfg i = []" by (simp add: chunk_datagrams_def i)
  ultimately show ?case by (simp add: plays_return)
next
  case (Cons r rss)
  let ?n = "unat (cc_total_chunks cfg)"
  have i: "i < ?n" using Cons(2) by (cases "i < ?n") auto
  with Cons(2) have reply: "chunk_reply (cc_session_id cfg) ?n i r"
    and rest: "list_all2 (chunk_reply (cc_session_id cfg) ?n) [Suc i..<?n] rss"
    by (simp_all add: upt_conv_Cons)
  have "\<not> all_acked (cl_window st)" using leads_all_acked [OF Cons(3)] i by simp
  moreover have "plays t (io_bind (client_round cfg st) (client_loop cfg))
      (round_arrivals (cc_server cfg) r @ concat (map (round_arrivals (cc_server cfg)) rss))
      (\<lambda>_ ds _. ds = chunk_datagrams contents cfg i)"
  proof (rule plays_bind [OF plays_client_round [OF cfg g Cons(3) i Cons(4) reply]], elim conjE)
    fix st' xs t'
    assume "xs = [(cc_server cfg, data_datagram contents (request_of cfg) (cc_session_id cfg) 0 (of_nat i))]"
      "leads cfg (Suc i) t' (cl_window st')" "pacing st'"
    from this(1) Cons(1) [OF rest this(2,3)]
    show "plays t' (client_loop cfg st') (concat (map (round_arrivals (cc_server cfg)) rss))
        (\<lambda>b ys t''. xs @ ys = chunk_datagrams contents cfg i)"
      by (elim plays_mono) (use i in \<open>simp add: chunk_datagrams_def upt_conv_Cons\<close>)
  qed
  ultimately show ?case by (subst client_loop_bind) simp
qed

section \<open>The client's run\<close>

lemma plays_start_handshake:
  assumes d: "start_reply sid start d"
    and "plays t (f (acceptance start)) rs (\<lambda>b ys. Q b ((server, start_datagram start sid) # ys))"
  shows "plays t (io_bind (start_handshake (Suc k) server sid start) f) (Datagram server d # rs) Q"
proof -
  obtain v where v: "reads_as d sid START_ACK v"
    "deserialize_start_ack (view_payload v) (view_payload_size v) = Some (acceptance start)"
    using d by (auto simp: start_reply_def)
  have ser: "serialize_packet (make_header START sid 0) (Some (serialize_start start)) (length (serialize_start start)) =
      Inr (start_datagram start sid)"
    by (simp add: serialize_packet_layout serialize_start_layout start_datagram_def)
  have st: "sa_status (acceptance start) = OK" by (simp add: acceptance_def)
  show ?thesis
    unfolding start_handshake.simps Let_def io_bind_assoc
    by (rule plays_send_bind [OF ser], rule plays_receive_expected [OF v(1)])
      (simp_all add: v(2) st assms(2) kControlTimeoutMs_def)
qed

lemma plays_complete_handshake:
  assumes v: "reads_as d sid COMPLETE_ACK v" and c: "deserialize_complete_ack (view_payload v) (view_payload_size v) = Some c"
    "ca_status c = OK"
    and "plays t (f c) rs (\<lambda>b ys. Q b ((server, complete_datagram start sid) # ys))"
  shows "plays t (io_bind (complete_handshake (Suc k) server sid (sp_total_chunks start)) f) (Datagram server d # rs) Q"
proof -
  have ser: "serialize_packet (make_header COMPLETE sid (sp_total_chunks start)) None 0 = Inr (complete_datagram start sid)"
    by (simp add: serialize_packet_empty complete_datagram_def)
  show ?thesis
    unfolding complete_handshake.simps io_bind_assoc
    by (rule plays_send_bind [OF ser], rule plays_receive_expected [OF v])
      (simp_all add: c assms(4) kControlTimeoutMs_def)
qed

lemma leads_created:
  assumes g: "granted cfg" and "sa_accepted_window_chunks (cc_accepted cfg) \<le> ucast (sa_accepted_bitmap_bits (cc_accepted cfg))"
  obtains w where "make_sender_window (cc_total_chunks cfg) (sa_accepted_window_chunks (cc_accepted cfg))
     (ucast (sa_accepted_bitmap_bits (cc_accepted cfg))) now = Inr w" "leads cfg 0 t w"
proof -
  have nz: "sa_accepted_window_chunks (cc_accepted cfg) \<noteq> 0" using g by (auto simp: granted_def)
  have "(ucast (sa_accepted_bitmap_bits (cc_accepted cfg)) :: u32) \<noteq> 0"
    using g by (simp add: granted_def kDefaultAckBitmapBits_def)
  with nz assms(2) obtain w where w: "make_sender_window (cc_total_chunks cfg) (sa_accepted_window_chunks (cc_accepted cfg))
     (ucast (sa_accepted_bitmap_bits (cc_accepted cfg))) now = Inr w"
    by (simp add: make_sender_window_def not_less [symmetric])
  then have "acked_set w = {}" "sw_next_sequence w = 0"
    by (auto simp: make_sender_window_def acked_set_def fresh_chunk_def split: if_splits)
  then have "leads cfg 0 t w"
    using window_at_created [OF w] by (simp add: leads_def confirmed_def calm_def)
  with w show ?thesis by (rule that)
qed

lemma plays_client_exchange:
  assumes cfg: "config_ok contents cfg" and g: "granted cfg"
    and win: "sa_accepted_window_chunks (cc_accepted cfg) \<le> ucast (sa_accepted_bitmap_bits (cc_accepted cfg))"
    and rate: "rate_bps options \<noteq> 0"
    and rss: "list_all2 (chunk_reply (cc_session_id cfg) (unat (cc_total_chunks cfg))) [0..<unat (cc_total_chunks cfg)] rss"
    and v: "reads_as d (cc_session_id cfg) COMPLETE_ACK v"
    and c: "deserialize_complete_ack (view_payload v) (view_payload_size v) = Some c" "ca_status c = OK"
      "ca_received_chunks c = cc_total_chunks cfg" "ca_received_bytes c = cc_size cfg"
  shows "plays t (client_exchange options cfg)
    (concat (map (round_arrivals (cc_server cfg)) rss) @ [Datagram (cc_server cfg) d]) (\<lambda>_ ds _.
      ds = chunk_datagrams contents cfg 0 @ [(cc_server cfg, complete_datagram (request_of cfg) (cc_session_id cfg))])"
proof -
  obtain w where w: "make_sender_window (cc_total_chunks cfg) (sa_accepted_window_chunks (cc_accepted cfg))
     (ucast (sa_accepted_bitmap_bits (cc_accepted cfg))) t = Inr w" "leads cfg 0 t w"
    by (rule leads_created [OF g win])
  obtain p where p: "make_pacer (rate_bps options) t = Inr p" "0 < bytes_per_nanosecond p"
    using rate by (simp add: make_pacer_def kBitsPerByte_def kNanosecondsPerSecond_def unat_gt_0 del: of_nat_unat)
  let ?st = "init_client_state w p t"
  have st: "cl_window ?st = w" "pacing ?st" using p(2) by (simp_all add: init_client_state_def pacing_def)
  have k: "kControlAttempts = Suc 9" by (simp add: kControlAttempts_def)
  note loop = plays_client_loop [OF cfg g rss, of t ?st, unfolded st(1), OF w(2) st(2)]
  show ?thesis
    unfolding client_exchange_def k
    apply (rule plays_clock_bind [OF order_refl], unfold w(1) io_bind_sum)
    apply (rule plays_clock_bind [OF order_refl], unfold p(1) io_bind_sum)
    apply (rule plays_clock_bind [OF order_refl], rule plays_bind [OF loop])
    apply (rule plays_clock_bind [OF order_refl], unfold Let_def)
    apply (rule plays_complete_handshake [where start = "request_of cfg", unfolded request_of_simps, OF v c(1,2)])
    apply (simp add: c(3,4))
    apply (rule plays_clock_bind [OF order_refl], simp add: plays_return)
    done
qed

text \<open>What the server's answers let the client receive.\<close>

definition client_arrivals :: "endpoint \<Rightarrow> bytes \<Rightarrow> bytes list list \<Rightarrow> bytes \<Rightarrow> recv_result list" where
  "client_arrivals server d rss d' =
     Datagram server d # concat (map (round_arrivals server) rss) @ [Datagram server d']"

lemma random_session_id_nonzero: "random_session_id randoms = Some sid \<Longrightarrow> sid \<noteq> 0"
  by (induction randoms rule: random_session_id.induct) (auto simp: Let_def split: if_splits)

lemma plays_run_client:
  assumes plan: "client_plan getaddrinfo k contents randoms options f c n server sid"
    and window: "default_window_chunks c \<le> ucast kDefaultAckBitmapBits" and rate: "rate_bps options \<noteq> 0" and fd: "0 \<le> fd"
    and start: "start_reply sid (start_request (mf_size f) c n) d"
    and rss: "list_all2 (chunk_reply sid (unat n)) [0..<unat n] rss"
    and final: "final_reply (session_of client sid (start_request (mf_size f) c n)) d'"
  shows "plays t (run_client getaddrinfo k contents fd 0 randoms options) (client_arrivals server d rss d') (\<lambda>_ ds _.
    ds = map (Pair server) (client_script contents (start_request (mf_size f) c n) sid))"
proof -
  let ?start = "start_request (mf_size f) c n"
  obtain calls where opened: "open_input k (co_file options) = (Inr f, calls)"
    using plan by (cases "open_input k (co_file options)") (simp add: client_plan_def)
  have p: "length contents = unat (mf_size f)" "chunk_size_for_mtu (co_mtu options) = Inr c"
    "chunk_count (mf_size f) c = Inr n" "resolve_server getaddrinfo options = Inr server" "random_session_id randoms = Some sid"
    using plan by (simp_all add: client_plan_def)
  have acc: "sa_accepted_window_chunks (acceptance ?start) = default_window_chunks c"
    "sa_accepted_bitmap_bits (acceptance ?start) = kDefaultAckBitmapBits"
    using window by (simp_all add: acceptance_def start_request_def min_def)
  have valid: "valid_acceptance (acceptance ?start)"
    using default_window_wide [OF p(2)] window by (auto simp: valid_acceptance_def acc)
  define cfg where "cfg = \<lparr>cc_server = server, cc_session_id = sid, cc_data = map_option (\<lambda>_. contents) (mf_data f),
       cc_size = mf_size f, cc_chunk_size = c, cc_total_chunks = n, cc_accepted = acceptance ?start\<rparr>"
  have cfg: "config_ok contents cfg"
    using p(1-3) open_input_mapped [OF opened] by (auto simp: config_ok_def chunk_size_for_mtu_Inr cfg_def)
  have g: "granted cfg" using default_window_wide [OF p(2)] by (simp add: granted_def cfg_def acc)
  have sel: "cc_server cfg = server" "cc_session_id cfg = sid" "cc_total_chunks cfg = n" "cc_size cfg = mf_size f"
    "request_of cfg = ?start" "cc_accepted cfg = acceptance ?start"
    by (simp_all add: cfg_def request_of_def)
  obtain v r where v: "reads_as d' sid COMPLETE_ACK v" "deserialize_complete_ack (view_payload v) (view_payload_size v) = Some r"
    "ca_status r = OK" "ca_received_chunks r = n" "ca_received_bytes r = mf_size f"
    using final by (auto simp: final_reply_def session_of_def start_request_def)
  have X: "plays t' (client_exchange options cfg) (concat (map (round_arrivals server) rss) @ [Datagram server d']) (\<lambda>_ ds _.
      ds = chunk_datagrams contents cfg 0 @ [(server, complete_datagram ?start sid)])" for t'
    using plays_client_exchange [OF cfg g _ rate, of rss d' v r t'] rss v window
    by (simp add: sel acc)
  have script: "map (Pair server) (client_script contents ?start sid) =
      (server, start_datagram ?start sid) # chunk_datagrams contents cfg 0 @ [(server, complete_datagram ?start sid)]"
    by (simp add: client_script_def chunk_datagrams_def sel) (simp add: start_request_def)
  have k: "kControlAttempts = Suc 9" by (simp add: kControlAttempts_def)
  have session: "plays t (client_session 0 randoms options (map_option (\<lambda>_. contents) (mf_data f)) (mf_size f) c n server)
      (client_arrivals server d rss d') (\<lambda>_ ds _. ds = map (Pair server) (client_script contents ?start sid))"
    unfolding client_session_def p(5) client_arrivals_def option.case k
  proof (subst if_not_P, simp, rule plays_start_handshake [OF start], subst if_not_P, simp add: valid, unfold cfg_def [symmetric])
    show "plays t (client_transfer options cfg) (concat (map (round_arrivals server) rss) @ [Datagram server d'])
        (\<lambda>b ys t'. (server, start_datagram ?start sid) # ys = map (Pair server) (client_script contents ?start sid))"
      unfolding client_transfer_def script
      by (rule plays_bind_last [OF X]) (auto intro!: plays_logs_bind plays_return)
  qed
  have "plays t (send_file getaddrinfo contents fd 0 randoms options f) (client_arrivals server d rss d')
      (\<lambda>_ ds _. ds = map (Pair server) (client_script contents ?start sid))"
    unfolding send_file_def p(2-4) io_bind_sum
    using window fd
    by (simp add: not_less [symmetric] del: not_less)
      (intro plays_on_throw plays_bind_last [OF session], auto intro!: plays_logs_bind plays_return)
  then show ?thesis
    unfolding run_client_def Let_def opened prod.case sum.case
    by (intro plays_logs_bind plays_finally plays_bind_last) (assumption, auto intro!: plays_logs_bind plays_return)
qed

end
