(* ===== verification/Lossless_Transfer.thy ===== *)
theory Lossless_Transfer
  imports Lossless_Client Transfer_System Client_Properties
begin

text \<open>
  A run of both programs exists for every file: the counterpart of the correctness of every run that
  succeeds.
\<close>

section \<open>A network that loses nothing\<close>

definition lossless ::
    "endpoint \<Rightarrow> endpoint \<Rightarrow> (endpoint \<times> bytes) list \<Rightarrow> recv_result list \<Rightarrow> bool" where
  "lossless src dest sent rs \<longleftrightarrow>
     (\<exists>ds. sent = map (Pair dest) ds \<and> filter (\<lambda>r. r \<noteq> Recv_would_block) rs = map (Datagram src) ds)"

lemma losslessI:
  "sent = map (Pair dest) ds \<Longrightarrow> filter (\<lambda>r. r \<noteq> Recv_would_block) rs = map (Datagram src) ds \<Longrightarrow> lossless src dest sent rs"
  by (auto simp: lossless_def)

lemma lossless_mem: "lossless src dest sent rs \<Longrightarrow> Datagram from bs \<in> set rs \<Longrightarrow> (dest, bs) \<in> set sent"
proof -
  assume "lossless src dest sent rs" and r: "Datagram from bs \<in> set rs"
  then obtain ds where ds: "sent = map (Pair dest) ds" "filter (\<lambda>r. r \<noteq> Recv_would_block) rs = map (Datagram src) ds"
    by (auto simp: lossless_def)
  from r have "Datagram from bs \<in> set (filter (\<lambda>r. r \<noteq> Recv_would_block) rs)" by simp
  then show "(dest, bs) \<in> set sent" unfolding ds(2) ds(1) by auto
qed

lemma arrivals_filter:
  "filter (\<lambda>r. r \<noteq> Recv_would_block) (client_arrivals server d rss d') = map (Datagram server) (d # concat rss @ [d'])"
  by (simp add: client_arrivals_def round_arrivals_def filter_concat map_concat comp_def)

text \<open>From a judgement to a world.\<close>

lemma plays_world:
  assumes "plays t m rs Q"
  obtains w a w' ds t' where "m w = (Returned a, w')" "wd_recvs w = rs" "wd_recvs w' = []" "sorted (wd_clock w)"
    "wd_sent w = []" "wd_sent w' = ds" "wd_flushed w = []" "Q a ds t'"
  using assms
proof (rule playsE)
  fix ps ss ts a ds t'
  assume 1: "sorted (t # ts @ [t'])" "Q a ds t'" "\<And>w. \<exists>w'. m (feed rs ps ss ts w) = (Returned a, w') \<and>
      same_scripts w w' \<and> wd_sent w' = wd_sent w @ ds"
  obtain w' where "m (feed rs ps ss ts idle_world) = (Returned a, w')" "same_scripts idle_world w'"
    "wd_sent w' = wd_sent idle_world @ ds" using 1(3) by blast
  then show ?thesis
    using 1(1,2) by (intro that [of "feed rs ps ss ts idle_world" a w' ds t'])
      (auto simp: feed_def idle_world_def same_scripts_def sorted_append)
qed

text \<open>C2: Every file can be transferred.  Let client and server be started with valid command lines and the
  same MTU of at least 1076 bytes, the rate not be so small that it is truncated to zero, and let the
  system open their files and sockets.  Then over a network that delivers every datagram once and in
  order, with system calls that answer suitably and clocks that never go back, both programs exit
  with status 0, all that was sent is received, and the server has flushed exactly the client's file,
  however large it is.\<close>

theorem every_file_transferable:
  assumes "parse_client_options stod argvc = Inr (Parsed copts)" and "parse_server_options argvs = Inr (Parsed sopts)"
    and "co_mtu copts = so_mtu sopts" and "1076 \<le> unat (co_mtu copts)" and "rate_bps copts \<noteq> 0"
    and "client_plan getaddrinfo kc contents randoms copts f c n server_addr sid"
    and "0 \<le> fdc" and "0 \<le> fds"
    and "fst (open_output ks (so_output sopts) (mf_size f)) = Inr g" and "fst (sync_output ks g) = Inr ()"
  shows "\<exists>wc wc' ws ws'.
    client_main stod getaddrinfo kc contents fdc 0 randoms argvc wc = (Returned 0, wc') \<and>
    server_main fds 0 0 ks argvs ws = (Returned 0, ws') \<and>
    wd_sent wc = [] \<and> wd_sent ws = [] \<and> wd_flushed ws = [] \<and> sorted (wd_clock wc) \<and> sorted (wd_clock ws) \<and>
    lossless client_addr server_addr (wd_sent wc') (wd_recvs ws) \<and>
    lossless server_addr client_addr (wd_sent ws') (wd_recvs wc) \<and>
    wd_recvs wc' = [] \<and> wd_recvs ws' = [] \<and> wd_flushed ws' = [contents]"
proof -
  let ?start = "start_request (mf_size f) c n"
  let ?sess = "session_of client_addr sid ?start"
  have p: "chunk_size_for_mtu (co_mtu copts) = Inr c" "chunk_count (mf_size f) c = Inr n" "length contents = unat (mf_size f)"
    "sid \<noteq> 0" "resolve_server getaddrinfo copts = Inr server_addr" "fst (open_input kc (co_file copts)) = Inr f"
    using assms(6) random_session_id_nonzero by (auto simp: client_plan_def)
  have window: "default_window_chunks c \<le> ucast kDefaultAckBitmapBits"
    using default_window_fits_iff [OF p(1)] assms(4) by simp
  obtain ws u ws' ds t where S: "run_server fds 0 0 ks sopts ws = (Returned u, ws')"
    "wd_recvs ws = map (Datagram client_addr) (client_script contents ?start sid)" "wd_recvs ws' = []"
    "sorted (wd_clock ws)" "wd_sent ws = []" "wd_sent ws' = ds" "wd_flushed ws = []" "all_replies ?sess ds"
    by (rule plays_world [OF plays_run_server [OF p(4) p(1) [unfolded assms(3)] p(2,3) assms(8-10), of 0 client_addr]])
  obtain d rss d' where ds: "ds = map (Pair client_addr) (d # concat rss @ [d'])" and d: "start_reply sid ?start d"
    and rss: "list_all2 (chunk_reply sid (unat n)) [0..<unat n] rss" and d': "final_reply ?sess d'"
    using S(8) by (auto simp: all_replies_def replies_def session_of_def chunks_of_def start_request_def)
  obtain wc report wc' cs t' where C: "run_client getaddrinfo kc contents fdc 0 randoms copts wc = (Returned report, wc')"
    "wd_recvs wc = client_arrivals server_addr d rss d'" "wd_recvs wc' = []"
    "sorted (wd_clock wc)" "wd_sent wc = []" "wd_sent wc' = cs" "wd_flushed wc = []"
    "cs = map (Pair server_addr) (client_script contents ?start sid)"
    by (rule plays_world [OF plays_run_client [OF assms(6) window assms(5,7) d rss d', of 0]])
  have net1: "lossless client_addr server_addr (wd_sent wc') (wd_recvs ws)"
    using S(2) C(6,8) by (intro losslessI [of _ _ "client_script contents ?start sid"]) (simp_all add: filter_map comp_def)
  have net2: "lossless server_addr client_addr (wd_sent ws') (wd_recvs wc)"
    using S(6) C(2) ds by (intro losslessI [of _ _ "d # concat rss @ [d']"]) (simp_all add: arrivals_filter)
  have "wd_flushed ws' = wd_flushed ws @ [contents]"
    by (rule run_client_delivers [OF C(1) _ p(5) S(1) C(5) S(5)])
      (use p(3,6) lossless_mem [OF net1] lossless_mem [OF net2] in auto)
  moreover have "client_main stod getaddrinfo kc contents fdc 0 randoms argvc wc = (Returned 0, wc')"
    using C(1) by (simp add: client_main_def Let_def assms(1) exit_status_def)
  moreover have "server_main fds 0 0 ks argvs ws = (Returned 0, ws')"
    using S(1) by (simp add: server_main_def Let_def assms(2) exit_status_def)
  ultimately show ?thesis using S C net1 net2 by (intro exI [of _ wc] exI [of _ wc'] exI [of _ ws] exI [of _ ws']) simp
qed

theorem every_file_transferable_witness:
  "\<exists>wc wc' ws ws'.
    client_main (\<lambda>_. Inr None) (\<lambda>_ _. Inr example_server) example_kernel [42] 6 0 [(0, 77)] example_client_argv wc =
      (Returned 0, wc') \<and>
    server_main 5 0 0 example_kernel example_server_argv ws = (Returned 0, ws') \<and> wd_flushed ws' = [[42]]"
proof -
  have "rate_bps example_options \<noteq> 0" by (simp add: rate_bps_def example_options_def default_client_options_def)
  moreover have "fst (open_output example_kernel (so_output example_server_options) (mf_size example_input)) = Inr example_output"
    using example_output_opened by (simp add: example_input_def)
  moreover have "fst (sync_output example_kernel example_output) = Inr ()"
    by (simp add: sync_output_def example_kernel_def example_output_def)
  moreover have "co_mtu example_options = so_mtu example_server_options" "1076 \<le> unat (co_mtu example_options)"
    by (simp_all add: example_options_def default_client_options_def example_server_options_def)
  ultimately show ?thesis
    using every_file_transferable [OF example_client_options example_server_argv_parsed _ _ _ example_plan,
        where fdc = 6 and fds = 5 and ks = example_kernel and g = example_output] by simp blast
qed

end
