(* ===== verification/Spec2Isabelle.thy ===== *)
theory Spec2Isabelle
  imports Output_Properties Progress_Properties Lossless_Transfer
begin

text \<open>
  A model of the fast reliable file transfer program and its correctness.

  \<^bold>\<open>The program.\<close>  A client sends one file over UDP to a server.  \<^verbatim>\<open>src/client.cpp\<close> maps the file, agrees
  on the transfer in a START handshake, sends the chunks as DATA packets through a sliding window
  (\<^verbatim>\<open>SenderWindow\<close> in \<^verbatim>\<open>src/reliability.cpp\<close>) at the rate of a token bucket (\<^verbatim>\<open>src/pacer.cpp\<close>), retransmits on
  selective acknowledgements and on timeouts, and ends with a COMPLETE handshake.  \<^verbatim>\<open>src/server.cpp\<close>
  writes the chunks into a mapped output file (\<^verbatim>\<open>src/file_io.cpp\<close>), tracks them in a \<^verbatim>\<open>ReceiverTracker\<close>,
  acknowledges them with SACK snapshots, flushes the file when a COMPLETE finds every chunk present,
  confirms, and answers repeated COMPLETEs for a while.  \<^verbatim>\<open>src/protocol.cpp\<close> is the wire format.

  \<^bold>\<open>Theories and code.\<close>
  \<^item> \<open>Frft_Prelude\<close>: machine words, errors, \<^verbatim>\<open>include/common.hpp\<close>, shared lemmas.
  \<^item> \<open>Byte_Codec\<close>, \<open>Packet_Format\<close>, \<open>Control_Payloads\<close>, \<open>Chunking\<close>: \<^verbatim>\<open>src/protocol.cpp\<close> and
    \<^verbatim>\<open>include/protocol.hpp\<close>, and the chunk arithmetic of the client.  Codecs are interpretations of the
    locales \<open>wire_field\<close>, \<open>payload_codec\<close> and \<open>canonical_codec\<close>.
  \<^item> \<open>Ack_Bitmap\<close>, \<open>Receiver_Tracker\<close>: the receiver's half of \<^verbatim>\<open>src/reliability.cpp\<close>.  The abstraction of a
    tracker is the set of received chunks; \<open>receipt_tracker\<close> is its contract.
  \<^item> \<open>Sender_Window\<close>, \<open>Sender_Contract\<close>, \<open>Sender_Invariant\<close>, \<open>Sender_Selection\<close>, \<open>Sender_Properties\<close>: the
    sender's half.  The contract \<open>send_window\<close> speaks of the acknowledged set and the next sequence;
    \<open>sender_reachable\<close> are the windows that calls of the public operations can produce.
  \<^item> \<open>Ack_Exchange\<close>: both halves together.
  \<^item> \<open>Pacer\<close>: \<^verbatim>\<open>src/pacer.cpp\<close>.  \<open>Diagnostics\<close>: the statistics of \<^verbatim>\<open>src/client.cpp\<close>.  \<open>Printed_Output\<close>: lines of
    output, the conversions of \<^verbatim>\<open>src/client.cpp\<close> made for them, the usage texts.
  \<^item> \<open>File_Io\<close>: \<^verbatim>\<open>src/file_io.cpp\<close>, over a parameter that says what the kernel answers, with the trace of
    the system calls.
  \<^item> \<open>Socket_Io\<close>, \<open>Io_Rules\<close>, \<open>Io_Traces\<close>: datagrams, clock, polling and printing, and the rules to reason
    about them.
  \<^item> \<open>Server\<close>, \<open>Server_Invariant\<close>, \<open>Server_Delivery\<close>, \<open>Server_Progress\<close>, \<open>Server_Faults\<close>,
    \<open>Server_Properties\<close>: \<^verbatim>\<open>src/server.cpp\<close>.
  \<^item> \<open>Client\<close>, \<open>Client_Invariant\<close>, \<open>Client_Trace\<close>, \<open>Client_Properties\<close>: \<^verbatim>\<open>src/client.cpp\<close>.  Its schedule of
    DATA packets is the abstract sender of \<open>Client_Trace\<close>.
  \<^item> \<open>Options\<close>, \<open>Programs\<close>: \<^verbatim>\<open>parse_options\<close> and \<^verbatim>\<open>main\<close> of both programs.
  \<^item> \<open>Program_Output\<close>, \<open>Wire_Typing\<close>: what both programs print, and the types of what they send.
  \<^item> \<open>Example_Run\<close>: one session evaluated, for the witnesses.
  \<^item> \<open>Io_Runs\<close>, \<open>Lossless_Server\<close>, \<open>Lossless_Client\<close>, \<open>Lossless_Transfer\<close>: that runs exist, step by step
    for each program over a network that loses nothing, then for both.
  \<^item> \<open>Transfer_System\<close>: client, server and network.  \<open>Output_Properties\<close>, \<open>Progress_Properties\<close>: the
    properties that speak of whole runs and of progress.

  \<^bold>\<open>State and effects.\<close>  Integers keep their width as words; the times of \<^verbatim>\<open>steady_clock\<close> are integers
  counting nanoseconds; exceptions are values of \<open>frft_error\<close>.  The loops of both programs are functions
  on a \<open>world\<close>, which holds scripts of what the coming system calls return and logs of what the program
  did: datagrams sent, file and socket calls, lines printed, the contents of the output at each
  successful flush.  A
  call whose script is used up yields \<open>Blocked\<close>.  The scripts are finite but arbitrary, so theorems
  about all worlds speak of every finite prefix of every behaviour of system and network.  Every loop of
  the programs consumes a script (arrivals, clock readings or send results) in each round, which is
  the measure of its termination; no fuel is used.  The loop of the pacer alone, whose wake-up times
  are an oracle, is a \<open>partial_function\<close>, and a theorem shows that it returns.

  \<^bold>\<open>What is shown.\<close>
  \<^item> The whole: \<open>transfer_correct\<close>.  If the client exits with status 0 against the server, over a network
    that may lose, repeat, delay, reorder and cut datagrams and carry anything between other
    addresses, the server has flushed exactly the client's file.  \<open>every_file_transferable\<close> is the
    counterpart: over a network that loses nothing there is such a run for every file, of any size.
  \<^item> The server: what an accepted START guarantees, the safety of every iteration against any packet,
    the contents of the file, the ACK policy, when it confirms, the time wait, release of resources, and
    that it ends once the file and the COMPLETE have arrived, where only a failed system call can make
    its loop throw.
  \<^item> The client: what it sends, what it knows when it succeeds, how it fails, release of resources; the
    datagrams of a run are a legal schedule of the abstract sender, an overdue packet is sent again in
    the next round, and its waits refine the pacer's loop.
  \<^item> Both programs: every datagram sent is well typed, the exit status goes with the output, and the
    numbers the client reports are those of its datagrams.
  \<^item> The reliability layer: the window's invariant, progress (never stuck), exact effect of
    acknowledgements, timeouts and fast retransmissions, refinement of set insertion by the tracker, and
    the exchange that makes the sender know what the receiver has.
  \<^item> The wire format and the command lines: round trips, canonicity, exact error conditions.
  \<^item> The pacer: the rate bound over any stretch and termination.  The diagnostics: what they count.

  Six judgements with a rule per construct carry the proofs about runs: \<open>does\<close> of \<open>Io_Rules\<close>, which
  datagrams, errors and values a step can produce, the datagrams being whole unless a call failed;
  \<open>traces\<close> of \<open>Io_Traces\<close>, how the value of a step goes with the sequence of its datagrams; \<open>prints\<close> of
  \<open>Program_Output\<close>, how it goes with the lines printed; \<open>starves\<close> of \<open>Server_Progress\<close>, what a step that
  blocks lacks; \<open>faults\<close> of \<open>Server_Faults\<close>, why a step throws; \<open>plays\<close> of \<open>Io_Runs\<close>, that a step
  returns for given arrivals and suitable answers of the system.  The locale \<open>world_frame\<close> carries what
  a step leaves alone.

  \<^bold>\<open>Parameters.\<close>  \<^verbatim>\<open>getaddrinfo\<close>, the random device, \<^verbatim>\<open>std::stod\<close>, the results of \<^verbatim>\<open>socket\<close>, \<^verbatim>\<open>setsockopt\<close> and
  \<^verbatim>\<open>bind\<close>, and the kernel's answers to file calls.  The bytes of the input mapping are a parameter too;
  that there are as many as \<^verbatim>\<open>fstat\<close> reported is a hypothesis where it is needed.

  \<^bold>\<open>Not modelled.\<close>  The characters of a printed \<^verbatim>\<open>double\<close>: the output keeps its exact value.  The rounding of
  \<^verbatim>\<open>double\<close> in the averages, throughputs and the rate option and of \<^verbatim>\<open>long double\<close> in the pacer: all are
  exact rationals here, and a rate beyond \<^verbatim>\<open>2^64\<close> bits per second, whose conversion is undefined in C++, wraps.  Failure of
  memory allocation.  The socket's address family and buffer options beyond their result codes.  The
  test program, the shell scripts and the Makefile contain none of the program's logic.
\<close>

end
